(* ===== verification/Prelude.thy ===== *)
theory Prelude
  imports Main "HOL-Library.Sublist"
begin

text \<open>
  Shared base of the development: Python strings (one \<^typ>\<open>char\<close> is one code point in the
  range U+0000 to U+00FF), the values a JSON document can hold, Python dictionaries as
  insertion-ordered association lists, and the decimal printing and parsing of integers that
  \<open>str\<close> and \<open>int\<close> perform. The lemma collections \<open>py_str\<close> and \<open>py_dict\<close> carry the
  component proofs.
\<close>

named_theorems py_str \<open>facts on the string operations\<close>
named_theorems py_dict \<open>facts on dictionary lookup and update\<close>

type_synonym pystr = string

section \<open>Strings\<close>

definition py_isspace :: "char \<Rightarrow> bool" where
  "py_isspace c =
     (let n = (of_char c :: nat)
      in (9 \<le> n \<and> n \<le> 13) \<or> (28 \<le> n \<and> n \<le> 32) \<or> n = 133 \<or> n = 160)"

definition lstrip_by :: "(char \<Rightarrow> bool) \<Rightarrow> pystr \<Rightarrow> pystr" where
  "lstrip_by p s = dropWhile p s"

definition rstrip_by :: "(char \<Rightarrow> bool) \<Rightarrow> pystr \<Rightarrow> pystr" where
  "rstrip_by p s = rev (dropWhile p (rev s))"

definition strip :: "pystr \<Rightarrow> pystr" where
  "strip s = rstrip_by py_isspace (lstrip_by py_isspace s)"

text \<open>\<open>str.lower\<close> on the modelled range: the ASCII capitals and the Latin-1 capitals
  U+00C0 to U+00DE other than the multiplication sign U+00D7.\<close>

definition lower_char :: "char \<Rightarrow> char" where
  "lower_char c =
     (let n = (of_char c :: nat)
      in if (65 \<le> n \<and> n \<le> 90) \<or> (192 \<le> n \<and> n \<le> 222 \<and> n \<noteq> 215)
         then char_of (n + 32) else c)"

definition lower :: "pystr \<Rightarrow> pystr" where
  "lower s = map lower_char s"

definition startswith :: "pystr \<Rightarrow> pystr \<Rightarrow> bool" where
  "startswith s p = (take (length p) s = p)"

definition endswith :: "pystr \<Rightarrow> pystr \<Rightarrow> bool" where
  "endswith s p = (length p \<le> length s \<and> drop (length s - length p) s = p)"

text \<open>\<open>s.split(c)\<close> for a one-character separator: never empty, the separators dropped.\<close>

fun split_char :: "char \<Rightarrow> pystr \<Rightarrow> pystr list" where
  "split_char c [] = [[]]"
| "split_char c (x # xs) =
     (if x = c then [] # split_char c xs
      else case split_char c xs of
             [] \<Rightarrow> [[x]]
           | t # ts \<Rightarrow> (x # t) # ts)"

text \<open>\<open>s.split()\<close>: maximal runs of non-space characters.\<close>

fun split_ws_acc :: "pystr \<Rightarrow> pystr \<Rightarrow> pystr list" where
  "split_ws_acc cur [] = (if cur = [] then [] else [cur])"
| "split_ws_acc cur (x # xs) =
     (if py_isspace x then
        (if cur = [] then split_ws_acc [] xs else cur # split_ws_acc [] xs)
      else split_ws_acc (cur @ [x]) xs)"

definition split_ws :: "pystr \<Rightarrow> pystr list" where
  "split_ws s = split_ws_acc [] s"

lemma startswith_prefix [py_str]: "startswith s p \<longleftrightarrow> prefix p s"
  by (auto simp: startswith_def prefix_def) (metis append_take_drop_id)

lemma endswith_suffix [py_str]: "endswith s p \<longleftrightarrow> suffix p s"
proof
  assume "endswith s p"
  then show "suffix p s"
    by (metis endswith_def suffix_drop)
next
  assume "suffix p s"
  then obtain r where "s = r @ p" by (auto simp: suffix_def)
  then show "endswith s p" by (simp add: endswith_def)
qed

lemma length_lstrip_by [py_str]: "length (lstrip_by p s) \<le> length s"
  by (simp add: lstrip_by_def length_dropWhile_le)

lemma length_rstrip_by [py_str]: "length (rstrip_by p s) \<le> length s"
  using length_dropWhile_le [of p "rev s"] by (simp add: rstrip_by_def)

lemma length_strip [py_str]: "length (strip s) \<le> length s"
  using length_lstrip_by [of py_isspace s] length_rstrip_by [of py_isspace "lstrip_by py_isspace s"]
  by (simp add: strip_def)

lemma split_char_not_Nil [simp]: "split_char c s \<noteq> []"
  by (induction s) (auto split: list.splits)

lemma split_char_no_sep:
  "t \<in> set (split_char c s) \<Longrightarrow> c \<notin> set t"
proof (induction s arbitrary: t)
  case Nil
  then show ?case by simp
next
  case (Cons x xs)
  then show ?case by (cases "split_char c xs") (auto split: if_splits)
qed

lemma split_ws_acc_length: "sum_list (map length (split_ws_acc cur s)) \<le> length cur + length s"
proof (induction s arbitrary: cur)
  case Nil
  then show ?case by simp
next
  case (Cons x xs)
  from Cons.IH [of "[]"] Cons.IH [of "cur @ [x]"] show ?case by auto
qed

lemma split_ws_length: "sum_list (map length (split_ws s)) \<le> length s"
  using split_ws_acc_length [of "[]" s] by (simp add: split_ws_def)

lemma split_ws_acc_nonempty: "t \<in> set (split_ws_acc cur s) \<Longrightarrow> t \<noteq> []"
  by (induction s arbitrary: cur) (auto split: if_splits)

lemma split_ws_nonempty: "t \<in> set (split_ws s) \<Longrightarrow> t \<noteq> []"
  using split_ws_acc_nonempty by (auto simp: split_ws_def)

section \<open>Decimal numerals\<close>

definition digit_char :: "nat \<Rightarrow> char" where
  "digit_char d = char_of (48 + d)"

definition digit_val :: "char \<Rightarrow> nat option" where
  "digit_val c =
     (let n = (of_char c :: nat) in if 48 \<le> n \<and> n \<le> 57 then Some (n - 48) else None)"

fun str_of_nat :: "nat \<Rightarrow> pystr" where
  "str_of_nat n =
     (if n < 10 then [digit_char n] else str_of_nat (n div 10) @ [digit_char (n mod 10)])"

declare str_of_nat.simps [simp del]

definition str_of_int :: "int \<Rightarrow> pystr" where
  "str_of_int i = (if i < 0 then CHR ''-'' # str_of_nat (nat (- i)) else str_of_nat (nat i))"

text \<open>The digit part of an \<open>int\<close> literal: digits, with single underscores between them.\<close>

fun int_digits :: "nat \<Rightarrow> pystr \<Rightarrow> nat option" where
  "int_digits acc [] = Some acc"
| "int_digits acc (c # cs) =
     (if c = CHR ''_'' then
        (case cs of
           [] \<Rightarrow> None
         | d # ds \<Rightarrow>
             (case digit_val d of
                None \<Rightarrow> None
              | Some v \<Rightarrow> int_digits (10 * acc + v) ds))
      else
        (case digit_val c of
           None \<Rightarrow> None
         | Some v \<Rightarrow> int_digits (10 * acc + v) cs))"

definition nat_literal :: "pystr \<Rightarrow> nat option" where
  "nat_literal s =
     (case s of
        [] \<Rightarrow> None
      | c # cs \<Rightarrow> (case digit_val c of None \<Rightarrow> None | Some v \<Rightarrow> int_digits v cs))"

text \<open>\<open>int(s)\<close> of a string: \<^const>\<open>None\<close> is the \<open>ValueError\<close>.\<close>

definition int_of_str :: "pystr \<Rightarrow> int option" where
  "int_of_str s =
     (case strip s of
        [] \<Rightarrow> None
      | c # cs \<Rightarrow>
          if c = CHR ''-'' then map_option (\<lambda>n. - int n) (nat_literal cs)
          else if c = CHR ''+'' then map_option int (nat_literal cs)
          else map_option int (nat_literal (c # cs)))"

lemma digit_val_digit_char [simp]: "d < 10 \<Longrightarrow> digit_val (digit_char d) = Some d"
  by (simp add: digit_val_def digit_char_def)

lemma digit_char_plain:
  assumes "d < 10"
  shows "digit_char d \<noteq> CHR ''_''" and "digit_char d \<noteq> CHR ''-''"
    and "digit_char d \<noteq> CHR ''+''" and "\<not> py_isspace (digit_char d)"
proof -
  have v: "(of_char (digit_char d) :: nat) = 48 + d"
    using assms by (simp add: digit_char_def)
  show "digit_char d \<noteq> CHR ''_''" and "digit_char d \<noteq> CHR ''-''" and "digit_char d \<noteq> CHR ''+''"
    using v assms by auto
  show "\<not> py_isspace (digit_char d)"
    using v assms by (simp add: py_isspace_def)
qed

lemma str_of_nat_digits: "\<exists>ds. ds \<noteq> [] \<and> (\<forall>d\<in>set ds. d < 10) \<and> str_of_nat n = map digit_char ds"
proof (induction n rule: str_of_nat.induct)
  case (1 n)
  show ?case
  proof (cases "n < 10")
    case True
    then show ?thesis by (subst str_of_nat.simps) (auto intro: exI [of _ "[n]"])
  next
    case False
    with 1 obtain ds where ds: "ds \<noteq> []" "\<forall>d\<in>set ds. d < 10"
      "str_of_nat (n div 10) = map digit_char ds" by blast
    have "str_of_nat n = map digit_char (ds @ [n mod 10])"
      using False ds by (subst str_of_nat.simps) simp
    with ds show ?thesis by (intro exI [of _ "ds @ [n mod 10]"]) auto
  qed
qed

lemma int_digits_append:
  assumes "\<forall>d\<in>set ds. d < 10"
  shows "int_digits acc (map digit_char ds @ [digit_char e]) =
    (case int_digits acc (map digit_char ds) of
       None \<Rightarrow> None | Some v \<Rightarrow> int_digits v [digit_char e])"
  using assms by (induction ds arbitrary: acc) (simp_all add: digit_char_plain)

lemma nat_literal_snoc:
  assumes "ds \<noteq> []" "\<forall>d\<in>set ds. d < 10" "e < 10"
  shows "nat_literal (map digit_char ds @ [digit_char e]) =
    map_option (\<lambda>v. 10 * v + e) (nat_literal (map digit_char ds))"
  using assms by (cases ds) (simp_all add: nat_literal_def int_digits_append digit_char_plain
      split: option.splits)

lemma nat_literal_str_of_nat: "nat_literal (str_of_nat n) = Some n"
proof (induction n rule: str_of_nat.induct)
  case (1 n)
  show ?case
  proof (cases "n < 10")
    case True
    then show ?thesis by (subst str_of_nat.simps) (simp add: nat_literal_def)
  next
    case False
    obtain ds where ds: "ds \<noteq> []" "\<forall>d\<in>set ds. d < 10"
      "str_of_nat (n div 10) = map digit_char ds"
      using str_of_nat_digits by blast
    have "nat_literal (str_of_nat n) = map_option (\<lambda>v. 10 * v + n mod 10) (nat_literal (str_of_nat (n div 10)))"
      using False ds by (subst str_of_nat.simps) (simp add: nat_literal_snoc)
    with 1 False show ?thesis by simp
  qed
qed

lemma strip_plain:
  assumes "s = [] \<or> (\<not> py_isspace (hd s) \<and> \<not> py_isspace (last s))"
  shows "strip s = s"
proof (cases "s = []")
  case True
  then show ?thesis by (simp add: strip_def lstrip_by_def rstrip_by_def)
next
  case False
  with assms have hd: "\<not> py_isspace (hd s)" and "\<not> py_isspace (hd (rev s))"
    by (simp_all add: hd_rev)
  then have "dropWhile py_isspace s = s" and "dropWhile py_isspace (rev s) = rev s"
    using False by (metis dropWhile.simps(2) list.collapse rev_is_Nil_conv)+
  then show ?thesis by (simp add: strip_def lstrip_by_def rstrip_by_def)
qed

lemma strip_str_of_nat: "strip (str_of_nat n) = str_of_nat n"
proof -
  obtain ds where ds: "ds \<noteq> []" "\<forall>d\<in>set ds. d < 10" "str_of_nat n = map digit_char ds"
    using str_of_nat_digits by blast
  then have "hd ds < 10" and "last ds < 10" by auto
  with ds have "\<not> py_isspace (hd (str_of_nat n))" and "\<not> py_isspace (last (str_of_nat n))"
    by (simp_all add: hd_map last_map digit_char_plain)
  then show ?thesis by (simp add: strip_plain)
qed

text \<open>The round trip \<open>int(str(n)) = n\<close>.\<close>

lemma int_of_str_of_nat [py_str]: "int_of_str (str_of_nat n) = Some (int n)"
proof -
  obtain ds where ds: "ds \<noteq> []" "\<forall>d\<in>set ds. d < 10" "str_of_nat n = map digit_char ds"
    using str_of_nat_digits by blast
  then obtain d es where "ds = d # es" "d < 10" by (cases ds) auto
  with ds have s: "str_of_nat n = digit_char d # map digit_char es" by simp
  have "int_of_str (str_of_nat n) = map_option int (nat_literal (str_of_nat n))"
    using \<open>d < 10\<close> strip_str_of_nat [of n] by (simp add: int_of_str_def s digit_char_plain)
  then show ?thesis by (simp add: nat_literal_str_of_nat)
qed

lemma str_of_nat_not_Nil [simp]: "str_of_nat n \<noteq> []"
  by (metis Nil_is_map_conv str_of_nat_digits)

lemma str_of_nat_inject [simp]: "str_of_nat m = str_of_nat n \<longleftrightarrow> m = n"
  by (metis nat_literal_str_of_nat option.inject)

section \<open>Values and dictionaries\<close>

text \<open>The values of a JSON or YAML document as Python holds them. A float is kept as its
  printed form: the code never computes with one. A dictionary is its items in insertion
  order, the keys distinct.\<close>

datatype pyval =
    PNone
  | PBool bool
  | PInt int
  | PFloat pystr
  | PStr pystr
  | PList "pyval list"
  | PDict "(pystr \<times> pyval) list"

type_synonym 'v pydict = "(pystr \<times> 'v) list"

abbreviation dict_get :: "('k \<times> 'v) list \<Rightarrow> 'k \<Rightarrow> 'v option" where
  "dict_get d k \<equiv> map_of d k"

definition dict_has :: "('k \<times> 'v) list \<Rightarrow> 'k \<Rightarrow> bool" where
  "dict_has d k = (map_of d k \<noteq> None)"

text \<open>\<open>d.get(k)\<close> on a dictionary of values.\<close>

definition get_or_none :: "pyval pydict \<Rightarrow> pystr \<Rightarrow> pyval" where
  "get_or_none d k = (case map_of d k of None \<Rightarrow> PNone | Some v \<Rightarrow> v)"

text \<open>\<open>d[k] = v\<close> keeps the position of an existing key and appends a new one.\<close>

fun dict_set :: "'k \<Rightarrow> 'v \<Rightarrow> ('k \<times> 'v) list \<Rightarrow> ('k \<times> 'v) list" where
  "dict_set k v [] = [(k, v)]"
| "dict_set k v ((k', v') # d) = (if k' = k then (k, v) # d else (k', v') # dict_set k v d)"

text \<open>\<open>d.pop(k, None)\<close>, the dictionary part.\<close>

definition dict_pop :: "'k \<Rightarrow> ('k \<times> 'v) list \<Rightarrow> ('k \<times> 'v) list" where
  "dict_pop k d = filter (\<lambda>(k', _). k' \<noteq> k) d"

definition dict_keys :: "('k \<times> 'v) list \<Rightarrow> 'k list" where
  "dict_keys d = map fst d"

definition dict_wf :: "('k \<times> 'v) list \<Rightarrow> bool" where
  "dict_wf d = distinct (dict_keys d)"

lemma dict_get_set [py_dict, simp]: "dict_get (dict_set k v d) = (dict_get d)(k \<mapsto> v)"
  by (induction k v d rule: dict_set.induct) auto

lemma dict_get_pop [py_dict, simp]: "dict_get (dict_pop k d) = (dict_get d)(k := None)"
  by (induction d) (auto simp: dict_pop_def)

lemma keys_dict_set [py_dict, simp]:
  "set (dict_keys (dict_set k v d)) = insert k (set (dict_keys d))"
  by (induction k v d rule: dict_set.induct) (auto simp: dict_keys_def)

lemma dict_wf_set [py_dict, intro]: "dict_wf d \<Longrightarrow> dict_wf (dict_set k v d)"
proof (induction k v d rule: dict_set.induct)
  case (1 k v)
  then show ?case by (simp add: dict_wf_def dict_keys_def)
next
  case (2 k v k' v' d)
  then show ?case
    using keys_dict_set [of k v d] by (auto simp: dict_wf_def dict_keys_def)
qed

lemma keys_dict_pop [py_dict, simp]: "dict_keys (dict_pop k d) = filter (\<lambda>k'. k' \<noteq> k) (dict_keys d)"
  by (induction d) (auto simp: dict_pop_def dict_keys_def)

lemma dict_wf_pop [py_dict, intro]: "dict_wf d \<Longrightarrow> dict_wf (dict_pop k d)"
  by (simp add: dict_wf_def)

lemma dict_has_keys [py_dict]: "dict_has d k \<longleftrightarrow> k \<in> set (dict_keys d)"
  by (force simp: dict_has_def dict_keys_def dom_map_of_conv_image_fst [symmetric] domIff)

lemma length_dict_set:
  "length (dict_set k v d) = (if dict_has d k then length d else Suc (length d))"
  by (induction k v d rule: dict_set.induct) (auto simp: dict_has_def)

lemma dict_pop_hd: "dict_wf ((k, v) # d) \<Longrightarrow> dict_pop k ((k, v) # d) = d"
  by (force simp: dict_pop_def dict_wf_def dict_keys_def filter_id_conv)

lemma dict_set_fresh: "\<not> dict_has d k \<Longrightarrow> dict_set k v d = d @ [(k, v)]"
  by (induction d) (auto simp: dict_has_def split: if_splits)

lemma length_dict_pop_less: "dict_get d k = Some v \<Longrightarrow> length (dict_pop k d) < length d"
  using length_filter_less [of "(k, v)" d "\<lambda>(k', _). k' \<noteq> k"] by (auto simp: dict_pop_def dest: map_of_SomeD)

lemma dict_get_tl:
  assumes "dict_wf d" "dict_get (tl d) k = Some v"
  shows "dict_get d k = Some v"
proof (cases d)
  case (Cons e es)
  have "k \<in> fst ` set es" using assms(2) Cons by (force dest: map_of_SomeD)
  with assms Cons show ?thesis by (cases e) (auto simp: dict_wf_def dict_keys_def)
qed (use assms in simp)

lemma dict_wf_tl: "dict_wf d \<Longrightarrow> dict_wf (tl d)"
  by (cases d) (auto simp: dict_wf_def dict_keys_def)

lemma length_dict_pop: "length (dict_pop k d) \<le> length d"
  by (simp add: dict_pop_def)

lemma set_dict_set: "set (dict_set k v d) \<subseteq> insert (k, v) (set d)"
  by (induction k v d rule: dict_set.induct) auto

lemma set_dict_pop: "set (dict_pop k d) \<subseteq> set d"
  by (auto simp: dict_pop_def)

text \<open>Membership in a list of options: \<open>x in xs\<close>.\<close>

definition str_in :: "pystr \<Rightarrow> pystr list \<Rightarrow> bool" where
  "str_in s xs = List.member xs s"

lemma str_in_set [simp]: "str_in s xs \<longleftrightarrow> s \<in> set xs"
  by (simp add: str_in_def)

text \<open>Sums over the entries of a dictionary.\<close>

lemma sum_dict_set:
  fixes f :: "'k \<times> 'v \<Rightarrow> int"
  assumes "dict_get d k = Some v"
  shows "sum_list (map f (dict_set k v' d)) = sum_list (map f d) - f (k, v) + f (k, v')"
  using assms by (induction k v' d rule: dict_set.induct) (auto split: if_splits)

lemma sum_dict_pop:
  fixes f :: "'k \<times> 'v \<Rightarrow> int"
  assumes "dict_get d k = Some v" "dict_wf d"
  shows "sum_list (map f (dict_pop k d)) = sum_list (map f d) - f (k, v)"
  using assms
proof (induction d)
  case (Cons e d)
  obtain k' v' where e: "e = (k', v')" by (cases e)
  have wf: "dict_wf d" using Cons.prems(2) by (simp add: dict_wf_def dict_keys_def)
  show ?case
  proof (cases "k' = k")
    case True
    then have "dict_pop k (e # d) = d" using Cons.prems(2) dict_pop_hd [of k v' d] by (simp add: e)
    with True Cons.prems(1) show ?thesis by (simp add: e)
  next
    case False
    then show ?thesis using Cons.IH Cons.prems(1) wf by (simp add: e dict_pop_def)
  qed
qed simp

text \<open>The characters of a slug: \<open>[a-z0-9]\<close> at its ends and \<open>[a-z0-9-]\<close> inside.\<close>

definition slug_start :: "char \<Rightarrow> bool" where
  "slug_start c = (let n = (of_char c :: nat) in 97 \<le> n \<and> n \<le> 122 \<or> 48 \<le> n \<and> n \<le> 57)"

definition slug_char :: "char \<Rightarrow> bool" where
  "slug_char c = (slug_start c \<or> c = CHR ''-'')"

text \<open>A variable of the environment, empty when unset.\<close>

definition env_get :: "(pystr \<rightharpoonup> pystr) \<Rightarrow> pystr \<Rightarrow> pystr" where
  "env_get env name = (case env name of Some v \<Rightarrow> v | None \<Rightarrow> [])"

text \<open>\<open>hmac.compare_digest\<close> on strings raises \<open>TypeError\<close> unless both are ASCII.\<close>

definition is_ascii :: "pystr \<Rightarrow> bool" where
  "is_ascii s = list_all (\<lambda>c. (of_char c :: nat) < 128) s"

definition compare_digest :: "pystr \<Rightarrow> pystr \<Rightarrow> bool option" where
  "compare_digest a b = (if is_ascii a \<and> is_ascii b then Some (a = b) else None)"

end
