(* ===== verification/Event_Schema.thy ===== *)
theory Event_Schema
  imports Prelude
begin

text \<open>
  Model of \<open>shared/event_schema.py\<close>: the runtime validator of event envelopes and of the
  seventeen payload types. Each validator is its sequence of checks in the code's order; a
  membership test on an unhashable value raises, as \<open>v in {...}\<close> does in Python. The second
  half is the published wire contract \<open>docs/events/events.schema.json\<close> as data, and the facts
  that relate the two: every envelope the validator accepts conforms to the contract up to the format of its time stamp, fields
  the validator does not know never change its answer, and it raises only on a list or a
  dictionary in an enumerated field.
\<close>

section \<open>Verdicts and field predicates\<close>

datatype py_exc = KeyError pystr | TypeError

datatype expectation =
    NonEmptyStr | AString | NonNegInt | HttpStatus | Hash12 | ABoolean | OneOf "pystr list"

datatype schema_error =
    MissingField pystr
  | UnknownType pyval
  | BadVersion
  | BadId
  | BadTs
  | BadAgentId
  | BadPayload
  | MissingPayloadField pystr pystr
  | FieldError pystr pystr expectation

datatype verdict = VOk | VErr schema_error | VRaise py_exc

type_synonym payload = "pyval pydict"
type_synonym field_test = "pyval \<Rightarrow> py_exc + bool"

definition is_nonempty_str :: "pyval \<Rightarrow> bool" where
  "is_nonempty_str v = (case v of PStr s \<Rightarrow> length s > 0 | _ \<Rightarrow> False)"

definition is_str :: "pyval \<Rightarrow> bool" where
  "is_str v = (case v of PStr _ \<Rightarrow> True | _ \<Rightarrow> False)"

definition is_bool :: "pyval \<Rightarrow> bool" where
  "is_bool v = (case v of PBool _ \<Rightarrow> True | _ \<Rightarrow> False)"

definition is_nonneg_int :: "pyval \<Rightarrow> bool" where
  "is_nonneg_int v = (case v of PInt i \<Rightarrow> i \<ge> 0 | _ \<Rightarrow> False)"

definition is_http_status :: "pyval \<Rightarrow> bool" where
  "is_http_status v = (case v of PInt i \<Rightarrow> 100 \<le> i \<and> i \<le> 599 | _ \<Rightarrow> False)"

definition is_session_hash :: "pyval \<Rightarrow> bool" where
  "is_session_hash v = (case v of PStr s \<Rightarrow> length s = 12 | _ \<Rightarrow> False)"

text \<open>\<open>hash(v)\<close> succeeds: lists and dictionaries are unhashable.\<close>

definition hashable :: "pyval \<Rightarrow> bool" where
  "hashable v = (case v of PList _ \<Rightarrow> False | PDict _ \<Rightarrow> False | _ \<Rightarrow> True)"

definition in_str_set :: "pystr list \<Rightarrow> field_test" where
  "in_str_set xs v =
     (if hashable v then Inr (case v of PStr s \<Rightarrow> str_in s xs | _ \<Rightarrow> False)
      else Inl TypeError)"

text \<open>The test a check of the source makes, and the words its error message uses for it.\<close>

fun meets :: "expectation \<Rightarrow> field_test" where
  "meets NonEmptyStr v = Inr (is_nonempty_str v)"
| "meets AString v = Inr (is_str v)"
| "meets NonNegInt v = Inr (is_nonneg_int v)"
| "meets HttpStatus v = Inr (is_http_status v)"
| "meets Hash12 v = Inr (is_session_hash v)"
| "meets ABoolean v = Inr (is_bool v)"
| "meets (OneOf xs) v = in_str_set xs v"

text \<open>\<open>Need\<close> is \<open>if not test(p[k]): return _err(...)\<close>; \<open>May\<close> is the same under
  \<open>if k in p\<close>.\<close>

datatype field_check = Need pystr expectation | May pystr expectation

fun check_field :: "field_check \<Rightarrow> pystr \<times> expectation" where
  "check_field (Need k e) = (k, e)"
| "check_field (May k e) = (k, e)"

fun run_checks :: "pystr \<Rightarrow> field_check list \<Rightarrow> payload \<Rightarrow> verdict" where
  "run_checks ty [] p = VOk"
| "run_checks ty (Need k e # cs) p =
     (case dict_get p k of
        None \<Rightarrow> VRaise (KeyError k)
      | Some v \<Rightarrow>
          (case meets e v of
             Inl x \<Rightarrow> VRaise x
           | Inr b \<Rightarrow> if b then run_checks ty cs p else VErr (FieldError ty k e)))"
| "run_checks ty (May k e # cs) p =
     (case dict_get p k of
        None \<Rightarrow> run_checks ty cs p
      | Some v \<Rightarrow>
          (case meets e v of
             Inl x \<Rightarrow> VRaise x
           | Inr b \<Rightarrow> if b then run_checks ty cs p else VErr (FieldError ty k e)))"

text \<open>\<open>_require_keys\<close>: the first missing required key, in the order of the tuple; unknown
  keys are tolerated (they are only logged), so the optional tuple does not appear.\<close>

fun require_keys :: "payload \<Rightarrow> pystr list \<Rightarrow> pystr \<Rightarrow> schema_error option" where
  "require_keys p [] ty = None"
| "require_keys p (k # ks) ty =
     (if dict_has p k then require_keys p ks ty else Some (MissingPayloadField ty k))"

definition validate_with :: "pystr \<Rightarrow> pystr list \<Rightarrow> field_check list \<Rightarrow> payload \<Rightarrow> verdict" where
  "validate_with ty req cs p =
     (case require_keys p req ty of
        Some e \<Rightarrow> VErr e
      | None \<Rightarrow> run_checks ty cs p)"

section \<open>The payload validators\<close>

definition OUTCOMES :: "pystr list" where
  "OUTCOMES = [''success'', ''error'', ''timeout'', ''skipped'']"

definition CONTINUATION_KINDS :: "pystr list" where
  "CONTINUATION_KINDS = [''job'', ''task'', ''trigger'', ''a2a'', ''continuation'']"

definition WEBHOOK_FAILURE_REASONS :: "pystr list" where
  "WEBHOOK_FAILURE_REASONS = [''timeout'', ''dns_denied'', ''http_error'', ''exception'']"

definition HOOK_BACKENDS :: "pystr list" where
  "HOOK_BACKENDS = [''claude'', ''openai'', ''codex'', ''gemini'']"

definition HOOK_DECISIONS :: "pystr list" where
  "HOOK_DECISIONS = [''allow'', ''deny'', ''warn'']"

definition A2A_CONCERNS :: "pystr list" where
  "A2A_CONCERNS = [''a2a'', ''heartbeat'', ''job'', ''task'', ''trigger'', ''continuation'']"

definition LIFECYCLE_EVENTS :: "pystr list" where
  "LIFECYCLE_EVENTS = [''started'', ''stopped'', ''config_reloaded'', ''credential_rotated'']"

definition CONVERSATION_ROLES :: "pystr list" where
  "CONVERSATION_ROLES = [''user'', ''assistant'']"

definition TOOL_OUTCOMES :: "pystr list" where
  "TOOL_OUTCOMES = [''ok'', ''error'', ''denied'']"

definition SPAN_STATUSES :: "pystr list" where
  "SPAN_STATUSES = [''ok'', ''error'']"

definition validate_job_fired :: "payload \<Rightarrow> verdict" where
  "validate_job_fired = validate_with ''job.fired''
     [''name'', ''schedule'', ''duration_ms'', ''outcome'']
     [Need ''name'' NonEmptyStr, Need ''schedule'' AString, Need ''duration_ms'' NonNegInt,
      Need ''outcome'' (OneOf OUTCOMES), May ''error'' AString]"

definition validate_task_fired :: "payload \<Rightarrow> verdict" where
  "validate_task_fired = validate_with ''task.fired''
     [''name'', ''duration_ms'', ''outcome'']
     [Need ''name'' NonEmptyStr, May ''window'' AString, Need ''duration_ms'' NonNegInt,
      Need ''outcome'' (OneOf OUTCOMES), May ''error'' AString]"

definition validate_heartbeat_fired :: "payload \<Rightarrow> verdict" where
  "validate_heartbeat_fired = validate_with ''heartbeat.fired''
     [''duration_ms'', ''outcome'']
     [May ''schedule'' AString, Need ''duration_ms'' NonNegInt,
      Need ''outcome'' (OneOf OUTCOMES), May ''error'' AString]"

definition validate_continuation_fired :: "payload \<Rightarrow> verdict" where
  "validate_continuation_fired = validate_with ''continuation.fired''
     [''name'', ''upstream_kind'', ''upstream_name'', ''duration_ms'', ''outcome'']
     [Need ''name'' NonEmptyStr, Need ''upstream_kind'' (OneOf CONTINUATION_KINDS),
      Need ''upstream_name'' AString, Need ''duration_ms'' NonNegInt,
      Need ''outcome'' (OneOf OUTCOMES), May ''error'' AString]"

definition validate_trigger_fired :: "payload \<Rightarrow> verdict" where
  "validate_trigger_fired = validate_with ''trigger.fired''
     [''name'', ''endpoint'', ''duration_ms'', ''outcome'']
     [Need ''name'' NonEmptyStr, Need ''endpoint'' AString, Need ''duration_ms'' NonNegInt,
      Need ''outcome'' (OneOf OUTCOMES), May ''error'' AString]"

definition validate_webhook_delivered :: "payload \<Rightarrow> verdict" where
  "validate_webhook_delivered = validate_with ''webhook.delivered''
     [''name'', ''url_host'', ''status_code'', ''duration_ms'']
     [Need ''name'' NonEmptyStr, Need ''url_host'' AString, Need ''status_code'' HttpStatus,
      Need ''duration_ms'' NonNegInt]"

definition validate_webhook_failed :: "payload \<Rightarrow> verdict" where
  "validate_webhook_failed = validate_with ''webhook.failed''
     [''name'', ''url_host'', ''reason'', ''duration_ms'']
     [Need ''name'' NonEmptyStr, Need ''url_host'' AString,
      Need ''reason'' (OneOf WEBHOOK_FAILURE_REASONS), May ''status_code'' HttpStatus,
      Need ''duration_ms'' NonNegInt, May ''error'' AString]"

definition validate_hook_decision :: "payload \<Rightarrow> verdict" where
  "validate_hook_decision = validate_with ''hook.decision''
     [''backend'', ''session_id_hash'', ''tool'', ''decision'']
     [Need ''backend'' (OneOf HOOK_BACKENDS), Need ''session_id_hash'' NonEmptyStr,
      Need ''tool'' AString, Need ''decision'' (OneOf HOOK_DECISIONS),
      May ''rule_id'' AString, May ''reason'' AString]"

definition validate_a2a_received :: "payload \<Rightarrow> verdict" where
  "validate_a2a_received = validate_with ''a2a.request.received''
     [''concern''] [Need ''concern'' (OneOf A2A_CONCERNS), May ''model'' AString]"

definition validate_a2a_completed :: "payload \<Rightarrow> verdict" where
  "validate_a2a_completed = validate_with ''a2a.request.completed''
     [''concern'', ''outcome'', ''duration_ms'']
     [Need ''concern'' (OneOf A2A_CONCERNS), Need ''outcome'' (OneOf OUTCOMES),
      Need ''duration_ms'' NonNegInt, May ''error'' AString]"

definition validate_agent_lifecycle :: "payload \<Rightarrow> verdict" where
  "validate_agent_lifecycle = validate_with ''agent.lifecycle''
     [''backend'', ''event'']
     [Need ''backend'' (OneOf HOOK_BACKENDS), Need ''event'' (OneOf LIFECYCLE_EVENTS),
      May ''detail'' AString]"

definition validate_conversation_turn :: "payload \<Rightarrow> verdict" where
  "validate_conversation_turn = validate_with ''conversation.turn''
     [''session_id_hash'', ''role'', ''content_bytes'']
     [Need ''session_id_hash'' Hash12, Need ''role'' (OneOf CONVERSATION_ROLES),
      Need ''content_bytes'' NonNegInt, May ''model'' AString]"

definition validate_conversation_chunk :: "payload \<Rightarrow> verdict" where
  "validate_conversation_chunk = validate_with ''conversation.chunk''
     [''session_id_hash'', ''role'', ''seq'', ''content'', ''final'']
     [Need ''session_id_hash'' Hash12, Need ''role'' (OneOf CONVERSATION_ROLES),
      Need ''seq'' NonNegInt, Need ''content'' AString, Need ''final'' ABoolean]"

definition validate_tool_use :: "payload \<Rightarrow> verdict" where
  "validate_tool_use = validate_with ''tool.use''
     [''session_id_hash'', ''tool'', ''duration_ms'', ''outcome'']
     [Need ''session_id_hash'' Hash12, Need ''tool'' AString, Need ''duration_ms'' NonNegInt,
      Need ''outcome'' (OneOf TOOL_OUTCOMES), May ''result_size_bytes'' NonNegInt,
      May ''error'' AString]"

definition validate_trace_span :: "payload \<Rightarrow> verdict" where
  "validate_trace_span = validate_with ''trace.span''
     [''span_name'', ''duration_ms'', ''status'', ''service'']
     [Need ''span_name'' NonEmptyStr, Need ''duration_ms'' NonNegInt,
      Need ''status'' (OneOf SPAN_STATUSES), Need ''service'' AString,
      May ''session_id_hash'' Hash12]"

definition validate_stream_gap :: "payload \<Rightarrow> verdict" where
  "validate_stream_gap = validate_with ''stream.gap''
     [''last_seen_id'', ''resume_id'']
     [Need ''last_seen_id'' NonEmptyStr, Need ''resume_id'' NonEmptyStr, May ''reason'' AString]"

definition validate_stream_overrun :: "payload \<Rightarrow> verdict" where
  "validate_stream_overrun = validate_with ''stream.overrun''
     [''queue_depth'', ''queue_max'']
     [Need ''queue_depth'' NonNegInt, Need ''queue_max'' NonNegInt, May ''reason'' AString]"

definition VALIDATORS :: "(pystr \<times> (payload \<Rightarrow> verdict)) list" where
  "VALIDATORS =
     [(''job.fired'', validate_job_fired),
      (''task.fired'', validate_task_fired),
      (''heartbeat.fired'', validate_heartbeat_fired),
      (''continuation.fired'', validate_continuation_fired),
      (''trigger.fired'', validate_trigger_fired),
      (''webhook.delivered'', validate_webhook_delivered),
      (''webhook.failed'', validate_webhook_failed),
      (''hook.decision'', validate_hook_decision),
      (''a2a.request.received'', validate_a2a_received),
      (''a2a.request.completed'', validate_a2a_completed),
      (''agent.lifecycle'', validate_agent_lifecycle),
      (''conversation.turn'', validate_conversation_turn),
      (''conversation.chunk'', validate_conversation_chunk),
      (''tool.use'', validate_tool_use),
      (''trace.span'', validate_trace_span),
      (''stream.gap'', validate_stream_gap),
      (''stream.overrun'', validate_stream_overrun)]"

definition KNOWN_TYPES :: "pystr list" where
  "KNOWN_TYPES = map fst VALIDATORS"

fun missing_key :: "payload \<Rightarrow> pystr list \<Rightarrow> pystr option" where
  "missing_key d [] = None"
| "missing_key d (k # ks) = (if dict_has d k then missing_key d ks else Some k)"

definition ENVELOPE_KEYS :: "pystr list" where
  "ENVELOPE_KEYS = [''type'', ''version'', ''id'', ''ts'', ''agent_id'', ''payload'']"

definition positive_int :: "pyval \<Rightarrow> bool" where
  "positive_int v = (case v of PInt i \<Rightarrow> i \<ge> 1 | _ \<Rightarrow> False)"

definition str_or_none :: "pyval \<Rightarrow> bool" where
  "str_or_none v = (case v of PNone \<Rightarrow> True | PStr _ \<Rightarrow> True | _ \<Rightarrow> False)"

text \<open>\<open>validate_envelope\<close> on a dictionary (every caller passes one).\<close>

definition validate_envelope :: "payload \<Rightarrow> verdict" where
  "validate_envelope env =
     (case missing_key env ENVELOPE_KEYS of
        Some k \<Rightarrow> VErr (MissingField k)
      | None \<Rightarrow>
          (let ty = the (dict_get env ''type'') in
           case (case ty of PStr t \<Rightarrow> dict_get VALIDATORS t | _ \<Rightarrow> None) of
             None \<Rightarrow> VErr (UnknownType ty)
           | Some validator \<Rightarrow>
               if \<not> positive_int (the (dict_get env ''version'')) then VErr BadVersion
               else if \<not> is_nonempty_str (the (dict_get env ''id'')) then VErr BadId
               else if \<not> is_nonempty_str (the (dict_get env ''ts'')) then VErr BadTs
               else if \<not> str_or_none (the (dict_get env ''agent_id'')) then VErr BadAgentId
               else (case the (dict_get env ''payload'') of
                       PDict p \<Rightarrow> validator p
                     | _ \<Rightarrow> VErr BadPayload)))"

section \<open>The wire contract\<close>

text \<open>The part of JSON Schema that \<open>docs/events/events.schema.json\<close> uses.\<close>

datatype json_type =
    JString nat "nat option"
  | JEnum "pystr list"
  | JInteger int "int option"
  | JBoolean

fun json_conforms :: "json_type \<Rightarrow> pyval \<Rightarrow> bool" where
  "json_conforms (JString lo hi) (PStr s) =
     (lo \<le> length s \<and> (case hi of None \<Rightarrow> True | Some h \<Rightarrow> length s \<le> h))"
| "json_conforms (JEnum xs) (PStr s) = (s \<in> set xs)"
| "json_conforms (JInteger lo hi) (PInt i) =
     (lo \<le> i \<and> (case hi of None \<Rightarrow> True | Some h \<Rightarrow> i \<le> h))"
| "json_conforms JBoolean (PBool b) = True"
| "json_conforms _ _ = False"

record object_schema =
  sch_required :: "pystr list"
  sch_properties :: "(pystr \<times> json_type) list"

definition object_conforms :: "object_schema \<Rightarrow> payload \<Rightarrow> bool" where
  "object_conforms sch p =
     ((\<forall>k \<in> set (sch_required sch). dict_has p k) \<and>
      (\<forall>(k, t) \<in> set (sch_properties sch).
         case dict_get p k of None \<Rightarrow> True | Some v \<Rightarrow> json_conforms t v))"

abbreviation j_str :: json_type where "j_str \<equiv> JString 0 None"
abbreviation j_hash :: json_type where "j_hash \<equiv> JString 12 (Some 12)"
abbreviation j_nat :: json_type where "j_nat \<equiv> JInteger 0 None"
abbreviation j_status :: json_type where "j_status \<equiv> JInteger 100 (Some 599)"
abbreviation j_outcome :: json_type where
  "j_outcome \<equiv> JEnum [''success'', ''error'', ''timeout'', ''skipped'']"
abbreviation j_backend :: json_type where
  "j_backend \<equiv> JEnum [''claude'', ''openai'', ''codex'', ''gemini'', ''echo'']"
abbreviation j_concern :: json_type where
  "j_concern \<equiv> JEnum [''a2a'', ''heartbeat'', ''job'', ''task'', ''trigger'', ''continuation'']"
abbreviation j_role :: json_type where "j_role \<equiv> JEnum [''user'', ''assistant'']"

definition events_schema :: "(pystr \<times> object_schema) list" where
  "events_schema =
    [(''job.fired'',
      \<lparr>sch_required = [''name'', ''schedule'', ''duration_ms'', ''outcome''],
       sch_properties = [(''name'', j_str), (''schedule'', j_str), (''duration_ms'', j_nat),
         (''outcome'', j_outcome), (''error'', j_str)]\<rparr>),
     (''task.fired'',
      \<lparr>sch_required = [''name'', ''duration_ms'', ''outcome''],
       sch_properties = [(''name'', j_str), (''window'', j_str), (''duration_ms'', j_nat),
         (''outcome'', j_outcome), (''error'', j_str)]\<rparr>),
     (''heartbeat.fired'',
      \<lparr>sch_required = [''duration_ms'', ''outcome''],
       sch_properties = [(''schedule'', j_str), (''duration_ms'', j_nat),
         (''outcome'', j_outcome), (''error'', j_str)]\<rparr>),
     (''continuation.fired'',
      \<lparr>sch_required = [''name'', ''upstream_kind'', ''upstream_name'', ''duration_ms'', ''outcome''],
       sch_properties = [(''name'', j_str),
         (''upstream_kind'', JEnum [''job'', ''task'', ''trigger'', ''a2a'', ''continuation'']),
         (''upstream_name'', j_str), (''duration_ms'', j_nat), (''outcome'', j_outcome),
         (''error'', j_str)]\<rparr>),
     (''trigger.fired'',
      \<lparr>sch_required = [''name'', ''endpoint'', ''duration_ms'', ''outcome''],
       sch_properties = [(''name'', j_str), (''endpoint'', j_str), (''duration_ms'', j_nat),
         (''outcome'', j_outcome), (''error'', j_str)]\<rparr>),
     (''webhook.delivered'',
      \<lparr>sch_required = [''name'', ''url_host'', ''status_code'', ''duration_ms''],
       sch_properties = [(''name'', j_str), (''url_host'', j_str), (''status_code'', j_status),
         (''duration_ms'', j_nat)]\<rparr>),
     (''webhook.failed'',
      \<lparr>sch_required = [''name'', ''url_host'', ''reason'', ''duration_ms''],
       sch_properties = [(''name'', j_str), (''url_host'', j_str),
         (''reason'', JEnum [''timeout'', ''dns_denied'', ''http_error'', ''exception'']),
         (''status_code'', j_status), (''duration_ms'', j_nat), (''error'', j_str)]\<rparr>),
     (''hook.decision'',
      \<lparr>sch_required = [''backend'', ''session_id_hash'', ''tool'', ''decision''],
       sch_properties = [(''backend'', j_backend), (''session_id_hash'', JString 1 None),
         (''tool'', j_str), (''decision'', JEnum [''allow'', ''deny'', ''warn'']),
         (''rule_id'', j_str), (''reason'', j_str)]\<rparr>),
     (''a2a.request.received'',
      \<lparr>sch_required = [''concern''],
       sch_properties = [(''concern'', j_concern), (''model'', j_str)]\<rparr>),
     (''a2a.request.completed'',
      \<lparr>sch_required = [''concern'', ''outcome'', ''duration_ms''],
       sch_properties = [(''concern'', j_concern), (''outcome'', j_outcome),
         (''duration_ms'', j_nat), (''error'', j_str)]\<rparr>),
     (''agent.lifecycle'',
      \<lparr>sch_required = [''backend'', ''event''],
       sch_properties = [(''backend'', j_backend),
         (''event'', JEnum [''started'', ''stopped'', ''config_reloaded'', ''credential_rotated'']),
         (''detail'', j_str)]\<rparr>),
     (''conversation.turn'',
      \<lparr>sch_required = [''session_id_hash'', ''role'', ''content_bytes''],
       sch_properties = [(''session_id_hash'', j_hash), (''role'', j_role),
         (''content_bytes'', j_nat), (''model'', j_str)]\<rparr>),
     (''conversation.chunk'',
      \<lparr>sch_required = [''session_id_hash'', ''role'', ''seq'', ''content'', ''final''],
       sch_properties = [(''session_id_hash'', j_hash), (''role'', j_role), (''seq'', j_nat),
         (''content'', j_str), (''final'', JBoolean)]\<rparr>),
     (''tool.use'',
      \<lparr>sch_required = [''session_id_hash'', ''tool'', ''duration_ms'', ''outcome''],
       sch_properties = [(''session_id_hash'', j_hash), (''tool'', j_str), (''duration_ms'', j_nat),
         (''outcome'', JEnum [''ok'', ''error'', ''denied'']), (''result_size_bytes'', j_nat),
         (''error'', j_str)]\<rparr>),
     (''trace.span'',
      \<lparr>sch_required = [''span_name'', ''duration_ms'', ''status'', ''service''],
       sch_properties = [(''session_id_hash'', j_hash), (''span_name'', j_str),
         (''duration_ms'', j_nat), (''status'', JEnum [''ok'', ''error'']), (''service'', j_str)]\<rparr>),
     (''stream.gap'',
      \<lparr>sch_required = [''last_seen_id'', ''resume_id''],
       sch_properties = [(''last_seen_id'', j_str), (''resume_id'', j_str), (''reason'', j_str)]\<rparr>),
     (''stream.overrun'',
      \<lparr>sch_required = [''queue_depth'', ''queue_max''],
       sch_properties = [(''queue_depth'', j_nat), (''queue_max'', j_nat), (''reason'', j_str)]\<rparr>)]"

text \<open>The format \<open>date-time\<close>: RFC 3339, with a fraction of the second or without.\<close>

definition digits_at :: "nat \<Rightarrow> nat \<Rightarrow> pystr \<Rightarrow> nat option" where
  "digits_at i n s =
     (let ds = take n (drop i s)
      in if length ds = n \<and> list_all (\<lambda>c. digit_val c \<noteq> None) ds then Some (foldl (\<lambda>v c. 10 * v + the (digit_val c)) 0 ds) else None)"

definition month_length :: "nat \<Rightarrow> nat \<Rightarrow> nat" where
  "month_length y m =
     (if m = 2 then (if y mod 4 = 0 \<and> (y mod 100 \<noteq> 0 \<or> y mod 400 = 0) then 29 else 28)
      else if m = 4 \<or> m = 6 \<or> m = 9 \<or> m = 11 then 30 else 31)"

definition zone_offset :: "pystr \<Rightarrow> bool" where
  "zone_offset s =
     (s = ''Z'' \<or> s = ''z'' \<or>
      (case (digits_at 1 2 s, digits_at 4 2 s) of
         (Some h, Some m) \<Rightarrow> length s = 6 \<and> (hd s = CHR ''+'' \<or> hd s = CHR ''-'') \<and> s ! 3 = CHR '':'' \<and> h \<le> 23 \<and> m \<le> 59
       | _ \<Rightarrow> False))"

definition date_time :: "pystr \<Rightarrow> bool" where
  "date_time s =
     (case (digits_at 0 4 s, digits_at 5 2 s, digits_at 8 2 s, digits_at 11 2 s, digits_at 14 2 s, digits_at 17 2 s) of
        (Some y, Some mo, Some d, Some h, Some mi, Some sec) \<Rightarrow>
          s ! 4 = CHR ''-'' \<and> s ! 7 = CHR ''-'' \<and> (s ! 10 = CHR ''T'' \<or> s ! 10 = CHR ''t'') \<and> s ! 13 = CHR '':'' \<and> s ! 16 = CHR '':'' \<and>
          1 \<le> mo \<and> mo \<le> 12 \<and> 1 \<le> d \<and> d \<le> month_length y mo \<and> h \<le> 23 \<and> mi \<le> 59 \<and> sec \<le> 60 \<and>
          (case drop 19 s of
             c # r \<Rightarrow>
               if c = CHR ''.''
               then takeWhile (\<lambda>x. digit_val x \<noteq> None) r \<noteq> [] \<and> zone_offset (dropWhile (\<lambda>x. digit_val x \<noteq> None) r)
               else zone_offset (c # r)
           | [] \<Rightarrow> False)
      | _ \<Rightarrow> False)"

text \<open>The envelope part of the schema document.\<close>

definition envelope_conforms :: "payload \<Rightarrow> bool" where
  "envelope_conforms env =
     (\<exists>t ver i ts p sch.
        dict_get env ''type'' = Some (PStr t) \<and> dict_get events_schema t = Some sch \<and>
        dict_get env ''version'' = Some (PInt ver) \<and> ver \<ge> 1 \<and>
        dict_get env ''id'' = Some (PStr i) \<and> i \<noteq> [] \<and>
        dict_get env ''ts'' = Some (PStr ts) \<and> date_time ts \<and>
        (dict_get env ''agent_id'' = Some PNone \<or>
         (\<exists>a. dict_get env ''agent_id'' = Some (PStr a))) \<and>
        dict_get env ''payload'' = Some (PDict p) \<and> object_conforms sch p)"

section \<open>What one validator guarantees\<close>

text \<open>An expectation of the validator is at least as strict as a type of the contract.\<close>

fun refines_type :: "expectation \<Rightarrow> json_type \<Rightarrow> bool" where
  "refines_type NonEmptyStr (JString lo None) = (lo \<le> 1)"
| "refines_type AString (JString lo None) = (lo = 0)"
| "refines_type NonNegInt (JInteger lo None) = (lo \<le> 0)"
| "refines_type HttpStatus (JInteger lo (Some hi)) = (lo \<le> 100 \<and> 599 \<le> hi)"
| "refines_type Hash12 (JString lo (Some hi)) = (lo \<le> 12 \<and> 12 \<le> hi)"
| "refines_type ABoolean JBoolean = True"
| "refines_type (OneOf xs) (JEnum ys) = list_all (\<lambda>x. x \<in> set ys) xs"
| "refines_type _ _ = False"

definition check_for :: "field_check list \<Rightarrow> pystr \<Rightarrow> json_type \<Rightarrow> bool" where
  "check_for cs k t = list_ex (\<lambda>c. case check_field c of (k', e) \<Rightarrow> k' = k \<and> refines_type e t) cs"

definition checks_refine :: "pystr list \<Rightarrow> field_check list \<Rightarrow> object_schema \<Rightarrow> bool" where
  "checks_refine req cs sch =
     (list_all (\<lambda>k. k \<in> set req) (sch_required sch) \<and>
      list_all (\<lambda>(k, t). check_for cs k t) (sch_properties sch) \<and>
      list_all (\<lambda>k. k \<in> fst ` set (sch_properties sch)) req \<and>
      list_all (\<lambda>c. fst (check_field c) \<in> fst ` set (sch_properties sch)) cs \<and>
      list_all (\<lambda>c. case c of Need k e \<Rightarrow> k \<in> set req | May k e \<Rightarrow> True) cs)"

lemma check_for_iff:
  "check_for cs k t \<longleftrightarrow> (\<exists>c \<in> set cs. \<exists>e. check_field c = (k, e) \<and> refines_type e t)"
proof -
  have "(case check_field c of (k', e) \<Rightarrow> k' = k \<and> refines_type e t) \<longleftrightarrow>
    (\<exists>e. check_field c = (k, e) \<and> refines_type e t)" for c
    by (cases "check_field c") auto
  then show ?thesis by (simp add: check_for_def list_ex_iff)
qed

lemma refines_type_sound: "refines_type e t \<Longrightarrow> meets e v = Inr True \<Longrightarrow> json_conforms t v"
  by (cases v; cases "(e, t)" rule: refines_type.cases)
     (auto simp: is_nonempty_str_def is_str_def is_bool_def is_nonneg_int_def is_http_status_def
       is_session_hash_def in_str_set_def list_all_iff Suc_le_eq intro: le_trans split: if_splits)

lemma meets_raises: "hashable v \<Longrightarrow> meets e v \<noteq> Inl x"
  by (cases e) (auto simp: in_str_set_def)

lemma require_keys_None: "require_keys p req ty = None \<longleftrightarrow> (\<forall>k\<in>set req. dict_has p k)"
  by (induction p req ty rule: require_keys.induct) auto

lemma run_checks_Cons:
  "run_checks ty (c # cs) p =
     (case dict_get p (fst (check_field c)) of
        None \<Rightarrow> (case c of Need k e \<Rightarrow> VRaise (KeyError k) | May k e \<Rightarrow> run_checks ty cs p)
      | Some v \<Rightarrow>
          (case meets (snd (check_field c)) v of
             Inl x \<Rightarrow> VRaise x
           | Inr b \<Rightarrow> if b then run_checks ty cs p
                      else VErr (FieldError ty (fst (check_field c)) (snd (check_field c)))))"
  by (cases c) (auto split: option.split sum.split)

lemma run_checks_ok:
  assumes "run_checks ty cs p = VOk" and "c \<in> set cs" and "check_field c = (k, e)"
    and "dict_get p k = Some v"
  shows "meets e v = Inr True"
  using assms
  by (induction cs)
     (auto simp: run_checks_Cons split: option.splits sum.splits if_splits field_check.splits)

lemma run_checks_cong:
  assumes "\<And>c. c \<in> set cs \<Longrightarrow> dict_get p (fst (check_field c)) = dict_get q (fst (check_field c))"
  shows "run_checks ty cs p = run_checks ty cs q"
  using assms
proof (induction cs)
  case Nil
  then show ?case by simp
next
  case (Cons c cs)
  then have "dict_get p (fst (check_field c)) = dict_get q (fst (check_field c))"
    and "run_checks ty cs p = run_checks ty cs q" by simp_all
  then show ?case by (simp only: run_checks_Cons)
qed

lemma require_keys_cong:
  assumes "\<And>k. k \<in> set req \<Longrightarrow> dict_get p k = dict_get q k"
  shows "require_keys p req ty = require_keys q req ty"
  using assms by (induction req) (simp_all add: dict_has_def)

lemma run_checks_total:
  assumes "\<And>k e. Need k e \<in> set cs \<Longrightarrow> dict_has p k"
    and h: "\<And>k v. dict_get p k = Some v \<Longrightarrow> hashable v"
  shows "run_checks ty cs p \<noteq> VRaise x"
  using assms(1)
proof (induction cs)
  case Nil
  then show ?case by simp
next
  case (Cons c cs)
  then have IH: "run_checks ty cs p \<noteq> VRaise x" by (meson list.set_intros(2))
  show ?case
  proof (cases "dict_get p (fst (check_field c))")
    case None
    moreover have "dict_has p k" if "c = Need k e" for k e
      using Cons.prems that by (meson list.set_intros(1))
    ultimately show ?thesis
      using IH by (cases c) (auto simp: dict_has_def)
  next
    case (Some v)
    with h have "hashable v" by blast
    with meets_raises have "meets (snd (check_field c)) v \<noteq> Inl y" for y by blast
    with Some IH show ?thesis by (auto simp: run_checks_Cons split: sum.splits)
  qed
qed

text \<open>The contract every payload validator keeps, relative to its entry of the schema
  document.\<close>

locale payload_validator =
  fixes validate :: "payload \<Rightarrow> verdict"
    and sch :: object_schema
  assumes accepted_conforms: "validate p = VOk \<Longrightarrow> object_conforms sch p"
    and unknown_ignored: "k \<notin> fst ` set (sch_properties sch) \<Longrightarrow> validate (dict_set k v p) = validate p"
    and no_raise: "(\<And>k v. dict_get p k = Some v \<Longrightarrow> hashable v) \<Longrightarrow> validate p \<noteq> VRaise x"
begin

lemma additive_fields:
  "(\<And>k. k \<in> fst ` set kvs \<Longrightarrow> k \<notin> fst ` set (sch_properties sch)) \<Longrightarrow>
   validate (foldr (\<lambda>(k, v). dict_set k v) kvs p) = validate p"
  by (induction kvs) (auto simp: unknown_ignored)

lemma accepted_required: "validate p = VOk \<Longrightarrow> k \<in> set (sch_required sch) \<Longrightarrow> dict_has p k"
  using accepted_conforms by (auto simp: object_conforms_def)

end

lemma validate_with_contract:
  assumes "checks_refine req cs sch"
  shows "payload_validator (validate_with ty req cs) sch"
proof
  fix p
  assume "validate_with ty req cs p = VOk"
  then have req: "\<forall>k\<in>set req. dict_has p k" and run: "run_checks ty cs p = VOk"
    by (auto simp: validate_with_def require_keys_None split: option.splits)
  have "json_conforms t v" if "(k, t) \<in> set (sch_properties sch)" "dict_get p k = Some v" for k t v
  proof -
    from assms that(1) have "check_for cs k t"
      by (auto simp: checks_refine_def list_all_iff)
    then obtain c e where "c \<in> set cs" "check_field c = (k, e)" "refines_type e t"
      by (auto simp: check_for_iff)
    with run that(2) show ?thesis by (blast intro: refines_type_sound run_checks_ok)
  qed
  with req assms show "object_conforms sch p"
    by (auto simp: object_conforms_def checks_refine_def list_all_iff split: option.splits)
next
  fix k v p
  assume k: "k \<notin> fst ` set (sch_properties sch)"
  with assms have "k \<notin> set req" and c: "\<And>c. c \<in> set cs \<Longrightarrow> fst (check_field c) \<noteq> k"
    by (auto simp: checks_refine_def list_all_iff)
  then have "require_keys (dict_set k v p) req ty = require_keys p req ty"
    by (intro require_keys_cong) auto
  moreover from c have "run_checks ty cs (dict_set k v p) = run_checks ty cs p"
    by (intro run_checks_cong) auto
  ultimately show "validate_with ty req cs (dict_set k v p) = validate_with ty req cs p"
    by (simp only: validate_with_def)
next
  fix p :: payload and x
  assume h: "\<And>k v. dict_get p k = Some v \<Longrightarrow> hashable v"
  show "validate_with ty req cs p \<noteq> VRaise x"
  proof (cases "require_keys p req ty")
    case None
    with assms have "dict_has p k" if "Need k e \<in> set cs" for k e
      using that by (force simp: checks_refine_def list_all_iff require_keys_None)
    then have "run_checks ty cs p \<noteq> VRaise x"
      using h by (rule run_checks_total)
    with None show ?thesis by (simp add: validate_with_def)
  next
    case (Some e)
    then show ?thesis by (simp add: validate_with_def)
  qed
qed

lemmas enum_defs = OUTCOMES_def CONTINUATION_KINDS_def WEBHOOK_FAILURE_REASONS_def
  HOOK_BACKENDS_def HOOK_DECISIONS_def A2A_CONCERNS_def LIFECYCLE_EVENTS_def
  CONVERSATION_ROLES_def TOOL_OUTCOMES_def SPAN_STATUSES_def

lemmas refine_eval = checks_refine_def check_for_def enum_defs

text \<open>Every validator of the module keeps the contract of its schema entry.\<close>

interpretation job_fired: payload_validator validate_job_fired "the (dict_get events_schema ''job.fired'')"
  unfolding validate_job_fired_def
  by (rule validate_with_contract) (simp add: events_schema_def refine_eval)

interpretation task_fired: payload_validator validate_task_fired "the (dict_get events_schema ''task.fired'')"
  unfolding validate_task_fired_def
  by (rule validate_with_contract) (simp add: events_schema_def refine_eval)

interpretation heartbeat_fired: payload_validator validate_heartbeat_fired "the (dict_get events_schema ''heartbeat.fired'')"
  unfolding validate_heartbeat_fired_def
  by (rule validate_with_contract) (simp add: events_schema_def refine_eval)

interpretation continuation_fired: payload_validator validate_continuation_fired "the (dict_get events_schema ''continuation.fired'')"
  unfolding validate_continuation_fired_def
  by (rule validate_with_contract) (simp add: events_schema_def refine_eval)

interpretation trigger_fired: payload_validator validate_trigger_fired "the (dict_get events_schema ''trigger.fired'')"
  unfolding validate_trigger_fired_def
  by (rule validate_with_contract) (simp add: events_schema_def refine_eval)

interpretation webhook_delivered: payload_validator validate_webhook_delivered "the (dict_get events_schema ''webhook.delivered'')"
  unfolding validate_webhook_delivered_def
  by (rule validate_with_contract) (simp add: events_schema_def refine_eval)

interpretation webhook_failed: payload_validator validate_webhook_failed "the (dict_get events_schema ''webhook.failed'')"
  unfolding validate_webhook_failed_def
  by (rule validate_with_contract) (simp add: events_schema_def refine_eval)

interpretation hook_decision: payload_validator validate_hook_decision "the (dict_get events_schema ''hook.decision'')"
  unfolding validate_hook_decision_def
  by (rule validate_with_contract) (simp add: events_schema_def refine_eval)

interpretation a2a_received: payload_validator validate_a2a_received "the (dict_get events_schema ''a2a.request.received'')"
  unfolding validate_a2a_received_def
  by (rule validate_with_contract) (simp add: events_schema_def refine_eval)

interpretation a2a_completed: payload_validator validate_a2a_completed "the (dict_get events_schema ''a2a.request.completed'')"
  unfolding validate_a2a_completed_def
  by (rule validate_with_contract) (simp add: events_schema_def refine_eval)

interpretation agent_lifecycle: payload_validator validate_agent_lifecycle "the (dict_get events_schema ''agent.lifecycle'')"
  unfolding validate_agent_lifecycle_def
  by (rule validate_with_contract) (simp add: events_schema_def refine_eval)

interpretation conversation_turn: payload_validator validate_conversation_turn "the (dict_get events_schema ''conversation.turn'')"
  unfolding validate_conversation_turn_def
  by (rule validate_with_contract) (simp add: events_schema_def refine_eval)

interpretation conversation_chunk: payload_validator validate_conversation_chunk "the (dict_get events_schema ''conversation.chunk'')"
  unfolding validate_conversation_chunk_def
  by (rule validate_with_contract) (simp add: events_schema_def refine_eval)

interpretation tool_use: payload_validator validate_tool_use "the (dict_get events_schema ''tool.use'')"
  unfolding validate_tool_use_def
  by (rule validate_with_contract) (simp add: events_schema_def refine_eval)

interpretation trace_span: payload_validator validate_trace_span "the (dict_get events_schema ''trace.span'')"
  unfolding validate_trace_span_def
  by (rule validate_with_contract) (simp add: events_schema_def refine_eval)

interpretation stream_gap: payload_validator validate_stream_gap "the (dict_get events_schema ''stream.gap'')"
  unfolding validate_stream_gap_def
  by (rule validate_with_contract) (simp add: events_schema_def refine_eval)

interpretation stream_overrun: payload_validator validate_stream_overrun "the (dict_get events_schema ''stream.overrun'')"
  unfolding validate_stream_overrun_def
  by (rule validate_with_contract) (simp add: events_schema_def refine_eval)

lemmas validator_contracts =
  job_fired.payload_validator_axioms
  task_fired.payload_validator_axioms
  heartbeat_fired.payload_validator_axioms
  continuation_fired.payload_validator_axioms
  trigger_fired.payload_validator_axioms
  webhook_delivered.payload_validator_axioms
  webhook_failed.payload_validator_axioms
  hook_decision.payload_validator_axioms
  a2a_received.payload_validator_axioms
  a2a_completed.payload_validator_axioms
  agent_lifecycle.payload_validator_axioms
  conversation_turn.payload_validator_axioms
  conversation_chunk.payload_validator_axioms
  tool_use.payload_validator_axioms
  trace_span.payload_validator_axioms
  stream_gap.payload_validator_axioms
  stream_overrun.payload_validator_axioms

lemma VALIDATORS_contract:
  assumes "dict_get VALIDATORS t = Some f"
  shows "\<exists>sch. dict_get events_schema t = Some sch \<and> payload_validator f sch"
proof -
  have dom: "t \<in> fst ` set events_schema"
    using assms by (auto simp: VALIDATORS_def events_schema_def split: if_splits)
  then obtain sch where sch: "dict_get events_schema t = Some sch"
    by (metis domD dom_map_of_conv_image_fst)
  have "payload_validator f (the (dict_get events_schema t))"
    using assms validator_contracts by (auto simp: VALIDATORS_def split: if_splits)
  with sch show ?thesis by auto
qed

section \<open>Envelopes\<close>

lemma missing_key_None: "missing_key d ks = None \<longleftrightarrow> (\<forall>k\<in>set ks. dict_has d k)"
  by (induction d ks rule: missing_key.induct) auto

lemma validate_envelope_cases:
  assumes "\<And>k. validate_envelope env \<noteq> VErr (MissingField k)"
  obtains ty ver i ts ag pl where
    "dict_get env ''type'' = Some ty" "dict_get env ''version'' = Some ver"
    "dict_get env ''id'' = Some i" "dict_get env ''ts'' = Some ts"
    "dict_get env ''agent_id'' = Some ag" "dict_get env ''payload'' = Some pl"
proof -
  from assms have "missing_key env ENVELOPE_KEYS = None"
    by (cases "missing_key env ENVELOPE_KEYS") (auto simp: validate_envelope_def)
  then have "\<forall>k\<in>set ENVELOPE_KEYS. \<exists>v. dict_get env k = Some v"
    by (simp add: missing_key_None dict_has_def)
  then show ?thesis using that by (auto simp: ENVELOPE_KEYS_def)
qed

lemma validate_envelope_okD:
  assumes "validate_envelope env = VOk"
  obtains t f ver i ts ag p where
    "dict_get env ''type'' = Some (PStr t)" "dict_get VALIDATORS t = Some f"
    "dict_get env ''version'' = Some (PInt ver)" "ver \<ge> 1"
    "dict_get env ''id'' = Some (PStr i)" "i \<noteq> []"
    "dict_get env ''ts'' = Some (PStr ts)" "ts \<noteq> []"
    "dict_get env ''agent_id'' = Some ag" "ag = PNone \<or> (\<exists>a. ag = PStr a)"
    "dict_get env ''payload'' = Some (PDict p)" "f p = VOk"
proof -
  obtain ty ver i ts ag pl where g:
    "dict_get env ''type'' = Some ty" "dict_get env ''version'' = Some ver"
    "dict_get env ''id'' = Some i" "dict_get env ''ts'' = Some ts"
    "dict_get env ''agent_id'' = Some ag" "dict_get env ''payload'' = Some pl"
    using assms validate_envelope_cases [of env] by (metis verdict.distinct(1))
  then have none: "missing_key env ENVELOPE_KEYS = None"
    by (simp add: missing_key_None ENVELOPE_KEYS_def dict_has_def)
  from assms g none have "positive_int ver" "is_nonempty_str i" "is_nonempty_str ts" "str_or_none ag"
    by (simp_all add: validate_envelope_def split: option.splits if_splits)
  moreover from assms g none obtain t f p where
    "ty = PStr t" "dict_get VALIDATORS t = Some f" "pl = PDict p" "f p = VOk"
    by (auto simp: validate_envelope_def split: option.splits if_splits pyval.splits)
  ultimately show ?thesis
    using that g
    by (auto simp: positive_int_def is_nonempty_str_def str_or_none_def split: pyval.splits)
qed


definition sample_envelope :: "payload \<Rightarrow> payload" where
  "sample_envelope p =
     [(''type'', PStr ''heartbeat.fired''), (''version'', PInt 1), (''id'', PStr ''7''),
      (''ts'', PStr ''2026-01-01T00:00:00.000Z''), (''agent_id'', PNone), (''payload'', PDict p)]"

lemma sample_envelope_ok:
  "validate_envelope (sample_envelope
     [(''duration_ms'', PInt 12), (''outcome'', PStr ''success'')]) = VOk"
  by (simp add: sample_envelope_def validate_envelope_def ENVELOPE_KEYS_def dict_has_def
      VALIDATORS_def positive_int_def is_nonempty_str_def str_or_none_def
      validate_heartbeat_fired_def validate_with_def is_nonneg_int_def in_str_set_def
      hashable_def OUTCOMES_def)

lemma sample_date_time [simp]: "date_time ''2026-01-01T00:00:00.000Z''" "\<not> date_time ''yesterday''"
  by code_simp+


text \<open>A time stamp that is none is accepted.\<close>

lemma ts_format_unchecked:
  defines "env \<equiv> dict_set ''ts'' (PStr ''yesterday'') (sample_envelope [(''duration_ms'', PInt 12), (''outcome'', PStr ''success'')])"
  shows "validate_envelope env = VOk \<and> \<not> envelope_conforms env"
proof -
  have "validate_envelope env = VOk"
    by (simp add: env_def sample_envelope_def validate_envelope_def ENVELOPE_KEYS_def dict_has_def
      VALIDATORS_def positive_int_def is_nonempty_str_def str_or_none_def
      validate_heartbeat_fired_def validate_with_def is_nonneg_int_def in_str_set_def
      hashable_def OUTCOMES_def)
  moreover have "\<not> envelope_conforms env" by (auto simp: env_def sample_envelope_def envelope_conforms_def)
  ultimately show ?thesis by blast
qed

text \<open>Forward compatibility of payloads: setting a payload field that the contract does not
  list for the envelope's type leaves the validator's answer unchanged, whether it accepts,
  rejects or raises.\<close>

theorem validate_envelope_additive:
  assumes "dict_get env ''type'' = Some (PStr t)" and "dict_get env ''payload'' = Some (PDict p)"
    and "dict_get events_schema t = Some sch" and "k \<notin> fst ` set (sch_properties sch)"
  shows "validate_envelope (dict_set ''payload'' (PDict (dict_set k v p)) env) = validate_envelope env"
proof -
  let ?env = "dict_set ''payload'' (PDict (dict_set k v p)) env"
  have "missing_key ?env ENVELOPE_KEYS = missing_key env ENVELOPE_KEYS"
    using assms(2) by (simp add: ENVELOPE_KEYS_def dict_has_def)
  moreover have "f (dict_set k v p) = f p" if "dict_get VALIDATORS t = Some f" for f
    using VALIDATORS_contract [OF that] assms(3,4)
    by (auto intro: payload_validator.unknown_ignored)
  ultimately show ?thesis
    using assms(1,2)
    by (cases "dict_get VALIDATORS t") (simp_all add: validate_envelope_def split: option.split)
qed

theorem validate_envelope_additive_witness:
  "validate_envelope (dict_set ''payload''
      (PDict (dict_set ''region'' (PList []) [(''duration_ms'', PInt 12), (''outcome'', PStr ''success'')]))
      (sample_envelope [(''duration_ms'', PInt 12), (''outcome'', PStr ''success'')])) = VOk"
  by (subst validate_envelope_additive
        [where t = "''heartbeat.fired''" and sch = "the (dict_get events_schema ''heartbeat.fired'')"])
     (simp_all add: sample_envelope_ok, simp_all add: sample_envelope_def events_schema_def)

text \<open>The validator raises no exception when every payload value is hashable, and the
  hypothesis is needed: a list in an enumerated field of an otherwise well-formed payload
  makes it raise \<open>TypeError\<close>, although the callers document that publishing never raises.\<close>

theorem validate_envelope_raises:
  "(\<forall>env p x. dict_get env ''payload'' = Some (PDict p) \<longrightarrow>
      (\<forall>k v. dict_get p k = Some v \<longrightarrow> hashable v) \<longrightarrow> validate_envelope env \<noteq> VRaise x) \<and>
   (\<forall>xs. validate_envelope (sample_envelope
      [(''duration_ms'', PInt 12), (''outcome'', PList xs)]) = VRaise TypeError)"
proof (intro conjI allI impI)
  fix env p x
  assume p: "dict_get env ''payload'' = Some (PDict p)"
    and h: "\<forall>k v. dict_get p k = Some v \<longrightarrow> hashable v"
  have "f p \<noteq> VRaise x" if "dict_get VALIDATORS t = Some f" for t f
  proof -
    from VALIDATORS_contract [OF that] obtain sch where "payload_validator f sch" by blast
    then show ?thesis using h by (intro payload_validator.no_raise) auto
  qed
  with p show "validate_envelope env \<noteq> VRaise x"
    by (auto simp: validate_envelope_def Let_def split: option.splits pyval.splits)
next
  fix xs
  show "validate_envelope (sample_envelope
      [(''duration_ms'', PInt 12), (''outcome'', PList xs)]) = VRaise TypeError"
    by (simp add: sample_envelope_def validate_envelope_def ENVELOPE_KEYS_def dict_has_def
      VALIDATORS_def positive_int_def is_nonempty_str_def str_or_none_def
      validate_heartbeat_fired_def validate_with_def is_nonneg_int_def in_str_set_def hashable_def)
qed

theorem validate_envelope_raises_witness:
  "validate_envelope (sample_envelope [(''duration_ms'', PNone)]) \<noteq> VRaise TypeError"
  by (rule validate_envelope_raises [THEN conjunct1, rule_format, of _ "[(''duration_ms'', PNone)]"])
     (auto simp: sample_envelope_def hashable_def split: if_splits)

definition echo_envelope :: payload where
  "echo_envelope = dict_set ''type'' (PStr ''agent.lifecycle'')
     (sample_envelope [(''backend'', PStr ''echo''), (''event'', PStr ''started'')])"

text \<open>The contract documents the backend \<open>echo\<close> for hook decisions and lifecycle events, and
  the validator rejects it: such an envelope conforms and is refused.\<close>

theorem echo_backend_rejected:
  "envelope_conforms echo_envelope \<and>
   validate_envelope echo_envelope =
     VErr (FieldError ''agent.lifecycle'' ''backend'' (OneOf HOOK_BACKENDS))"
  by (auto simp: echo_envelope_def sample_envelope_def envelope_conforms_def events_schema_def
      object_conforms_def dict_has_def validate_envelope_def ENVELOPE_KEYS_def VALIDATORS_def
      positive_int_def is_nonempty_str_def str_or_none_def validate_agent_lifecycle_def
      validate_with_def in_str_set_def hashable_def HOOK_BACKENDS_def)

end
