(* ===== verification/Async_Queue.thy ===== *)
theory Async_Queue
  imports Prelude
begin

text \<open>
  The part of \<open>asyncio.Queue\<close> the program uses: a FIFO with a capacity (0 or less is
  unbounded), \<open>put_nowait\<close> and \<open>get_nowait\<close> with \<open>QueueFull\<close> and \<open>QueueEmpty\<close> as
  \<^const>\<open>None\<close>. The locale \<open>bounded_fifo\<close> is the interface its three clients rely on (the
  harness event stream, the per-session stream and the message bus); the facts proved in it are
  the ones their eviction protocols need.
\<close>

record 'a aqueue =
  aq_items :: "'a list"
  aq_maxsize :: int

definition new_queue :: "int \<Rightarrow> 'a aqueue" where
  "new_queue n = \<lparr>aq_items = [], aq_maxsize = n\<rparr>"

definition qsize :: "'a aqueue \<Rightarrow> nat" where
  "qsize q = length (aq_items q)"

definition queue_full :: "'a aqueue \<Rightarrow> bool" where
  "queue_full q = (aq_maxsize q > 0 \<and> int (qsize q) \<ge> aq_maxsize q)"

definition put_nowait :: "'a \<Rightarrow> 'a aqueue \<Rightarrow> 'a aqueue option" where
  "put_nowait x q = (if queue_full q then None else Some (q\<lparr>aq_items := aq_items q @ [x]\<rparr>))"

definition get_nowait :: "'a aqueue \<Rightarrow> ('a \<times> 'a aqueue) option" where
  "get_nowait q =
     (case aq_items q of
        [] \<Rightarrow> None
      | x # xs \<Rightarrow> Some (x, q\<lparr>aq_items := xs\<rparr>))"

text \<open>\<open>try: q.put_nowait(x) except QueueFull: pass\<close>, and the same for \<open>get_nowait\<close>.\<close>

definition put_best_effort :: "'a \<Rightarrow> 'a aqueue \<Rightarrow> 'a aqueue" where
  "put_best_effort x q = (case put_nowait x q of None \<Rightarrow> q | Some q' \<Rightarrow> q')"

definition drop_one :: "'a aqueue \<Rightarrow> 'a aqueue" where
  "drop_one q = (case get_nowait q of None \<Rightarrow> q | Some (_, q') \<Rightarrow> q')"

definition queue_wf :: "'a aqueue \<Rightarrow> bool" where
  "queue_wf q = (aq_maxsize q > 0 \<longrightarrow> int (qsize q) \<le> aq_maxsize q)"

locale bounded_fifo =
  fixes put :: "'a \<Rightarrow> 'q \<Rightarrow> 'q option"
    and get :: "'q \<Rightarrow> ('a \<times> 'q) option"
    and items :: "'q \<Rightarrow> 'a list"
    and full :: "'q \<Rightarrow> bool"
    and cap :: "'q \<Rightarrow> int"
    and wf :: "'q \<Rightarrow> bool"
  assumes put_full: "full q \<Longrightarrow> put x q = None"
    and put_room: "\<not> full q \<Longrightarrow> \<exists>q'. put x q = Some q' \<and> items q' = items q @ [x] \<and> cap q' = cap q"
    and put_wf: "wf q \<Longrightarrow> put x q = Some q' \<Longrightarrow> wf q'"
    and get_empty: "items q = [] \<Longrightarrow> get q = None"
    and get_head: "items q = y # ys \<Longrightarrow> \<exists>q'. get q = Some (y, q') \<and> items q' = ys \<and> cap q' = cap q"
    and get_wf: "wf q \<Longrightarrow> get q = Some (y, q') \<Longrightarrow> wf q'"
    and full_iff: "wf q \<Longrightarrow> full q \<longleftrightarrow> cap q > 0 \<and> int (length (items q)) = cap q"
begin

lemma put_some_iff: "(\<exists>q'. put x q = Some q') \<longleftrightarrow> \<not> full q"
  using put_full put_room by (metis option.distinct(1))

lemma put_items: "put x q = Some q' \<Longrightarrow> items q' = items q @ [x] \<and> cap q' = cap q \<and> \<not> full q"
  using put_full put_room by (metis option.distinct(1) option.inject)

text \<open>Making room: after one \<open>get\<close> from a full queue exactly one \<open>put\<close> succeeds.\<close>

lemma swap_full:
  assumes "wf q" "full q"
  obtains y q1 q2 where "get q = Some (y, q1)" "put x q1 = Some q2"
    "items q2 = tl (items q) @ [x]" "cap q2 = cap q" "full q2" "wf q2"
proof -
  from assms have cap: "cap q > 0" "int (length (items q)) = cap q"
    by (simp_all add: full_iff)
  then obtain y ys where ys: "items q = y # ys" by (cases "items q") auto
  then obtain q1 where q1: "get q = Some (y, q1)" "items q1 = ys" "cap q1 = cap q"
    using get_head by blast
  have wf1: "wf q1" using assms(1) q1(1) by (rule get_wf)
  have "\<not> full q1" using wf1 q1 cap ys by (simp add: full_iff)
  then obtain q2 where q2: "put x q1 = Some q2" "items q2 = items q1 @ [x]" "cap q2 = cap q1"
    using put_room by blast
  have wf2: "wf q2" using wf1 q2(1) by (rule put_wf)
  have "full q2" using wf2 q1 q2 cap ys by (simp add: full_iff)
  with q1 q2 wf2 ys that show ?thesis by simp
qed

end

lemma put_nowait_wf: "queue_wf q \<Longrightarrow> put_nowait x q = Some q' \<Longrightarrow> queue_wf q'"
  by (auto simp: put_nowait_def queue_wf_def queue_full_def qsize_def split: if_splits)

lemma get_nowait_wf: "queue_wf q \<Longrightarrow> get_nowait q = Some (x, q') \<Longrightarrow> queue_wf q'"
  by (auto simp: get_nowait_def queue_wf_def qsize_def split: list.splits)

interpretation aq: bounded_fifo put_nowait get_nowait aq_items queue_full aq_maxsize queue_wf
proof unfold_locales
  fix q :: "'a aqueue"
  assume "queue_wf q"
  then show "queue_full q \<longleftrightarrow> aq_maxsize q > 0 \<and> int (length (aq_items q)) = aq_maxsize q"
    by (auto simp: queue_wf_def queue_full_def qsize_def)
qed (auto simp: put_nowait_def get_nowait_def intro: put_nowait_wf get_nowait_wf)

lemma new_queue_wf [simp, intro]: "queue_wf (new_queue n)"
  by (simp add: queue_wf_def new_queue_def qsize_def)

lemma new_queue_sel [simp]:
  "aq_items (new_queue n) = []" "aq_maxsize (new_queue n) = n"
  by (simp_all add: new_queue_def)

lemma put_best_effort_wf [intro]: "queue_wf q \<Longrightarrow> queue_wf (put_best_effort x q)"
  by (auto simp: put_best_effort_def dest: put_nowait_wf split: option.splits)

lemma drop_one_wf [intro]: "queue_wf q \<Longrightarrow> queue_wf (drop_one q)"
  by (auto simp: drop_one_def dest: get_nowait_wf split: option.splits)

lemma put_best_effort_items:
  "aq_items (put_best_effort x q) = (if queue_full q then aq_items q else aq_items q @ [x])"
  by (simp add: put_best_effort_def put_nowait_def)

lemma maxsize_kept [simp]:
  "aq_maxsize (put_best_effort x q) = aq_maxsize q" "aq_maxsize (drop_one q) = aq_maxsize q"
  by (auto simp: put_best_effort_def put_nowait_def drop_one_def get_nowait_def split: list.splits)

text \<open>The eviction protocol of both streams on a full queue: drop the oldest item, append the
  terminal one, and the sentinel finds no room.\<close>

lemma evict_full:
  assumes "queue_wf q" "queue_full q"
  shows "aq_items (put_best_effort s (put_best_effort x (drop_one q))) = tl (aq_items q) @ [x]"
proof -
  obtain y q1 q2 where "get_nowait q = Some (y, q1)" "put_nowait x q1 = Some q2"
    "aq_items q2 = tl (aq_items q) @ [x]" "queue_full q2"
    using assms by (rule aq.swap_full)
  then show ?thesis
    by (simp add: drop_one_def put_best_effort_def put_nowait_def)
qed

text \<open>The teardown protocol of the session registry, which does not make room first.\<close>

lemma teardown_items:
  assumes "queue_wf q" "aq_maxsize q > 0"
  shows "aq_items (put_best_effort s (put_best_effort x q)) =
    (let n = nat (aq_maxsize q) - length (aq_items q) in aq_items q @ take n [x, s])"
proof (cases "queue_full q")
  case True
  then have same: "put_best_effort y q = q" for y by (simp add: put_best_effort_def put_nowait_def)
  have "length (aq_items q) = nat (aq_maxsize q)" using True assms by (simp add: aq.full_iff)
  then show ?thesis by (simp add: same)
next
  case False
  then have q1: "aq_items (put_best_effort x q) = aq_items q @ [x]"
    by (simp add: put_best_effort_items)
  have room: "length (aq_items q) < nat (aq_maxsize q)"
    using False assms by (auto simp: queue_wf_def queue_full_def qsize_def)
  have full1: "queue_full (put_best_effort x q) \<longleftrightarrow> Suc (length (aq_items q)) = nat (aq_maxsize q)"
    using assms q1 room by (auto simp: queue_full_def qsize_def)
  show ?thesis
  proof (cases "Suc (length (aq_items q)) = nat (aq_maxsize q)")
    case True
    then have "nat (aq_maxsize q) - length (aq_items q) = 1" by simp
    with True full1 q1 show ?thesis by (simp add: put_best_effort_items [of s])
  next
    case False
    then have "nat (aq_maxsize q) - length (aq_items q) \<ge> 2" using room by linarith
    with False full1 q1 show ?thesis by (simp add: put_best_effort_items [of s])
  qed
qed

end
