(* ===== verification/Broadcast.thy ===== *)
theory Broadcast
  imports Event_Schema Async_Queue
begin

text \<open>
  What the two server-sent-event broadcasters share: the envelope (\<open>EventEnvelope\<close> of
  \<open>harness/events.py\<close>; \<open>SessionStreamEnvelope\<close> of \<open>shared/session_stream.py\<close> has the same
  fields), the subscriber record, the bounded replay ring and the consumer loop \<open>_iterate\<close>.
  The locale \<open>event_ring\<close> states what a publisher promises about ids and the ring, and proves
  once that a client that resumes from its last id gets exactly what it missed.
\<close>

section \<open>Envelopes, subscribers, the consumer loop\<close>

record envelope =
  ev_type :: pystr
  ev_version :: int
  ev_id :: pystr
  ev_ts :: pystr
  ev_agent_id :: "pystr option"
  ev_payload :: payload

definition to_dict :: "envelope \<Rightarrow> payload" where
  "to_dict e =
     [(''type'', PStr (ev_type e)),
      (''version'', PInt (ev_version e)),
      (''id'', PStr (ev_id e)),
      (''ts'', PStr (ev_ts e)),
      (''agent_id'', (case ev_agent_id e of None \<Rightarrow> PNone | Some a \<Rightarrow> PStr a)),
      (''payload'', PDict (ev_payload e))]"

datatype qitem = QEvent envelope | OVERRUN_SENTINEL

record subscriber =
  sub_queue :: "qitem aqueue"
  sub_closed :: bool

definition new_subscriber :: "int \<Rightarrow> subscriber" where
  "new_subscriber n = \<lparr>sub_queue = new_queue n, sub_closed = False\<rparr>"

text \<open>The consumer loop run against a queue nobody else touches: the envelopes it yields, and
  whether it returned (otherwise it waits in \<open>queue.get()\<close>).\<close>

fun iterate_drain :: "bool \<Rightarrow> qitem list \<Rightarrow> envelope list \<times> bool" where
  "iterate_drain closed [] = ([], False)"
| "iterate_drain closed (OVERRUN_SENTINEL # q) = ([], True)"
| "iterate_drain closed (QEvent e # q) =
     (if closed \<and> q = [] then ([e], True)
      else (case iterate_drain closed q of (es, fin) \<Rightarrow> (e # es, fin)))"

lemma iterate_drain_closed:
  assumes "q \<noteq> []"
  shows "iterate_drain True (map QEvent q) = (q, True)"
  using assms by (induction q) auto

lemma iterate_drain_sentinel:
  "q \<noteq> [] \<Longrightarrow> iterate_drain True (map QEvent q @ [OVERRUN_SENTINEL]) = (q, True)"
proof (induction q)
  case Nil
  then show ?case by simp
next
  case (Cons e q)
  then show ?case by (cases q) auto
qed

text \<open>A closed subscriber with something queued never waits: the loop returns.\<close>

lemma iterate_drain_returns: "q \<noteq> [] \<Longrightarrow> snd (iterate_drain True q)"
proof (induction "True" q rule: iterate_drain.induct)
  case (3 e q)
  then show ?case by (cases "q = []") (auto split: prod.splits)
qed auto

section \<open>The replay ring\<close>

text \<open>\<open>deque(maxlen=n).append(x)\<close>.\<close>

definition take_last :: "nat \<Rightarrow> 'a list \<Rightarrow> 'a list" where
  "take_last n xs = drop (length xs - n) xs"

definition ring_append :: "nat \<Rightarrow> 'a list \<Rightarrow> 'a \<Rightarrow> 'a list" where
  "ring_append n r x = take_last n (r @ [x])"

text \<open>\<open>replay_from\<close>: the whole ring when the id is missing, empty or no integer; otherwise the
  envelopes with a greater id, those whose id is no integer skipped.\<close>

definition id_after :: "int \<Rightarrow> envelope \<Rightarrow> bool" where
  "id_after n e = (case int_of_str (ev_id e) of None \<Rightarrow> False | Some i \<Rightarrow> i > n)"

definition replay_ring_from :: "envelope list \<Rightarrow> pystr option \<Rightarrow> envelope list" where
  "replay_ring_from ring last_id =
     (case last_id of
        None \<Rightarrow> ring
      | Some s \<Rightarrow>
          if s = [] then ring
          else (case int_of_str s of
                  None \<Rightarrow> ring
                | Some n \<Rightarrow> filter (id_after n) ring))"

lemma take_last_length: "length (take_last n xs) = min n (length xs)"
  by (simp add: take_last_def)

lemma take_last_append:
  "take_last n (xs @ ys) = take_last (n - length ys) xs @ take_last n ys"
  by (cases "length ys \<le> n") (simp_all add: take_last_def)

lemma take_last_take_last_snoc:
  "take_last n (take_last n xs @ [y]) = take_last n (xs @ [y])"
  by (cases "n \<le> length xs") (simp_all add: take_last_def Suc_diff_le)

lemma set_take_last: "set (take_last n xs) \<subseteq> set xs"
  by (auto simp: take_last_def dest: in_set_dropD)

lemma sorted_take_last: "sorted_wrt P xs \<Longrightarrow> sorted_wrt P (take_last n xs)"
  by (simp add: take_last_def sorted_wrt_drop)

lemma map_take_last: "map f (take_last n xs) = take_last n (map f xs)"
  by (simp add: take_last_def drop_map)

text \<open>The ids of a ring: printed naturals, strictly increasing, none above the counter.\<close>

definition ring_ids :: "nat list \<Rightarrow> envelope list \<Rightarrow> nat \<Rightarrow> bool" where
  "ring_ids ns ring hi =
     (map ev_id ring = map str_of_nat ns \<and> sorted_wrt (<) ns \<and> (\<forall>n\<in>set ns. 0 < n \<and> n \<le> hi))"

definition ring_ok :: "envelope list \<Rightarrow> nat \<Rightarrow> bool" where
  "ring_ok ring hi = (\<exists>ns. ring_ids ns ring hi)"

lemma ring_ok_Nil [simp]: "ring_ok [] n"
  by (auto simp: ring_ok_def ring_ids_def)

lemma ring_ok_mono: "ring_ok r n \<Longrightarrow> n \<le> m \<Longrightarrow> ring_ok r m"
  by (fastforce simp: ring_ok_def ring_ids_def)

lemma ring_ok_append:
  assumes "ring_ok r n" and "ev_id e = str_of_nat m" and "n < m" and "m \<le> hi"
  shows "ring_ok (ring_append k r e) hi"
proof -
  from assms(1) obtain ns where ns: "ring_ids ns r n" by (auto simp: ring_ok_def)
  have "ring_ids (take_last k (ns @ [m])) (ring_append k r e) hi"
  proof -
    have "map ev_id (r @ [e]) = map str_of_nat (ns @ [m])"
      using ns assms(2) by (simp add: ring_ids_def)
    then have "map ev_id (ring_append k r e) = map str_of_nat (take_last k (ns @ [m]))"
      by (simp only: ring_append_def map_take_last)
    moreover have "sorted_wrt (<) (ns @ [m])"
      using ns assms(3) by (auto simp: ring_ids_def sorted_wrt_append)
    moreover have "\<forall>x\<in>set (ns @ [m]). 0 < x \<and> x \<le> hi"
      using ns assms by (auto simp: ring_ids_def)
    ultimately show ?thesis
      using set_take_last [of k "ns @ [m]"] sorted_take_last [of "(<)" "ns @ [m]" k]
      by (auto simp: ring_ids_def)
  qed
  then show ?thesis by (auto simp: ring_ok_def)
qed

lemma ring_ok_no_later:
  assumes "ring_ok r n" "e \<in> set r"
  shows "\<not> id_after (int n) e"
proof -
  from assms(1) obtain ns where ns: "map ev_id r = map str_of_nat ns" "\<forall>k\<in>set ns. k \<le> n"
    by (auto simp: ring_ok_def ring_ids_def)
  from assms(2) have "ev_id e \<in> set (map str_of_nat ns)"
    unfolding ns(1) [symmetric] by simp
  then obtain k where "k \<in> set ns" "ev_id e = str_of_nat k" by auto
  with ns(2) show ?thesis by (auto simp: id_after_def int_of_str_of_nat)
qed

lemma ring_ok_distinct:
  assumes "ring_ok r n"
  shows "distinct (map ev_id r)"
proof -
  from assms obtain ns where ns: "map ev_id r = map str_of_nat ns" "sorted_wrt (<) ns"
    by (auto simp: ring_ok_def ring_ids_def)
  then have "distinct ns" by (simp add: strict_sorted_iff)
  with ns(1) show ?thesis by (simp add: distinct_map inj_on_def)
qed

text \<open>A run of a broadcaster: the envelopes it accepted, in order, between two states, with any
  other steps in between.\<close>

inductive ring_trace ::
  "('s \<Rightarrow> envelope \<Rightarrow> 's \<Rightarrow> bool) \<Rightarrow> ('s \<Rightarrow> 's \<Rightarrow> bool) \<Rightarrow> 's \<Rightarrow> envelope list \<Rightarrow> 's \<Rightarrow> bool"
  for accept quiet where
  trace_Nil: "ring_trace accept quiet s [] s"
| trace_accept: "ring_trace accept quiet s es t \<Longrightarrow> accept t e u \<Longrightarrow> ring_trace accept quiet s (es @ [e]) u"
| trace_quiet: "ring_trace accept quiet s es t \<Longrightarrow> quiet t u \<Longrightarrow> ring_trace accept quiet s es u"

locale event_ring =
  fixes ring :: "'s \<Rightarrow> envelope list"
    and top_id :: "'s \<Rightarrow> nat"
    and ring_cap :: "'s \<Rightarrow> nat"
    and inv :: "'s \<Rightarrow> bool"
    and accept :: "'s \<Rightarrow> envelope \<Rightarrow> 's \<Rightarrow> bool"
    and quiet :: "'s \<Rightarrow> 's \<Rightarrow> bool"
  assumes inv_ring: "inv s \<Longrightarrow> ring_ok (ring s) (top_id s)"
    and inv_length: "inv s \<Longrightarrow> length (ring s) \<le> ring_cap s"
    and accept_inv: "inv s \<Longrightarrow> accept s e s' \<Longrightarrow> inv s'"
    and accept_ring: "inv s \<Longrightarrow> accept s e s' \<Longrightarrow> ring s' = ring_append (ring_cap s) (ring s) e"
    and accept_cap: "inv s \<Longrightarrow> accept s e s' \<Longrightarrow> ring_cap s' = ring_cap s"
    and accept_id: "inv s \<Longrightarrow> accept s e s' \<Longrightarrow>
      ev_id e = str_of_nat (Suc (top_id s)) \<and> Suc (top_id s) \<le> top_id s'"
    and quiet_inv: "inv s \<Longrightarrow> quiet s s' \<Longrightarrow> inv s'"
    and quiet_ring: "inv s \<Longrightarrow> quiet s s' \<Longrightarrow> ring s' = ring s \<and> ring_cap s' = ring_cap s"
    and quiet_id: "inv s \<Longrightarrow> quiet s s' \<Longrightarrow> top_id s \<le> top_id s'"
begin

lemma trace_facts:
  assumes "ring_trace accept quiet s es t" and "inv s"
  shows "inv t \<and> ring_cap t = ring_cap s \<and> top_id s \<le> top_id t \<and>
    ring t = take_last (ring_cap s) (ring s @ es)"
  using assms
proof (induction rule: ring_trace.induct)
  case (trace_Nil s)
  then show ?case using inv_length [of s] by (simp add: take_last_def)
next
  case (trace_accept s es t e u)
  then have t: "inv t" "ring_cap t = ring_cap s" "top_id s \<le> top_id t"
    "ring t = take_last (ring_cap s) (ring s @ es)" by simp_all
  have "inv u" "ring_cap u = ring_cap s" "top_id s \<le> top_id u"
    using accept_inv accept_cap accept_id trace_accept.hyps(2) t by fastforce+
  moreover have "ring u = ring_append (ring_cap s) (ring t) e"
    using accept_ring trace_accept.hyps(2) t by simp
  ultimately show ?case
    using t(4) take_last_take_last_snoc [of "ring_cap s" "ring s @ es" e]
    by (simp add: ring_append_def)
next
  case (trace_quiet s es t u)
  then have "inv t" by simp
  with trace_quiet quiet_inv [of t u] quiet_ring [of t u] quiet_id [of t u]
  show ?case by auto
qed

text \<open>The accepted ids are printed naturals, strictly increasing above the starting counter.\<close>

lemma trace_ids:
  assumes "ring_trace accept quiet s es t" and "inv s"
  shows "\<exists>ns. map ev_id es = map str_of_nat ns \<and> sorted_wrt (<) ns \<and>
    (\<forall>n\<in>set ns. top_id s < n \<and> n \<le> top_id t)"
  using assms
proof (induction rule: ring_trace.induct)
  case (trace_Nil s)
  then show ?case by simp
next
  case (trace_accept s es t e u)
  then obtain ns where ns: "map ev_id es = map str_of_nat ns" "sorted_wrt (<) ns"
    "\<forall>n\<in>set ns. top_id s < n \<and> n \<le> top_id t" by auto
  have t: "inv t" "top_id s \<le> top_id t"
    using trace_facts [OF trace_accept.hyps(1) trace_accept.prems] by auto
  then have "ev_id e = str_of_nat (Suc (top_id t))" "Suc (top_id t) \<le> top_id u"
    using accept_id trace_accept.hyps(2) by blast+
  with ns t show ?case
    by (intro exI [of _ "ns @ [Suc (top_id t)]"]) (fastforce simp: sorted_wrt_append)
next
  case (trace_quiet s es t u)
  then have "inv t" using trace_facts by blast
  then have "top_id t \<le> top_id u" using quiet_id trace_quiet.hyps(2) by blast
  with trace_quiet show ?case by fastforce
qed

lemma trace_distinct_ids:
  assumes "ring_trace accept quiet s es t" and "inv s"
  shows "distinct (map ev_id es)"
proof -
  from trace_ids [OF assms] obtain ns where ns: "map ev_id es = map str_of_nat ns" "sorted_wrt (<) ns"
    by blast
  then have "distinct ns" by (simp add: strict_sorted_iff)
  then have "distinct (map str_of_nat ns)" by (simp add: distinct_map inj_on_def)
  with ns(1) show ?thesis by simp
qed

lemma trace_later:
  assumes "ring_trace accept quiet s es t" and "inv s" and "e \<in> set es"
  shows "id_after (int (top_id s)) e"
proof -
  from trace_ids [OF assms(1,2)] obtain ns where ns: "map ev_id es = map str_of_nat ns"
    "\<forall>n\<in>set ns. top_id s < n" by blast
  from assms(3) have "ev_id e \<in> set (map str_of_nat ns)"
    unfolding ns(1) [symmetric] by simp
  with ns(2) show ?thesis by (auto simp: id_after_def int_of_str_of_nat)
qed

text \<open>Resuming from an id that covers the ring of an earlier state returns exactly the
  envelopes accepted since that state, the last \<open>ring_cap\<close> of them when there were more. The
  two instances: the counter of the earlier state, and the id of the envelope accepted last.\<close>

lemma resume_from:
  assumes "inv s" and "ring_trace accept quiet s es t" and "ring_ok (ring s) n" and "n \<le> top_id s"
  shows "replay_ring_from (ring t) (Some (str_of_nat n)) = take_last (ring_cap s) es"
proof -
  let ?k = "ring_cap s" and ?n = "int n"
  have old: "filter (id_after ?n) (take_last m (ring s)) = []" for m
    using ring_ok_no_later [OF assms(3)] set_take_last [of m "ring s"]
    by (auto simp: filter_empty_conv)
  have new: "filter (id_after ?n) (take_last m es) = take_last m es" for m
    using trace_later [OF assms(2,1)] set_take_last [of m es] assms(4)
    by (fastforce simp: filter_id_conv id_after_def split: option.splits)
  have "ring t = take_last (?k - length es) (ring s) @ take_last ?k es"
    using trace_facts [OF assms(2,1)] by (simp add: take_last_append)
  then have "filter (id_after ?n) (ring t) = take_last ?k es"
    using old new by simp
  then show ?thesis by (simp add: replay_ring_from_def int_of_str_of_nat)
qed

lemma resume:
  assumes "inv s" and "ring_trace accept quiet s es t"
  shows "replay_ring_from (ring t) (Some (str_of_nat (top_id s))) = take_last (ring_cap s) es"
  using resume_from [OF assms inv_ring [OF assms(1)]] by simp

lemma resume_after:
  assumes "inv s" and "accept s e u" and "ring_trace accept quiet u es t"
  shows "replay_ring_from (ring t) (Some (ev_id e)) = take_last (ring_cap u) es"
proof -
  have id: "ev_id e = str_of_nat (Suc (top_id s))" "Suc (top_id s) \<le> top_id u"
    using accept_id assms by blast+
  have "ring_ok (ring u) (Suc (top_id s))"
    using ring_ok_append [OF inv_ring [OF assms(1)] id(1)] accept_ring [OF assms(1,2)] by simp
  with resume_from [OF accept_inv [OF assms(1,2)] assms(3) _ id(2)] id(1) show ?thesis by simp
qed

end

end
