(* ===== verification/Session_Stream.thy ===== *)
theory Session_Stream
  imports Broadcast
begin

text \<open>
  Model of \<open>shared/session_stream.py\<close>: the per-session broadcaster of the backends, the
  process-wide registry with its insertion cap and idle sweeper, and the admission part of the
  SSE route. SHA-256 is an argument (\<open>sha\<close>, the hexadecimal digest of a string), clock
  readings are arguments. Broadcasters live in a store (\<open>reg_heap\<close>) and the registry maps
  session ids to references, because request handlers keep a broadcaster they have obtained
  after the registry has dropped it.
\<close>

section \<open>One broadcaster\<close>

record session_stream =
  ss_session_id :: pystr
  ss_session_hash :: pystr
  ss_queue_max :: int
  ss_ring_max :: nat
  ss_ring :: "envelope list"
  ss_subscribers :: "nat list"
  ss_objs :: "subscriber list"
  ss_next_id :: nat
  ss_agent_id :: "pystr option"
  ss_turn_seq :: nat
  ss_idle_since :: "int option"
  ss_last_activity :: int

text \<open>Clock readings of one call: wall-clock text and the monotonic clock, index 0 for the call
  itself and \<open>i + 1\<close> for what it does to subscriber \<open>i\<close>.\<close>

record clocks =
  ck_ts :: "nat \<Rightarrow> pystr"
  ck_mono :: "nat \<Rightarrow> int"

definition session_id_hash :: "(pystr \<Rightarrow> pystr) \<Rightarrow> pystr \<Rightarrow> pystr" where
  "session_id_hash sha sid = take 12 (sha sid)"

definition init_session_stream ::
  "(pystr \<Rightarrow> pystr) \<Rightarrow> pystr \<Rightarrow> int \<Rightarrow> int \<Rightarrow> pystr option \<Rightarrow> int \<Rightarrow> int \<Rightarrow> session_stream" where
  "init_session_stream sha sid queue_max ring_max agent_id t_idle t_active =
     \<lparr>ss_session_id = sid, ss_session_hash = session_id_hash sha sid,
      ss_queue_max = max 1 queue_max, ss_ring_max = nat (max 1 ring_max), ss_ring = [],
      ss_subscribers = [], ss_objs = [], ss_next_id = 0, ss_agent_id = agent_id,
      ss_turn_seq = 0, ss_idle_since = Some t_idle, ss_last_activity = t_active\<rparr>"

definition ss_subscribe :: "session_stream \<Rightarrow> nat \<times> session_stream" where
  "ss_subscribe s =
     (let i = length (ss_objs s)
      in (i, s\<lparr>ss_objs := ss_objs s @ [new_subscriber (ss_queue_max s)],
                ss_subscribers := ss_subscribers s @ [i], ss_idle_since := None\<rparr>))"

definition ss_consume :: "nat \<Rightarrow> session_stream \<Rightarrow> qitem option \<times> session_stream" where
  "ss_consume i s =
     (case get_nowait (sub_queue (ss_objs s ! i)) of
        None \<Rightarrow> (None, s)
      | Some (x, q) \<Rightarrow>
          (Some x, s\<lparr>ss_objs := (ss_objs s)[i := (ss_objs s ! i)\<lparr>sub_queue := q\<rparr>]\<rparr>))"

definition ss_remove_subscriber :: "int \<Rightarrow> nat \<Rightarrow> session_stream \<Rightarrow> session_stream" where
  "ss_remove_subscriber now i s =
     (let s1 = s\<lparr>ss_subscribers := removeAll i (ss_subscribers s)\<rparr>
      in if ss_subscribers s1 = [] then s1\<lparr>ss_idle_since := Some now\<rparr> else s1)"

definition ss_overrun :: "session_stream \<Rightarrow> pystr \<Rightarrow> nat \<Rightarrow> pystr \<Rightarrow> envelope" where
  "ss_overrun s ts depth reason =
     \<lparr>ev_type = ''stream.overrun'', ev_version = 1, ev_id = str_of_nat (ss_next_id s), ev_ts = ts,
      ev_agent_id = ss_agent_id s,
      ev_payload = [(''queue_depth'', PInt (int depth)), (''queue_max'', PInt (ss_queue_max s)),
        (''reason'', PStr reason)]\<rparr>"

definition ss_evict_slow :: "clocks \<Rightarrow> nat \<Rightarrow> session_stream \<Rightarrow> session_stream" where
  "ss_evict_slow ck i s =
     (let sub = ss_objs s ! i;
          s1 = s\<lparr>ss_next_id := Suc (ss_next_id s)\<rparr>;
          overrun = ss_overrun s1 (ck_ts ck (Suc i)) (qsize (sub_queue sub))
                      ''subscriber queue full; evicted'';
          q1 = drop_one (sub_queue sub);
          q2 = put_best_effort (QEvent overrun) q1;
          q3 = put_best_effort OVERRUN_SENTINEL q2;
          s2 = s1\<lparr>ss_objs := (ss_objs s1)[i := \<lparr>sub_queue = q3, sub_closed = True\<rparr>]\<rparr>
      in if i \<in> set (ss_subscribers s2)
         then ss_remove_subscriber (ck_mono ck (Suc i)) i s2 else s2)"

definition ss_offer :: "clocks \<Rightarrow> envelope \<Rightarrow> nat \<Rightarrow> session_stream \<Rightarrow> session_stream" where
  "ss_offer ck env i s =
     (let sub = ss_objs s ! i in
      if sub_closed sub then s
      else (case put_nowait (QEvent env) (sub_queue sub) of
              Some q \<Rightarrow> s\<lparr>ss_objs := (ss_objs s)[i := sub\<lparr>sub_queue := q\<rparr>]\<rparr>
            | None \<Rightarrow> ss_evict_slow ck i s))"

definition ss_fanout :: "clocks \<Rightarrow> envelope \<Rightarrow> session_stream \<Rightarrow> session_stream" where
  "ss_fanout ck env s = fold (ss_offer ck env) (ss_subscribers s) s"

datatype ss_result = SSPublished envelope | SSDropped schema_error | SSRaised py_exc

definition ss_publish ::
  "clocks \<Rightarrow> pystr \<Rightarrow> payload \<Rightarrow> int \<Rightarrow> session_stream \<Rightarrow> ss_result \<times> session_stream" where
  "ss_publish ck ty payload version s =
     (let s1 = s\<lparr>ss_next_id := Suc (ss_next_id s)\<rparr>;
          env = \<lparr>ev_type = ty, ev_version = version, ev_id = str_of_nat (ss_next_id s1),
                 ev_ts = ck_ts ck 0, ev_agent_id = ss_agent_id s, ev_payload = payload\<rparr>
      in case validate_envelope (to_dict env) of
           VRaise x \<Rightarrow> (SSRaised x, s1)
         | VErr e \<Rightarrow> (SSDropped e, s1\<lparr>ss_next_id := ss_next_id s1 - 1\<rparr>)
         | VOk \<Rightarrow>
             (SSPublished env,
              ss_fanout ck env
                (s1\<lparr>ss_ring := ring_append (ss_ring_max s1) (ss_ring s1) env,
                    ss_last_activity := ck_mono ck 0\<rparr>)))"

definition publish_chunk ::
  "clocks \<Rightarrow> pystr \<Rightarrow> int \<Rightarrow> pystr \<Rightarrow> bool \<Rightarrow> session_stream \<Rightarrow> ss_result \<times> session_stream" where
  "publish_chunk ck role seq content final s =
     ss_publish ck ''conversation.chunk''
       [(''session_id_hash'', PStr (ss_session_hash s)), (''role'', PStr role),
        (''seq'', PInt seq), (''content'', PStr content), (''final'', PBool final)] 1 s"

definition next_turn_seq :: "session_stream \<Rightarrow> nat \<times> session_stream" where
  "next_turn_seq s = (ss_turn_seq s, s\<lparr>ss_turn_seq := Suc (ss_turn_seq s)\<rparr>)"

definition reset_turn_seq :: "session_stream \<Rightarrow> session_stream" where
  "reset_turn_seq s = s\<lparr>ss_turn_seq := 0\<rparr>"

definition ss_replay_from :: "pystr option \<Rightarrow> session_stream \<Rightarrow> envelope list" where
  "ss_replay_from last_id s = replay_ring_from (ss_ring s) last_id"

definition is_idle_past :: "int \<Rightarrow> int \<Rightarrow> session_stream \<Rightarrow> bool \<times> session_stream" where
  "is_idle_past now grace s =
     (if ss_subscribers s \<noteq> [] then (False, s)
      else (case ss_idle_since s of
              None \<Rightarrow> (False, s\<lparr>ss_idle_since := Some now\<rparr>)
            | Some t \<Rightarrow> (now - t \<ge> grace \<and> now - ss_last_activity s \<ge> grace, s)))"

text \<open>The teardown of every attached subscriber when a broadcaster leaves the registry; the
  sweeper and the cap eviction differ only in the reason text.\<close>

definition ss_teardown_sub :: "clocks \<Rightarrow> pystr \<Rightarrow> nat \<Rightarrow> session_stream \<Rightarrow> session_stream" where
  "ss_teardown_sub ck reason i s =
     (let sub = ss_objs s ! i;
          s1 = s\<lparr>ss_next_id := Suc (ss_next_id s)\<rparr>;
          overrun = ss_overrun s1 (ck_ts ck (Suc i)) (qsize (sub_queue sub)) reason;
          q1 = put_best_effort (QEvent overrun) (sub_queue sub);
          q2 = put_best_effort OVERRUN_SENTINEL q1
      in s1\<lparr>ss_objs := (ss_objs s1)[i := \<lparr>sub_queue = q2, sub_closed = True\<rparr>],
            ss_subscribers := removeAll i (ss_subscribers s1)\<rparr>)"

definition ss_teardown :: "clocks \<Rightarrow> pystr \<Rightarrow> session_stream \<Rightarrow> session_stream" where
  "ss_teardown ck reason s = fold (ss_teardown_sub ck reason) (ss_subscribers s) s"

section \<open>The registry\<close>

record registry =
  reg_heap :: "session_stream list"
  reg_map :: "(pystr \<times> nat) list"

record reg_config =
  rc_max :: int
  rc_queue_max :: int
  rc_ring_max :: int

definition REGISTRY_MAX :: "reg_config \<Rightarrow> nat" where
  "REGISTRY_MAX cfg = nat (max 1 (rc_max cfg))"

definition empty_registry :: registry where
  "empty_registry = \<lparr>reg_heap = [], reg_map = []\<rparr>"

definition reg_update :: "nat \<Rightarrow> (session_stream \<Rightarrow> session_stream) \<Rightarrow> registry \<Rightarrow> registry" where
  "reg_update r f g = g\<lparr>reg_heap := (reg_heap g)[r := f (reg_heap g ! r)]\<rparr>"

definition evict_oldest_broadcaster :: "clocks \<Rightarrow> registry \<Rightarrow> registry" where
  "evict_oldest_broadcaster ck g =
     (case reg_map g of
        [] \<Rightarrow> g
      | (sid, r) # _ \<Rightarrow>
          (reg_update r (ss_teardown ck ''broadcaster evicted by registry-cap LRU'') g)
            \<lparr>reg_map := dict_pop sid (reg_map g)\<rparr>)"

text \<open>\<open>get_session_stream\<close> returns a reference, \<^const>\<open>None\<close> for an unknown session with
  \<open>create=False\<close>.\<close>

definition get_session_stream ::
  "reg_config \<Rightarrow> (pystr \<Rightarrow> pystr) \<Rightarrow> clocks \<Rightarrow> pystr \<Rightarrow> pystr option \<Rightarrow> bool \<Rightarrow> registry
   \<Rightarrow> nat option \<times> registry" where
  "get_session_stream cfg sha ck sid agent_id create g =
     (case dict_get (reg_map g) sid of
        Some r \<Rightarrow> (Some r, g)
      | None \<Rightarrow>
          if \<not> create then (None, g)
          else
            (let g1 = (if length (reg_map g) \<ge> REGISTRY_MAX cfg
                       then evict_oldest_broadcaster ck g else g);
                 r = length (reg_heap g1);
                 s = init_session_stream sha sid (rc_queue_max cfg) (rc_ring_max cfg) agent_id
                       (ck_mono ck 0) (ck_mono ck 1)
             in (Some r, g1\<lparr>reg_heap := reg_heap g1 @ [s], reg_map := dict_set sid r (reg_map g1)\<rparr>)))"

definition drop_session_stream :: "pystr \<Rightarrow> registry \<Rightarrow> registry" where
  "drop_session_stream sid g = g\<lparr>reg_map := dict_pop sid (reg_map g)\<rparr>"

text \<open>The two loops of \<open>sweep_idle_streams\<close>: find the idle sessions (\<open>now\<close> gives the clock
  reading made for each session), then tear them down and drop them.\<close>

fun find_idle :: "(pystr \<Rightarrow> int) \<Rightarrow> int \<Rightarrow> (pystr \<times> nat) list \<Rightarrow> registry \<Rightarrow> pystr list \<times> registry" where
  "find_idle now grace [] g = ([], g)"
| "find_idle now grace ((sid, r) # items) g =
     (case is_idle_past (now sid) grace (reg_heap g ! r) of
        (idle, s') \<Rightarrow>
          (case find_idle now grace items (reg_update r (\<lambda>_. s') g) of
             (dropped, g') \<Rightarrow> (if idle then sid # dropped else dropped, g')))"

definition sweep_one :: "clocks \<Rightarrow> pystr \<Rightarrow> registry \<Rightarrow> registry" where
  "sweep_one ck sid g =
     (let g1 = (case dict_get (reg_map g) sid of
                  None \<Rightarrow> g
                | Some r \<Rightarrow>
                    reg_update r (ss_teardown ck ''broadcaster swept while subscriber attached'') g)
      in g1\<lparr>reg_map := dict_pop sid (reg_map g1)\<rparr>)"

definition sweep_idle_streams ::
  "clocks \<Rightarrow> (pystr \<Rightarrow> int) \<Rightarrow> int \<Rightarrow> registry \<Rightarrow> nat \<times> registry" where
  "sweep_idle_streams ck now grace g =
     (case find_idle now grace (reg_map g) g of
        (dropped, g') \<Rightarrow> (length dropped, fold (sweep_one ck) dropped g'))"

definition registry_size :: "registry \<Rightarrow> nat" where
  "registry_size g = length (reg_map g)"

section \<open>The route\<close>

record sse_request =
  rq_authorization :: pystr
  rq_session_id :: pystr
  rq_last_event_id :: "pystr option"

record sse_state =
  sse_registry :: registry
  sse_counts :: "(pystr \<times> int) list"

record sse_token =
  tok_fp :: pystr
  tok_released :: bool

datatype sse_reply =
    SseError int pystr
  | SseRaise py_exc
  | SseStream nat "envelope list" sse_token

definition caller_fp :: "(pystr \<Rightarrow> pystr) \<Rightarrow> pystr \<Rightarrow> pystr" where
  "caller_fp sha header = take 16 (sha (take 128 header))"

definition count_of :: "(pystr \<times> int) list \<Rightarrow> pystr \<Rightarrow> int" where
  "count_of counts fp = (case dict_get counts fp of None \<Rightarrow> 0 | Some n \<Rightarrow> n)"

definition sse_auth :: "pystr \<Rightarrow> bool \<Rightarrow> pystr \<Rightarrow> sse_reply option" where
  "sse_auth auth_token escape_hatch header =
     (if auth_token = [] then
        (if escape_hatch then None else Some (SseError 503 ''auth not configured''))
      else (case compare_digest (''Bearer '' @ auth_token) header of
              None \<Rightarrow> Some (SseRaise TypeError)
            | Some ok \<Rightarrow> if ok then None else Some (SseError 401 ''unauthorized'')))"

definition sse_handler ::
  "reg_config \<Rightarrow> (pystr \<Rightarrow> pystr) \<Rightarrow> clocks \<Rightarrow> pystr \<Rightarrow> bool \<Rightarrow> pystr option \<Rightarrow> int
   \<Rightarrow> sse_request \<Rightarrow> sse_state \<Rightarrow> sse_reply \<times> sse_state" where
  "sse_handler cfg sha ck auth_token escape_hatch agent_id max_per_caller rq st =
     (case sse_auth auth_token escape_hatch (rq_authorization rq) of
        Some err \<Rightarrow> (err, st)
      | None \<Rightarrow>
          if rq_session_id rq = [] then (SseError 400 ''missing session_id'', st)
          else
            (let cap = max 0 max_per_caller;
                 fp = caller_fp sha (rq_authorization rq);
                 cur = count_of (sse_counts st) fp
             in if cap > 0 \<and> cur \<ge> cap
                then (SseError 429 ''too many concurrent streams for this caller'', st)
                else
                  (let counts = (if cap > 0 then dict_set fp (cur + 1) (sse_counts st)
                                 else sse_counts st)
                   in case get_session_stream cfg sha ck (rq_session_id rq) agent_id True
                             (sse_registry st) of
                        (None, g) \<Rightarrow> (SseRaise TypeError, st)
                      | (Some r, g) \<Rightarrow>
                          (SseStream r
                             (case rq_last_event_id rq of
                                None \<Rightarrow> []
                              | Some l \<Rightarrow> if l = [] then [] else ss_replay_from (Some l) (reg_heap g ! r))
                             \<lparr>tok_fp = fp, tok_released = False\<rparr>,
                           \<lparr>sse_registry = g, sse_counts = counts\<rparr>))))"

text \<open>\<open>_release_slot\<close>: the body generator and the background task both call it, the flag makes
  the second call a no-op.\<close>

definition release_slot ::
  "int \<Rightarrow> sse_token \<Rightarrow> (pystr \<times> int) list \<Rightarrow> sse_token \<times> (pystr \<times> int) list" where
  "release_slot max_per_caller tok counts =
     (if max 0 max_per_caller \<le> 0 then (tok, counts)
      else if tok_released tok then (tok, counts)
      else (tok\<lparr>tok_released := True\<rparr>,
            let cur = count_of counts (tok_fp tok)
            in if cur \<le> 1 then dict_pop (tok_fp tok) counts
               else dict_set (tok_fp tok) (cur - 1) counts))"

section \<open>The invariant of a broadcaster\<close>

definition ss_sub_wf :: "int \<Rightarrow> subscriber \<Rightarrow> bool" where
  "ss_sub_wf m sub =
     (queue_wf (sub_queue sub) \<and> aq_maxsize (sub_queue sub) = m \<and>
      (\<not> sub_closed sub \<longrightarrow> OVERRUN_SENTINEL \<notin> set (aq_items (sub_queue sub))))"

definition stream_inv :: "session_stream \<Rightarrow> bool" where
  "stream_inv s =
     (ss_queue_max s \<ge> 1 \<and> ss_ring_max s \<ge> 1 \<and>
      length (ss_ring s) \<le> ss_ring_max s \<and> ring_ok (ss_ring s) (ss_next_id s) \<and>
      distinct (ss_subscribers s) \<and>
      (\<forall>i\<in>set (ss_subscribers s). i < length (ss_objs s) \<and> \<not> sub_closed (ss_objs s ! i)) \<and>
      (\<forall>sub\<in>set (ss_objs s). ss_sub_wf (ss_queue_max s) sub))"

text \<open>A broadcaster with no subscriber is on the idle clock.\<close>

definition idle_clock_ok :: "session_stream \<Rightarrow> bool" where
  "idle_clock_ok s = (ss_subscribers s = [] \<longrightarrow> ss_idle_since s \<noteq> None)"

definition ss_same :: "session_stream \<Rightarrow> session_stream \<Rightarrow> bool" where
  "ss_same s t = (ss_session_id t = ss_session_id s \<and> ss_session_hash t = ss_session_hash s \<and>
     ss_queue_max t = ss_queue_max s \<and> ss_ring_max t = ss_ring_max s \<and> ss_agent_id t = ss_agent_id s)"

lemma ss_same_refl [simp]: "ss_same s s"
  by (simp add: ss_same_def)

lemma ss_same_trans [trans]: "ss_same s t \<Longrightarrow> ss_same t u \<Longrightarrow> ss_same s u"
  by (simp add: ss_same_def)

lemma set_list_updateD: "x \<in> set (xs[i := y]) \<Longrightarrow> x = y \<or> x \<in> set xs"
  by (meson insertE set_update_subset_insert subsetD)

lemma stream_inv_objs_update:
  assumes "stream_inv s" "i < length (ss_objs s)" "ss_sub_wf (ss_queue_max s) sub"
    and "sub_closed sub \<Longrightarrow> i \<notin> set subs" and "set subs \<subseteq> set (ss_subscribers s)" "distinct subs"
    and "ss_next_id s \<le> n"
  shows "stream_inv (s\<lparr>ss_objs := (ss_objs s)[i := sub], ss_subscribers := subs, ss_next_id := n\<rparr>)"
  using assms
  by (auto simp: stream_inv_def nth_list_update dest!: set_list_updateD intro: ring_ok_mono)

lemma init_stream_inv: "stream_inv (init_session_stream sha sid qm rm ag t u)"
  by (simp add: stream_inv_def init_session_stream_def)

lemma init_idle_clock: "idle_clock_ok (init_session_stream sha sid qm rm ag t u)"
  by (simp add: idle_clock_ok_def init_session_stream_def)

lemma ss_subscribe_ok:
  "stream_inv s \<Longrightarrow> stream_inv (snd (ss_subscribe s))"
  "idle_clock_ok (snd (ss_subscribe s))" "ss_same s (snd (ss_subscribe s))"
  by (auto simp: stream_inv_def ss_subscribe_def Let_def new_subscriber_def ss_sub_wf_def
      nth_append idle_clock_ok_def ss_same_def)

lemma ss_remove_ok:
  "stream_inv s \<Longrightarrow> stream_inv (ss_remove_subscriber now i s)"
  "idle_clock_ok s \<Longrightarrow> idle_clock_ok (ss_remove_subscriber now i s)"
  "ss_same s (ss_remove_subscriber now i s)"
  by (auto simp: stream_inv_def ss_remove_subscriber_def Let_def distinct_removeAll
      idle_clock_ok_def ss_same_def)

lemma ss_consume_ok:
  assumes "i < length (ss_objs s)"
  shows "stream_inv s \<Longrightarrow> stream_inv (snd (ss_consume i s))"
    and "idle_clock_ok s \<Longrightarrow> idle_clock_ok (snd (ss_consume i s))"
    and "ss_same s (snd (ss_consume i s))"
proof -
  show "stream_inv (snd (ss_consume i s))" if inv: "stream_inv s"
  proof (cases "get_nowait (sub_queue (ss_objs s ! i))")
    case None
    with inv show ?thesis by (simp add: ss_consume_def)
  next
    case (Some xq)
    obtain x q where xq: "xq = (x, q)" by (cases xq)
    let ?sub = "ss_objs s ! i"
    have wf: "ss_sub_wf (ss_queue_max s) ?sub" using inv assms by (auto simp: stream_inv_def)
    moreover have "queue_wf q"
      using get_nowait_wf [of "sub_queue ?sub" x q] wf Some xq by (simp add: ss_sub_wf_def)
    ultimately have "ss_sub_wf (ss_queue_max s) (?sub\<lparr>sub_queue := q\<rparr>)"
      using Some xq by (auto simp: ss_sub_wf_def get_nowait_def split: list.splits)
    from stream_inv_objs_update [OF inv assms this, of "ss_subscribers s" "ss_next_id s"] inv Some xq
    show ?thesis by (auto simp: ss_consume_def stream_inv_def)
  qed
qed (auto simp: ss_consume_def idle_clock_ok_def ss_same_def split: option.splits)

text \<open>Evicting a subscriber whose queue is full, and any other closing, as one update.\<close>

lemma put_best_effort_sub_wf:
  "queue_wf q \<Longrightarrow> aq_maxsize q = m \<Longrightarrow>
   ss_sub_wf m \<lparr>sub_queue = put_best_effort a (put_best_effort b q), sub_closed = True\<rparr>"
  by (auto simp: ss_sub_wf_def)

lemma removeAll_facts: "set (removeAll i xs) \<subseteq> set xs" "i \<notin> set (removeAll i xs)"
  by auto

lemma ss_offer_ok:
  assumes "stream_inv s" "i < length (ss_objs s)"
  shows "stream_inv (ss_offer ck env i s)"
proof -
  let ?sub = "ss_objs s ! i"
  have wf: "ss_sub_wf (ss_queue_max s) ?sub" and d: "distinct (ss_subscribers s)"
    using assms by (auto simp: stream_inv_def)
  consider (closed) "sub_closed ?sub" | (room) "\<not> sub_closed ?sub" "\<not> queue_full (sub_queue ?sub)"
    | (full) "\<not> sub_closed ?sub" "queue_full (sub_queue ?sub)" by blast
  then show ?thesis
  proof cases
    case closed
    with assms show ?thesis by (simp add: ss_offer_def)
  next
    case room
    let ?q = "(sub_queue ?sub)\<lparr>aq_items := aq_items (sub_queue ?sub) @ [QEvent env]\<rparr>"
    have "ss_sub_wf (ss_queue_max s) (?sub\<lparr>sub_queue := ?q\<rparr>)"
      using wf room by (auto simp: ss_sub_wf_def queue_wf_def queue_full_def qsize_def)
    from stream_inv_objs_update [OF assms this, of "ss_subscribers s" "ss_next_id s"] room d
    show ?thesis by (simp add: ss_offer_def put_nowait_def Let_def)
  next
    case full
    define ov where "ov = ss_overrun (s\<lparr>ss_next_id := Suc (ss_next_id s)\<rparr>) (ck_ts ck (Suc i))
      (qsize (sub_queue ?sub)) ''subscriber queue full; evicted''"
    let ?sub' = "\<lparr>sub_queue = put_best_effort OVERRUN_SENTINEL (put_best_effort (QEvent ov)
        (drop_one (sub_queue ?sub))), sub_closed = True\<rparr>"
    let ?t = "s\<lparr>ss_objs := (ss_objs s)[i := ?sub'],
      ss_subscribers := removeAll i (ss_subscribers s), ss_next_id := Suc (ss_next_id s)\<rparr>"
    have "ss_sub_wf (ss_queue_max s) ?sub'"
      using wf by (intro put_best_effort_sub_wf) (auto simp: ss_sub_wf_def)
    from stream_inv_objs_update [OF assms this _ removeAll_facts(1)] d
    have t: "stream_inv ?t" by (simp add: distinct_removeAll)
    have "ss_offer ck env i s = ?t \<or> ss_offer ck env i s = ?t\<lparr>ss_idle_since := Some (ck_mono ck (Suc i))\<rparr>"
      using full by (auto simp: ss_offer_def put_nowait_def ss_evict_slow_def ov_def Let_def
          ss_remove_subscriber_def)
    with t show ?thesis by (auto simp: stream_inv_def)
  qed
qed

lemma ss_offer_frame:
  "ss_same s (ss_offer ck env i s)" "length (ss_objs (ss_offer ck env i s)) = length (ss_objs s)"
  "ss_ring (ss_offer ck env i s) = ss_ring s" "ss_next_id s \<le> ss_next_id (ss_offer ck env i s)"
  "idle_clock_ok s \<Longrightarrow> idle_clock_ok (ss_offer ck env i s)"
  "ss_last_activity (ss_offer ck env i s) = ss_last_activity s"
  by (auto simp: ss_offer_def ss_evict_slow_def ss_remove_subscriber_def ss_same_def Let_def
      idle_clock_ok_def split: option.splits)

lemma ss_fold_offer:
  assumes "\<And>i. i \<in> set is \<Longrightarrow> i < length (ss_objs s)"
  shows "(stream_inv s \<longrightarrow> stream_inv (fold (ss_offer ck env) is s)) \<and>
    ss_same s (fold (ss_offer ck env) is s) \<and> ss_ring (fold (ss_offer ck env) is s) = ss_ring s \<and>
    ss_next_id s \<le> ss_next_id (fold (ss_offer ck env) is s) \<and>
    (idle_clock_ok s \<longrightarrow> idle_clock_ok (fold (ss_offer ck env) is s))"
  using assms
proof (induction "is" arbitrary: s)
  case Nil
  then show ?case by simp
next
  case (Cons i "is")
  let ?t = "ss_offer ck env i s"
  note frame = ss_offer_frame [where s = s and ck = ck and env = env and i = i]
  have i: "i < length (ss_objs s)" and t: "\<And>j. j \<in> set is \<Longrightarrow> j < length (ss_objs ?t)"
    using Cons.prems by (auto simp: frame)
  show ?case
    using Cons.IH [OF t] frame ss_offer_ok [OF _ i]
    by (auto intro: ss_same_trans le_trans)
qed

text \<open>Publishing: an accepted envelope goes to the ring and to every subscriber, a refused one
  leaves the broadcaster as it was.\<close>

lemma ss_publish_dropped:
  "ss_publish ck ty p v s = (SSDropped e, t) \<Longrightarrow> t = s"
  by (auto simp: ss_publish_def Let_def split: verdict.splits)

lemma ss_publish_raised:
  "ss_publish ck ty p v s = (SSRaised x, t) \<Longrightarrow> t = s\<lparr>ss_next_id := Suc (ss_next_id s)\<rparr>"
  by (auto simp: ss_publish_def Let_def split: verdict.splits)

definition ss_accepted :: "clocks \<Rightarrow> envelope \<Rightarrow> session_stream \<Rightarrow> session_stream" where
  "ss_accepted ck env s =
     s\<lparr>ss_next_id := Suc (ss_next_id s), ss_ring := ring_append (ss_ring_max s) (ss_ring s) env,
       ss_last_activity := ck_mono ck 0\<rparr>"

lemma ss_publish_published:
  assumes "ss_publish ck ty p v s = (SSPublished env, t)"
  shows "ev_id env = str_of_nat (Suc (ss_next_id s))" and "ev_type env = ty" and "ev_payload env = p"
    and "t = fold (ss_offer ck env) (ss_subscribers s) (ss_accepted ck env s)"
    and "validate_envelope (to_dict env) = VOk"
  using assms by (auto simp: ss_publish_def ss_accepted_def ss_fanout_def Let_def split: verdict.splits)

lemma ss_accepted_inv:
  assumes "stream_inv s" "ev_id env = str_of_nat (Suc (ss_next_id s))"
  shows "stream_inv (ss_accepted ck env s)"
proof -
  have "ring_ok (ring_append (ss_ring_max s) (ss_ring s) env) (Suc (ss_next_id s))"
    using assms by (intro ring_ok_append [of _ "ss_next_id s" _ "Suc (ss_next_id s)"])
      (auto simp: stream_inv_def)
  with assms(1) show ?thesis
    by (simp add: stream_inv_def ss_accepted_def ring_append_def take_last_length)
qed

lemma ss_publish_ok:
  assumes "stream_inv s" "ss_publish ck ty p v s = (SSPublished env, t)"
  shows "stream_inv t" and "ss_same s t" and "idle_clock_ok s \<Longrightarrow> idle_clock_ok t"
    and "ss_ring t = ring_append (ss_ring_max s) (ss_ring s) env"
    and "Suc (ss_next_id s) \<le> ss_next_id t"
proof -
  note pub = ss_publish_published [OF assms(2)]
  let ?u = "ss_accepted ck env s"
  have len: "\<And>i. i \<in> set (ss_subscribers s) \<Longrightarrow> i < length (ss_objs ?u)"
    using assms(1) by (auto simp: stream_inv_def ss_accepted_def)
  note f = ss_fold_offer [of "ss_subscribers s", OF len, where ck = ck and env = env, folded pub(4)]
  from f ss_accepted_inv [OF assms(1) pub(1)] show "stream_inv t" by simp
  from f show "ss_same s t" by (simp add: ss_accepted_def ss_same_def)
  from f show "idle_clock_ok s \<Longrightarrow> idle_clock_ok t" by (simp add: ss_accepted_def idle_clock_ok_def)
  from f show "ss_ring t = ring_append (ss_ring_max s) (ss_ring s) env" by (simp add: ss_accepted_def)
  from f show "Suc (ss_next_id s) \<le> ss_next_id t" by (simp add: ss_accepted_def)
qed

text \<open>Tearing a broadcaster down closes every subscriber that was attached.\<close>

lemma ss_teardown_sub_ok:
  assumes "stream_inv s" "i < length (ss_objs s)"
  shows "stream_inv (ss_teardown_sub ck why i s)"
proof -
  let ?sub = "ss_objs s ! i"
  define ov where "ov = ss_overrun (s\<lparr>ss_next_id := Suc (ss_next_id s)\<rparr>) (ck_ts ck (Suc i))
    (qsize (sub_queue ?sub)) why"
  have wf: "ss_sub_wf (ss_queue_max s) ?sub" and d: "distinct (ss_subscribers s)"
    using assms by (auto simp: stream_inv_def)
  have "ss_sub_wf (ss_queue_max s) \<lparr>sub_queue = put_best_effort OVERRUN_SENTINEL
      (put_best_effort (QEvent ov) (sub_queue ?sub)), sub_closed = True\<rparr>"
    using wf by (intro put_best_effort_sub_wf) (auto simp: ss_sub_wf_def)
  from stream_inv_objs_update [OF assms this _ removeAll_facts(1), of i "Suc (ss_next_id s)"] d
  show ?thesis by (simp add: ss_teardown_sub_def ov_def Let_def distinct_removeAll stream_inv_def)
qed

lemma ss_teardown_sub_frame:
  "ss_same s (ss_teardown_sub ck why i s)"
  "length (ss_objs (ss_teardown_sub ck why i s)) = length (ss_objs s)"
  "ss_ring (ss_teardown_sub ck why i s) = ss_ring s"
  "ss_next_id (ss_teardown_sub ck why i s) = Suc (ss_next_id s)"
  "ss_subscribers (ss_teardown_sub ck why i s) = removeAll i (ss_subscribers s)"
  "j \<noteq> i \<Longrightarrow> ss_objs (ss_teardown_sub ck why i s) ! j = ss_objs s ! j"
  by (simp_all add: ss_teardown_sub_def ss_same_def Let_def)

definition closed_off :: "subscriber \<Rightarrow> bool" where
  "closed_off sub = (sub_closed sub \<and> aq_items (sub_queue sub) \<noteq> [])"

lemma ss_teardown_sub_closes:
  assumes "stream_inv s" "i < length (ss_objs s)"
  shows "closed_off (ss_objs (ss_teardown_sub ck why i s) ! i)"
proof -
  have "queue_wf (sub_queue (ss_objs s ! i))" "aq_maxsize (sub_queue (ss_objs s ! i)) \<ge> 1"
    using assms by (auto simp: stream_inv_def ss_sub_wf_def)
  then have "aq_items (put_best_effort x (sub_queue (ss_objs s ! i))) \<noteq> []" for x
    by (auto simp: put_best_effort_items queue_full_def qsize_def)
  with assms(2) show ?thesis
    by (auto simp: closed_off_def ss_teardown_sub_def Let_def put_best_effort_items [of OVERRUN_SENTINEL])
qed

lemma ss_fold_teardown:
  fixes ck why s
  assumes "stream_inv s" "\<And>i. i \<in> set is \<Longrightarrow> i < length (ss_objs s)"
  defines "t \<equiv> fold (ss_teardown_sub ck why) is s"
  shows "stream_inv t \<and> ss_same s t \<and> ss_ring t = ss_ring s \<and> ss_next_id t = ss_next_id s + length is \<and>
    set (ss_subscribers t) = set (ss_subscribers s) - set is \<and> length (ss_objs t) = length (ss_objs s) \<and>
    (\<forall>j. (j \<in> set is \<longrightarrow> closed_off (ss_objs t ! j)) \<and> (j \<notin> set is \<longrightarrow> ss_objs t ! j = ss_objs s ! j))"
  using assms(1,2) unfolding t_def
proof (induction "is" arbitrary: s rule: list.induct)
  case Nil
  then show ?case by simp
next
  case (Cons i "is")
  let ?u = "ss_teardown_sub ck why i s"
  note frame = ss_teardown_sub_frame [where s = s and ck = ck and why = why and i = i]
  have i: "i < length (ss_objs s)" and len: "\<And>j. j \<in> set is \<Longrightarrow> j < length (ss_objs ?u)"
    using Cons.prems by (auto simp: frame)
  note ih = Cons.IH [OF ss_teardown_sub_ok [OF Cons.prems(1) i] len]
  have "closed_off (ss_objs ?u ! i)" using ss_teardown_sub_closes [OF Cons.prems(1) i] .
  with ih frame show ?case by (cases "i \<in> set is") (auto intro: ss_same_trans)
qed

lemma ss_teardown_ok:
  assumes "stream_inv s"
  shows "stream_inv (ss_teardown ck why s)" and "ss_same s (ss_teardown ck why s)"
    and "ss_ring (ss_teardown ck why s) = ss_ring s"
    and "ss_next_id (ss_teardown ck why s) = ss_next_id s + length (ss_subscribers s)"
    and "ss_subscribers (ss_teardown ck why s) = []"
    and "i \<in> set (ss_subscribers s) \<Longrightarrow> closed_off (ss_objs (ss_teardown ck why s) ! i)"
    and "i \<notin> set (ss_subscribers s) \<Longrightarrow> ss_objs (ss_teardown ck why s) ! i = ss_objs s ! i"
  using ss_fold_teardown [OF assms, of "ss_subscribers s" ck why] assms
  by (auto simp: ss_teardown_def stream_inv_def)

section \<open>Runs of one broadcaster\<close>

inductive ss_op :: "session_stream \<Rightarrow> session_stream \<Rightarrow> bool" where
  op_subscribe: "ss_op s (snd (ss_subscribe s))"
| op_consume: "i < length (ss_objs s) \<Longrightarrow> ss_op s (snd (ss_consume i s))"
| op_remove: "ss_op s (ss_remove_subscriber now i s)"
| op_next_seq: "ss_op s (snd (next_turn_seq s))"
| op_reset_seq: "ss_op s (reset_turn_seq s)"
| op_idle: "ss_op s (snd (is_idle_past now grace s))"
| op_dropped: "ss_publish ck ty p v s = (SSDropped e, t) \<Longrightarrow> ss_op s t"
| op_raised: "ss_publish ck ty p v s = (SSRaised x, t) \<Longrightarrow> ss_op s t"

definition ss_accept :: "session_stream \<Rightarrow> envelope \<Rightarrow> session_stream \<Rightarrow> bool" where
  "ss_accept s e t = (\<exists>ck ty p v. ss_publish ck ty p v s = (SSPublished e, t))"

definition ss_quiet :: "session_stream \<Rightarrow> session_stream \<Rightarrow> bool" where
  "ss_quiet s t = (ss_op s t \<or> (\<exists>ck why. t = ss_teardown ck why s))"

lemma is_idle_past_ok:
  "stream_inv s \<Longrightarrow> stream_inv (snd (is_idle_past now grace s))"
  "idle_clock_ok (snd (is_idle_past now grace s))"
  "ss_same s (snd (is_idle_past now grace s))"
  by (auto simp: is_idle_past_def stream_inv_def idle_clock_ok_def ss_same_def split: option.splits)

lemma ss_op_frame:
  assumes "ss_op s t"
  shows "ss_same s t" and "ss_ring t = ss_ring s" and "ss_next_id s \<le> ss_next_id t"
  using assms
  by (auto elim!: ss_op.cases simp: ss_subscribe_def ss_consume_def ss_remove_subscriber_def
      next_turn_seq_def reset_turn_seq_def is_idle_past_def Let_def ss_same_def
      dest!: ss_publish_dropped ss_publish_raised split: option.splits)

lemma stream_inv_next_id: "stream_inv s \<Longrightarrow> ss_next_id s \<le> n \<Longrightarrow> stream_inv (s\<lparr>ss_next_id := n\<rparr>)"
  by (auto simp: stream_inv_def intro: ring_ok_mono)

lemma ss_op_ok:
  assumes "ss_op s t"
  shows "(stream_inv s \<longrightarrow> stream_inv t) \<and> (idle_clock_ok s \<longrightarrow> idle_clock_ok t)"
  using assms
proof cases
  case (op_raised ck ty p v x)
  then have "t = s\<lparr>ss_next_id := Suc (ss_next_id s)\<rparr>" by (auto dest: ss_publish_raised)
  then show ?thesis using stream_inv_next_id [of s "Suc (ss_next_id s)"]
    by (simp add: idle_clock_ok_def)
next
  case op_next_seq
  then show ?thesis by (simp add: next_turn_seq_def stream_inv_def idle_clock_ok_def)
next
  case op_reset_seq
  then show ?thesis by (simp add: reset_turn_seq_def stream_inv_def idle_clock_ok_def)
qed (auto simp: ss_subscribe_ok ss_consume_ok ss_remove_ok is_idle_past_ok dest: ss_publish_dropped)

lemma ss_quiet_ok:
  assumes "stream_inv s" "ss_quiet s t"
  shows "stream_inv t" "ss_ring t = ss_ring s" "ss_ring_max t = ss_ring_max s" "ss_next_id s \<le> ss_next_id t"
  using assms ss_op_ok ss_op_frame ss_teardown_ok [OF assms(1)]
  by (fastforce simp: ss_quiet_def ss_same_def)+

interpretation ss: event_ring ss_ring ss_next_id ss_ring_max stream_inv ss_accept ss_quiet
proof unfold_locales
  fix s t e
  assume "stream_inv s" "ss_accept s e t"
  then show "stream_inv t" "ss_ring t = ring_append (ss_ring_max s) (ss_ring s) e"
    "ss_ring_max t = ss_ring_max s"
    "ev_id e = str_of_nat (Suc (ss_next_id s)) \<and> Suc (ss_next_id s) \<le> ss_next_id t"
    by (auto simp: ss_accept_def ss_publish_ok(1,4,5) ss_publish_published(1)
        dest: ss_publish_ok(2) simp: ss_same_def)
qed (auto simp: ss_quiet_ok, simp_all add: stream_inv_def)

section \<open>The registry\<close>

text \<open>The registry maps a session to a live broadcaster of that session; every broadcaster,
  dropped ones included, keeps its own invariant.\<close>

definition reg_inv :: "reg_config \<Rightarrow> registry \<Rightarrow> bool" where
  "reg_inv cfg g =
     (dict_wf (reg_map g) \<and> length (reg_map g) \<le> REGISTRY_MAX cfg \<and>
      (\<forall>(sid, r)\<in>set (reg_map g). r < length (reg_heap g) \<and> ss_session_id (reg_heap g ! r) = sid \<and>
         idle_clock_ok (reg_heap g ! r)) \<and>
      (\<forall>s\<in>set (reg_heap g). stream_inv s))"

inductive reg_step :: "reg_config \<Rightarrow> (pystr \<Rightarrow> pystr) \<Rightarrow> registry \<Rightarrow> registry \<Rightarrow> bool" for cfg sha where
  step_get: "reg_step cfg sha g (snd (get_session_stream cfg sha ck sid agent create g))"
| step_drop: "reg_step cfg sha g (drop_session_stream sid g)"
| step_sweep: "reg_step cfg sha g (snd (sweep_idle_streams ck now grace g))"
| step_op: "r < length (reg_heap g) \<Longrightarrow> ss_op (reg_heap g ! r) t \<or> (\<exists>e. ss_accept (reg_heap g ! r) e t)
    \<Longrightarrow> reg_step cfg sha g (reg_update r (\<lambda>_. t) g)"

lemma reg_update_heap [simp]:
  "reg_heap (reg_update r f g) = (reg_heap g)[r := f (reg_heap g ! r)]"
  "reg_map (reg_update r f g) = reg_map g"
  by (simp_all add: reg_update_def)

lemma reg_inv_update:
  assumes "reg_inv cfg g" "r < length (reg_heap g)" "stream_inv t" "ss_same (reg_heap g ! r) t"
    and "idle_clock_ok (reg_heap g ! r) \<Longrightarrow> idle_clock_ok t"
  shows "reg_inv cfg (reg_update r (\<lambda>_. t) g)"
  using assms
  by (auto simp: reg_inv_def nth_list_update ss_same_def dest!: set_list_updateD split: prod.splits)

lemma reg_inv_own: "reg_inv cfg g \<Longrightarrow> (sid, r) \<in> set (reg_map g) \<Longrightarrow> ss_session_id (reg_heap g ! r) = sid"
  by (auto simp: reg_inv_def)

lemma reg_map_lookup:
  assumes "reg_inv cfg g"
  shows "dict_get (reg_map g) sid = Some r \<longleftrightarrow> (sid, r) \<in> set (reg_map g)"
  using assms by (simp add: reg_inv_def dict_wf_def dict_keys_def map_of_eq_Some_iff)

text \<open>Tearing a registered broadcaster down and dropping it, the common step of the cap eviction
  and of the sweeper.\<close>

definition reg_retire :: "clocks \<Rightarrow> pystr \<Rightarrow> pystr \<Rightarrow> nat \<Rightarrow> registry \<Rightarrow> registry" where
  "reg_retire ck why sid r g =
     (reg_update r (ss_teardown ck why) g)\<lparr>reg_map := dict_pop sid (reg_map g)\<rparr>"

lemma reg_retire_inv:
  assumes "reg_inv cfg g" "(sid, r) \<in> set (reg_map g)"
  shows "reg_inv cfg (reg_retire ck why sid r g)"
proof -
  let ?s = "reg_heap g ! r"
  have r: "r < length (reg_heap g)" "ss_session_id ?s = sid" "stream_inv ?s"
    using assms by (auto simp: reg_inv_def)
  then have t: "stream_inv (ss_teardown ck why ?s)" using ss_teardown_ok by blast
  have other: "r' \<noteq> r" if "(sid', r') \<in> set (reg_map g)" "sid' \<noteq> sid" for sid' r'
    using that assms(1) r(2) by (auto simp: reg_inv_def)
  show ?thesis
    using assms(1) r t le_trans [OF length_dict_pop, of "reg_map g" _ sid]
      dict_wf_pop [of "reg_map g" sid]
    by (auto simp: reg_inv_def reg_retire_def dict_pop_def nth_list_update
        dest!: set_list_updateD dest: other split: prod.splits)
qed

lemma evict_oldest_retire:
  "reg_map g = (sid, r) # m \<Longrightarrow>
   evict_oldest_broadcaster ck g = reg_retire ck ''broadcaster evicted by registry-cap LRU'' sid r g"
  by (simp add: evict_oldest_broadcaster_def reg_retire_def)

lemma evict_oldest_inv:
  assumes "reg_inv cfg g"
  shows "reg_inv cfg (evict_oldest_broadcaster ck g)"
    and "reg_map (evict_oldest_broadcaster ck g) = tl (reg_map g)"
proof -
  have "reg_inv cfg (evict_oldest_broadcaster ck g) \<and>
    reg_map (evict_oldest_broadcaster ck g) = tl (reg_map g)"
  proof (cases "reg_map g")
    case Nil
    with assms show ?thesis by (simp add: evict_oldest_broadcaster_def)
  next
    case (Cons e m)
    obtain sid r where e: "e = (sid, r)" by (cases e)
    with assms Cons have "dict_wf ((sid, r) # m)" by (simp add: reg_inv_def)
    with Cons e assms reg_retire_inv [OF assms, of sid r] show ?thesis
      by (simp add: evict_oldest_retire [of g sid r m] dict_pop_hd reg_retire_def)
  qed
  then show "reg_inv cfg (evict_oldest_broadcaster ck g)"
    "reg_map (evict_oldest_broadcaster ck g) = tl (reg_map g)" by blast+
qed

lemma reg_add_inv:
  assumes "reg_inv cfg g" "length (reg_map g) < REGISTRY_MAX cfg" "\<not> dict_has (reg_map g) (ss_session_id s)"
    and "stream_inv s" "idle_clock_ok s"
  shows "reg_inv cfg (g\<lparr>reg_heap := reg_heap g @ [s],
    reg_map := dict_set (ss_session_id s) (length (reg_heap g)) (reg_map g)\<rparr>)"
  using assms dict_wf_set [of "reg_map g" "ss_session_id s" "length (reg_heap g)"]
  by (auto simp: reg_inv_def dict_set_fresh nth_append split: prod.splits)

lemma not_has_tl: "\<not> dict_has d k \<Longrightarrow> \<not> dict_has (tl d) k"
  by (cases d) (auto simp: dict_has_def split: if_splits)

lemma REGISTRY_MAX_pos: "REGISTRY_MAX cfg \<ge> 1"
  by (simp add: REGISTRY_MAX_def)

lemma init_session_id [simp]: "ss_session_id (init_session_stream sha sid q r a t u) = sid"
  by (simp add: init_session_stream_def)

lemma get_session_stream_cases:
  fixes cfg ck sha ag g sid
  assumes "dict_get (reg_map g) sid = None"
  defines "k \<equiv> (if length (reg_map g) \<ge> REGISTRY_MAX cfg then evict_oldest_broadcaster ck g else g)"
    and "s \<equiv> init_session_stream sha sid (rc_queue_max cfg) (rc_ring_max cfg) ag (ck_mono ck 0) (ck_mono ck 1)"
  shows "get_session_stream cfg sha ck sid ag True g =
    (Some (length (reg_heap k)), k\<lparr>reg_heap := reg_heap k @ [s],
       reg_map := dict_set sid (length (reg_heap k)) (reg_map k)\<rparr>)"
  using assms by (simp add: get_session_stream_def Let_def)

lemma get_session_stream_inv:
  assumes "reg_inv cfg g"
  shows "reg_inv cfg (snd (get_session_stream cfg sha ck sid ag create g))"
proof (cases "dict_get (reg_map g) sid = None \<and> create")
  case False
  with assms show ?thesis by (auto simp: get_session_stream_def split: option.splits)
next
  case True
  let ?s = "init_session_stream sha sid (rc_queue_max cfg) (rc_ring_max cfg) ag (ck_mono ck 0) (ck_mono ck 1)"
  define k where "k = (if length (reg_map g) \<ge> REGISTRY_MAX cfg then evict_oldest_broadcaster ck g else g)"
  have "reg_inv cfg k" using assms evict_oldest_inv by (simp add: k_def)
  moreover have "length (reg_map k) < REGISTRY_MAX cfg"
    using assms evict_oldest_inv(2) [OF assms] REGISTRY_MAX_pos [of cfg] by (auto simp: k_def reg_inv_def)
  moreover have "\<not> dict_has (reg_map k) sid"
    using True not_has_tl evict_oldest_inv(2) [OF assms] by (auto simp: k_def dict_has_def)
  ultimately have "reg_inv cfg (k\<lparr>reg_heap := reg_heap k @ [?s],
      reg_map := dict_set sid (length (reg_heap k)) (reg_map k)\<rparr>)"
    using reg_add_inv [of cfg k ?s] by (simp add: init_stream_inv init_idle_clock)
  with True show ?thesis using get_session_stream_cases [of g sid cfg sha ck ag] by (simp add: k_def)
qed

text \<open>The sweeper. On a registry with running idle clocks, deciding which broadcasters are idle
  changes nothing, and an idle broadcaster has nobody left to tear down.\<close>

definition stream_idle :: "int \<Rightarrow> int \<Rightarrow> session_stream \<Rightarrow> bool" where
  "stream_idle now grace s =
     (ss_subscribers s = [] \<and>
      (case ss_idle_since s of None \<Rightarrow> False | Some t \<Rightarrow> now - t \<ge> grace) \<and>
      now - ss_last_activity s \<ge> grace)"

lemma is_idle_past_pure:
  "idle_clock_ok s \<Longrightarrow> is_idle_past now grace s = (stream_idle now grace s, s)"
  by (auto simp: is_idle_past_def stream_idle_def idle_clock_ok_def split: option.splits)

lemma reg_update_id [simp]: "reg_update r (\<lambda>_. reg_heap g ! r) g = g"
  by (simp add: reg_update_def)

lemma find_idle_pure:
  assumes "\<And>sid r. (sid, r) \<in> set items \<Longrightarrow> idle_clock_ok (reg_heap g ! r)"
  shows "find_idle now grace items g =
    (map fst (filter (\<lambda>(sid, r). stream_idle (now sid) grace (reg_heap g ! r)) items), g)"
  using assms
proof (induction items)
  case (Cons e items)
  obtain sid r where e: "e = (sid, r)" by (cases e)
  have "idle_clock_ok (reg_heap g ! r)" using Cons.prems e by auto
  moreover have "find_idle now grace items g =
    (map fst (filter (\<lambda>(sid, r). stream_idle (now sid) grace (reg_heap g ! r)) items), g)"
    using Cons.IH Cons.prems by auto
  ultimately show ?case using e by (simp add: is_idle_past_pure)
qed simp

lemma ss_teardown_nobody: "ss_subscribers s = [] \<Longrightarrow> ss_teardown ck why s = s"
  by (simp add: ss_teardown_def)

lemma sweep_one_idle:
  assumes "\<And>r. dict_get (reg_map g) sid = Some r \<Longrightarrow> ss_subscribers (reg_heap g ! r) = []"
  shows "sweep_one ck sid g = g\<lparr>reg_map := dict_pop sid (reg_map g)\<rparr>"
  using assms by (auto simp: sweep_one_def reg_update_def ss_teardown_nobody Let_def split: option.splits)

lemma sweep_fold_idle:
  assumes "\<And>sid r. sid \<in> set sids \<Longrightarrow> dict_get (reg_map g) sid = Some r \<Longrightarrow> ss_subscribers (reg_heap g ! r) = []"
  shows "fold (sweep_one ck) sids g = g\<lparr>reg_map := filter (\<lambda>(sid, _). sid \<notin> set sids) (reg_map g)\<rparr>"
  using assms
proof (induction sids arbitrary: g)
  case (Cons sid sids)
  let ?g = "g\<lparr>reg_map := dict_pop sid (reg_map g)\<rparr>"
  have one: "sweep_one ck sid g = ?g" using Cons.prems by (intro sweep_one_idle) auto
  have "fold (sweep_one ck) sids ?g = ?g\<lparr>reg_map := filter (\<lambda>(sid, _). sid \<notin> set sids) (reg_map ?g)\<rparr>"
    using Cons.prems by (intro Cons.IH) (auto split: if_splits)
  with one show ?case by (auto simp: dict_pop_def split_def intro!: filter_cong)
qed (simp add: split_def)

lemma reg_inv_filter: "reg_inv cfg g \<Longrightarrow> reg_inv cfg (g\<lparr>reg_map := filter P (reg_map g)\<rparr>)"
  using le_trans [OF length_filter_le, of "reg_map g" _ P]
  by (auto simp: reg_inv_def dict_wf_def dict_keys_def distinct_map_filter)

lemma sweep_idle_streams_eq:
  fixes now grace g ck cfg
  assumes "reg_inv cfg g"
  defines "idle \<equiv> (\<lambda>(sid, r). stream_idle (now sid) grace (reg_heap g ! r))"
  shows "sweep_idle_streams ck now grace g =
    (length (filter idle (reg_map g)), g\<lparr>reg_map := filter (\<lambda>e. \<not> idle e) (reg_map g)\<rparr>)"
proof -
  let ?sids = "map fst (filter idle (reg_map g))"
  have clock: "\<And>sid r. (sid, r) \<in> set (reg_map g) \<Longrightarrow> idle_clock_ok (reg_heap g ! r)"
    using assms(1) by (auto simp: reg_inv_def)
  have mem: "sid \<in> set ?sids \<longleftrightarrow> idle (sid, r)" if "(sid, r) \<in> set (reg_map g)" for sid r
  proof
    assume "sid \<in> set ?sids"
    then obtain r' where r': "(sid, r') \<in> set (reg_map g)" "idle (sid, r')" by auto
    then have "r' = r"
      using that reg_map_lookup [OF assms(1), of sid r] reg_map_lookup [OF assms(1), of sid r'] by simp
    with r'(2) show "idle (sid, r)" by simp
  next
    assume "idle (sid, r)"
    with that show "sid \<in> set ?sids" by (auto intro: rev_image_eqI [of "(sid, r)"])
  qed
  have "fold (sweep_one ck) ?sids g = g\<lparr>reg_map := filter (\<lambda>(sid, _). sid \<notin> set ?sids) (reg_map g)\<rparr>"
    using mem by (intro sweep_fold_idle)
      (auto simp: reg_map_lookup [OF assms(1)] idle_def stream_idle_def)
  moreover have "filter (\<lambda>(sid, _). sid \<notin> set ?sids) (reg_map g) = filter (\<lambda>e. \<not> idle e) (reg_map g)"
    using mem by (intro filter_cong) auto
  ultimately show ?thesis
    using find_idle_pure [of "reg_map g" g now grace] clock
    by (simp add: sweep_idle_streams_def idle_def)
qed

abbreviation reg_reachable :: "reg_config \<Rightarrow> (pystr \<Rightarrow> pystr) \<Rightarrow> registry \<Rightarrow> bool" where
  "reg_reachable cfg sha g \<equiv> (reg_step cfg sha)\<^sup>*\<^sup>* empty_registry g"

lemma reg_step_inv:
  assumes "reg_step cfg sha g g'" "reg_inv cfg g"
  shows "reg_inv cfg g'"
  using assms
proof cases
  case (step_get ck sid agent create)
  with assms show ?thesis by (simp add: get_session_stream_inv)
next
  case (step_drop sid)
  with assms show ?thesis by (simp add: drop_session_stream_def dict_pop_def reg_inv_filter)
next
  case (step_sweep ck now grace)
  with assms show ?thesis by (simp add: sweep_idle_streams_eq reg_inv_filter)
next
  case (step_op r t)
  let ?s = "reg_heap g ! r"
  have s: "stream_inv ?s" using assms(2) step_op by (auto simp: reg_inv_def)
  have "stream_inv t \<and> ss_same ?s t \<and> (idle_clock_ok ?s \<longrightarrow> idle_clock_ok t)"
    using step_op(3) s ss_op_ok [of ?s t] ss_op_frame(1) [of ?s t] ss_publish_ok(1,2,3) [OF s]
    by (auto simp: ss_accept_def)
  with step_op assms(2) show ?thesis by (auto intro: reg_inv_update)
qed

lemma reg_inv_empty: "reg_inv cfg empty_registry"
  by (simp add: reg_inv_def empty_registry_def dict_wf_def dict_keys_def)

lemma reg_reachable_inv: "reg_reachable cfg sha g \<Longrightarrow> reg_inv cfg g"
  by (induction rule: rtranclp_induct) (auto intro: reg_inv_empty reg_step_inv)

lemma ss_trace_same:
  assumes "ring_trace ss_accept ss_quiet s es t" "stream_inv s"
  shows "ss_same s t"
  using assms
proof (induction rule: ring_trace.induct)
  case (trace_accept s es t e u)
  then have "stream_inv t" using ss.trace_facts by blast
  with trace_accept show ?case using ss_publish_ok(2) by (auto simp: ss_accept_def intro: ss_same_trans)
next
  case (trace_quiet s es t u)
  then have "stream_inv t" using ss.trace_facts by blast
  with trace_quiet show ?case
    using ss_op_frame(1) ss_teardown_ok(2) by (auto simp: ss_quiet_def intro: ss_same_trans)
qed simp

lemma chunk_valid:
  assumes "length h = 12" "role \<in> set CONVERSATION_ROLES" "seq \<ge> 0" "ts \<noteq> []"
  shows "validate_envelope (to_dict \<lparr>ev_type = ''conversation.chunk'', ev_version = 1,
    ev_id = str_of_nat n, ev_ts = ts, ev_agent_id = ag,
    ev_payload = [(''session_id_hash'', PStr h), (''role'', PStr role), (''seq'', PInt seq),
      (''content'', PStr content), (''final'', PBool final)]\<rparr>) = VOk"
  using assms
  by (cases ag) (simp_all add: to_dict_def validate_envelope_def ENVELOPE_KEYS_def dict_has_def
    VALIDATORS_def positive_int_def is_nonempty_str_def str_or_none_def
    validate_conversation_chunk_def validate_with_def is_nonneg_int_def in_str_set_def hashable_def
    is_session_hash_def is_str_def is_bool_def)

text \<open>A concrete registry: two sessions with cap 2, the first with a subscriber.\<close>

definition demo_sha :: "pystr \<Rightarrow> pystr" where
  "demo_sha x = replicate 64 CHR ''a''"

definition demo_clocks :: clocks where
  "demo_clocks = \<lparr>ck_ts = \<lambda>_. ''now'', ck_mono = \<lambda>_. 100\<rparr>"

definition demo_cfg :: reg_config where
  "demo_cfg = \<lparr>rc_max = 2, rc_queue_max = 1, rc_ring_max = 3\<rparr>"

abbreviation demo_get :: "pystr \<Rightarrow> registry \<Rightarrow> nat option \<times> registry" where
  "demo_get sid g \<equiv> get_session_stream demo_cfg demo_sha demo_clocks sid None True g"

definition demo_one :: registry where
  "demo_one = snd (demo_get ''s1'' empty_registry)"

definition demo_sub :: registry where
  "demo_sub = reg_update 0 (\<lambda>_. snd (ss_subscribe (reg_heap demo_one ! 0))) demo_one"

definition demo_two :: registry where
  "demo_two = snd (demo_get ''s2'' demo_sub)"

lemma demo_one_eq:
  "demo_one = \<lparr>reg_heap = [init_session_stream demo_sha ''s1'' 1 3 None 100 100], reg_map = [(''s1'', 0)]\<rparr>"
  by (simp add: demo_one_def get_session_stream_def empty_registry_def demo_cfg_def demo_clocks_def
      REGISTRY_MAX_def Let_def)

lemma demo_two_eq:
  "demo_two = \<lparr>reg_heap = [snd (ss_subscribe (init_session_stream demo_sha ''s1'' 1 3 None 100 100)),
     init_session_stream demo_sha ''s2'' 1 3 None 100 100], reg_map = [(''s1'', 0), (''s2'', 1)]\<rparr>"
  by (simp add: demo_two_def demo_sub_def demo_one_eq reg_update_def get_session_stream_def
      demo_cfg_def demo_clocks_def REGISTRY_MAX_def Let_def)

lemma demo_two_reachable: "reg_reachable demo_cfg demo_sha demo_two"
proof -
  have "reg_step demo_cfg demo_sha empty_registry demo_one"
    unfolding demo_one_def by (rule step_get)
  moreover have "reg_step demo_cfg demo_sha demo_one demo_sub"
    unfolding demo_sub_def by (rule step_op) (auto simp: demo_one_eq intro: op_subscribe)
  moreover have "reg_step demo_cfg demo_sha demo_sub demo_two"
    unfolding demo_two_def by (rule step_get)
  ultimately show ?thesis by (meson rtranclp.rtrancl_into_rtrancl rtranclp.rtrancl_refl)
qed

section \<open>Properties\<close>

text \<open>C2: In every reachable state the registry holds at most \<open>REGISTRY_MAX\<close> broadcasters,
  maps each session to a broadcaster of that very session, and shares no broadcaster between
  sessions; every broadcaster, also one already dropped, has a bounded ring of envelopes with
  distinct ids, bounded subscriber queues and only open subscribers attached.\<close>

theorem registry_reachable:
  assumes "reg_reachable cfg sha g"
  shows "registry_size g \<le> REGISTRY_MAX cfg \<and> distinct (map fst (reg_map g)) \<and>
    distinct (map snd (reg_map g)) \<and>
    (\<forall>(sid, r)\<in>set (reg_map g). r < length (reg_heap g) \<and> ss_session_id (reg_heap g ! r) = sid) \<and>
    (\<forall>s\<in>set (reg_heap g). length (ss_ring s) \<le> ss_ring_max s \<and> distinct (map ev_id (ss_ring s)) \<and>
       (\<forall>i\<in>set (ss_subscribers s). \<not> sub_closed (ss_objs s ! i)) \<and>
       (\<forall>sub\<in>set (ss_objs s). int (qsize (sub_queue sub)) \<le> ss_queue_max s))"
proof -
  note inv = reg_reachable_inv [OF assms]
  have refs: "distinct (map snd (reg_map g))"
  proof -
    have "distinct (reg_map g)"
      using inv by (auto simp: reg_inv_def dict_wf_def dict_keys_def distinct_map)
    moreover have "inj_on snd (set (reg_map g))"
    proof (rule inj_onI, clarify)
      fix a b a' b'
      assume "(a, b) \<in> set (reg_map g)" "(a', b') \<in> set (reg_map g)" "snd (a, b) = snd (a', b')"
      with reg_inv_own [OF inv] show "a = a' \<and> b = b'" by (metis snd_conv)
    qed
    ultimately show ?thesis by (simp add: distinct_map)
  qed
  have ids: "distinct (map ev_id (ss_ring s))" if "stream_inv s" for s
    using that by (intro ring_ok_distinct) (auto simp: stream_inv_def)
  have qs: "int (qsize (sub_queue sub)) \<le> ss_queue_max s" if "stream_inv s" "sub \<in> set (ss_objs s)" for s sub
    using that by (auto simp: stream_inv_def ss_sub_wf_def queue_wf_def)
  show ?thesis
    using inv refs ids qs
    by (auto simp: reg_inv_def registry_size_def dict_wf_def dict_keys_def stream_inv_def)
qed

theorem registry_reachable_witness:
  "registry_size demo_two \<le> REGISTRY_MAX demo_cfg \<and> distinct (map snd (reg_map demo_two))"
  using registry_reachable [OF demo_two_reachable] by blast

text \<open>\<open>get_session_stream\<close> on every branch: a known session gives its broadcaster and
  changes nothing; an unknown one is refused without \<open>create\<close>; otherwise a fresh broadcaster is
  registered, and only if the registry was full the oldest entry is given up for it.\<close>

theorem get_session_stream_spec:
  assumes "reg_reachable cfg sha g" and "get_session_stream cfg sha ck sid ag create g = (ro, g')"
  shows "(case dict_get (reg_map g) sid of
      Some r \<Rightarrow> ro = Some r \<and> g' = g
    | None \<Rightarrow>
        if create then
          ro = Some (length (reg_heap g)) \<and>
          reg_heap g' ! length (reg_heap g) = init_session_stream sha sid (rc_queue_max cfg)
            (rc_ring_max cfg) ag (ck_mono ck 0) (ck_mono ck 1) \<and>
          reg_map g' = (if registry_size g = REGISTRY_MAX cfg then tl (reg_map g) else reg_map g) @
            [(sid, length (reg_heap g))]
        else ro = None \<and> g' = g)"
proof (cases "dict_get (reg_map g) sid = None \<and> create")
  case False
  with assms(2) show ?thesis by (auto simp: get_session_stream_def split: option.splits)
next
  case True
  note inv = reg_reachable_inv [OF assms(1)]
  have size: "REGISTRY_MAX cfg \<le> length (reg_map g) \<longleftrightarrow> registry_size g = REGISTRY_MAX cfg"
    using inv by (auto simp: reg_inv_def registry_size_def)
  define k where "k = (if REGISTRY_MAX cfg \<le> length (reg_map g) then evict_oldest_broadcaster ck g else g)"
  have k: "length (reg_heap k) = length (reg_heap g)"
    "reg_map k = (if registry_size g = REGISTRY_MAX cfg then tl (reg_map g) else reg_map g)"
    using evict_oldest_inv(2) [OF inv] size
    by (auto simp: k_def evict_oldest_broadcaster_def split: list.splits)
  have fresh: "\<not> dict_has (reg_map k) sid"
    using True not_has_tl k(2) by (auto simp: dict_has_def)
  show ?thesis
    using assms(2) True get_session_stream_cases [of g sid cfg sha ck ag, folded k_def] k
      dict_set_fresh [OF fresh] nth_append_length [of "reg_heap k"]
    by auto
qed

theorem get_session_stream_spec_witness:
  "fst (demo_get ''s3'' demo_two) = Some 2 \<and>
   reg_map (snd (demo_get ''s3'' demo_two)) = [(''s2'', 1), (''s3'', 2)]"
  using get_session_stream_spec [OF demo_two_reachable surjective_pairing,
      where ck = demo_clocks and sid = "''s3''" and ag = None and create = True]
  by (simp add: demo_two_eq registry_size_def demo_cfg_def REGISTRY_MAX_def)

text \<open>The cap eviction strands nobody: every subscriber attached to the broadcaster that is
  given up is closed with something in its queue, so its consumer loop returns; the envelopes
  it had not read are still delivered first.\<close>

theorem cap_eviction_ends_subscribers:
  fixes ck g r
  assumes "reg_reachable cfg sha g" and "reg_map g = (sid, r) # m"
    and "i \<in> set (ss_subscribers (reg_heap g ! r))"
  defines "s \<equiv> reg_heap (evict_oldest_broadcaster ck g) ! r"
  shows "sub_closed (ss_objs s ! i) \<and> ss_subscribers s = [] \<and>
    snd (iterate_drain (sub_closed (ss_objs s ! i)) (aq_items (sub_queue (ss_objs s ! i))))"
proof -
  note inv = reg_reachable_inv [OF assms(1)]
  have r: "r < length (reg_heap g)" "stream_inv (reg_heap g ! r)"
    using inv assms(2) by (auto simp: reg_inv_def)
  have s: "s = ss_teardown ck ''broadcaster evicted by registry-cap LRU'' (reg_heap g ! r)"
    using r(1) by (simp add: s_def evict_oldest_retire [OF assms(2)] reg_retire_def)
  then have "closed_off (ss_objs s ! i)" "ss_subscribers s = []"
    using ss_teardown_ok(5,6) [OF r(2)] assms(3) by blast+
  then show ?thesis using iterate_drain_returns by (auto simp: closed_off_def)
qed

theorem cap_eviction_ends_subscribers_witness:
  "sub_closed (ss_objs (reg_heap (evict_oldest_broadcaster demo_clocks demo_two) ! 0) ! 0)"
proof -
  have "reg_map demo_two = (''s1'', 0) # [(''s2'', 1)]" by (simp add: demo_two_eq)
  moreover have "0 \<in> set (ss_subscribers (reg_heap demo_two ! 0))"
    by (simp add: demo_two_eq ss_subscribe_def init_session_stream_def Let_def)
  ultimately show ?thesis
    using cap_eviction_ends_subscribers [OF demo_two_reachable] by blast
qed

text \<open>The sweeper drops exactly the broadcasters that have had no subscriber and no publish
  for the grace period, reports how many, and touches nothing else.\<close>

theorem sweep_exact:
  assumes "reg_reachable cfg sha g"
  shows "sweep_idle_streams ck now grace g =
    (length (filter (\<lambda>(sid, r). stream_idle (now sid) grace (reg_heap g ! r)) (reg_map g)),
     g\<lparr>reg_map := filter (\<lambda>(sid, r). \<not> stream_idle (now sid) grace (reg_heap g ! r)) (reg_map g)\<rparr>)"
  using sweep_idle_streams_eq [OF reg_reachable_inv [OF assms], of ck now grace]
  by (simp add: split_def)

theorem sweep_exact_witness:
  "sweep_idle_streams demo_clocks (\<lambda>_. 500) 30 demo_two = (1, demo_two\<lparr>reg_map := [(''s1'', 0)]\<rparr>)"
  using sweep_exact [OF demo_two_reachable, of demo_clocks "\<lambda>_. 500" 30]
  by (simp add: demo_two_eq stream_idle_def ss_subscribe_def init_session_stream_def Let_def)

text \<open>Resumption after the last envelope a client saw: whatever the broadcaster does in the
  meantime (evictions consume ids too), \<open>replay_from\<close> returns exactly the envelopes accepted
  since, the most recent \<open>ring_max\<close> of them if there were more.\<close>

theorem session_resume:
  assumes "stream_inv s" and "ss_publish ck ty p v s = (SSPublished e, u)"
    and "ring_trace ss_accept ss_quiet u es t"
  shows "ss_replay_from (Some (ev_id e)) t = take_last (ss_ring_max s) es"
proof -
  have "ss_accept s e u" using assms(2) by (auto simp: ss_accept_def)
  from ss.resume_after [OF assms(1) this assms(3)] ss_publish_ok(2) [OF assms(1,2)]
  show ?thesis by (simp add: ss_replay_from_def ss_same_def)
qed

theorem session_resume_witness:
  "\<exists>e u. publish_chunk demo_clocks ''user'' 0 ''hi'' True
      (init_session_stream demo_sha ''s1'' 1 3 None 100 100) = (SSPublished e, u) \<and>
    ss_replay_from (Some (ev_id e)) u = []"
proof -
  let ?s = "init_session_stream demo_sha ''s1'' 1 3 None 100 100"
  have "length (ss_session_hash ?s) = 12"
    by (simp add: init_session_stream_def session_id_hash_def demo_sha_def)
  from chunk_valid [OF this, of "''user''" 0 "''now''"]
  obtain e u where pub: "ss_publish demo_clocks ''conversation.chunk''
       [(''session_id_hash'', PStr (ss_session_hash ?s)), (''role'', PStr ''user''),
        (''seq'', PInt 0), (''content'', PStr ''hi''), (''final'', PBool True)] 1 ?s = (SSPublished e, u)"
    by (fastforce simp: ss_publish_def Let_def demo_clocks_def CONVERSATION_ROLES_def)
  from session_resume [OF init_stream_inv this trace_Nil] pub show ?thesis
    by (auto simp: publish_chunk_def take_last_def)
qed

text \<open>A chunk of a user or assistant turn is never dropped by the validator, whatever the
  broadcaster has been through since its creation: it is published with the next id and enters
  the ring.\<close>

theorem publish_chunk_accepted:
  assumes "\<And>x. length (sha x) = 64"
    and "ring_trace ss_accept ss_quiet (init_session_stream sha sid qm rm ag ti ta) es s"
    and "role \<in> set CONVERSATION_ROLES" and "seq \<ge> 0" and "ck_ts ck 0 \<noteq> []"
  shows "\<exists>e t. publish_chunk ck role seq content final s = (SSPublished e, t) \<and>
    ev_type e = ''conversation.chunk'' \<and> ev_id e = str_of_nat (Suc (ss_next_id s)) \<and>
    ss_ring t = ring_append (ss_ring_max s) (ss_ring s) e"
proof -
  let ?i = "init_session_stream sha sid qm rm ag ti ta"
  have inv: "stream_inv s" using ss.trace_facts [OF assms(2) init_stream_inv] by blast
  have "ss_session_hash s = session_id_hash sha sid"
    using ss_trace_same [OF assms(2) init_stream_inv] by (simp add: ss_same_def init_session_stream_def)
  then have "length (ss_session_hash s) = 12" using assms(1) by (simp add: session_id_hash_def)
  then obtain e t where pub: "ss_publish ck ''conversation.chunk''
       [(''session_id_hash'', PStr (ss_session_hash s)), (''role'', PStr role),
        (''seq'', PInt seq), (''content'', PStr content), (''final'', PBool final)] 1 s = (SSPublished e, t)"
    using chunk_valid [OF _ assms(3-5)] by (fastforce simp: ss_publish_def Let_def)
  show ?thesis
    using pub ss_publish_published(1,2) [OF pub] ss_publish_ok(4) [OF inv pub]
    by (simp add: publish_chunk_def)
qed

theorem publish_chunk_accepted_witness:
  "\<exists>e t. publish_chunk demo_clocks ''assistant'' 3 ''text'' False
      (init_session_stream demo_sha ''s1'' 1 3 None 100 100) = (SSPublished e, t) \<and>
    ev_id e = str_of_nat 1"
proof -
  have "\<And>x. length (demo_sha x) = 64" by (simp add: demo_sha_def)
  from publish_chunk_accepted [where sha = demo_sha and role = "''assistant''" and seq = 3
      and ck = demo_clocks and content = "''text''" and final = False, OF this trace_Nil,
      where sid = "''s1''" and qm = 1 and rm = 3 and ag = None and ti = 100 and ta = 100]
  show ?thesis
    by (auto simp: CONVERSATION_ROLES_def demo_clocks_def init_session_stream_def)
qed

section \<open>Admission to the stream route\<close>

text \<open>Runs of the route: requests, and releases of slots in any order and any number of times
  (the body generator and the background task release the same token).\<close>

record sse_params =
  sp_cfg :: reg_config
  sp_sha :: "pystr \<Rightarrow> pystr"
  sp_auth_token :: pystr
  sp_escape_hatch :: bool
  sp_agent_id :: "pystr option"
  sp_max_per_caller :: int

inductive sse_run :: "sse_params \<Rightarrow> sse_state \<Rightarrow> sse_token list \<Rightarrow> bool" for sp where
  run_start: "sse_run sp \<lparr>sse_registry = empty_registry, sse_counts = []\<rparr> []"
| run_open: "sse_run sp st toks \<Longrightarrow>
    sse_handler (sp_cfg sp) (sp_sha sp) ck (sp_auth_token sp) (sp_escape_hatch sp) (sp_agent_id sp)
      (sp_max_per_caller sp) rq st = (SseStream r replay tok, st') \<Longrightarrow> sse_run sp st' (toks @ [tok])"
| run_release: "sse_run sp st toks \<Longrightarrow> j < length toks \<Longrightarrow>
    release_slot (sp_max_per_caller sp) (toks ! j) (sse_counts st) = (tok, counts) \<Longrightarrow>
    sse_run sp (st\<lparr>sse_counts := counts\<rparr>) (toks[j := tok])"
| run_registry: "sse_run sp st toks \<Longrightarrow> reg_step (sp_cfg sp) (sp_sha sp) (sse_registry st) g \<Longrightarrow>
    sse_run sp (st\<lparr>sse_registry := g\<rparr>) toks"

definition open_slots :: "sse_token list \<Rightarrow> pystr \<Rightarrow> nat" where
  "open_slots toks fp = length (filter (\<lambda>t. tok_fp t = fp \<and> \<not> tok_released t) toks)"

lemma open_slots_snoc:
  "open_slots (toks @ [tok]) fp = open_slots toks fp + (if tok_fp tok = fp \<and> \<not> tok_released tok then 1 else 0)"
  by (simp add: open_slots_def)

lemma open_slots_release:
  "j < length toks \<Longrightarrow> \<not> tok_released (toks ! j) \<Longrightarrow>
   open_slots toks fp = open_slots (toks[j := (toks ! j)\<lparr>tok_released := True\<rparr>]) fp +
     (if tok_fp (toks ! j) = fp then 1 else 0)"
proof (induction toks arbitrary: j)
  case (Cons t toks)
  then show ?case by (cases j) (auto simp: open_slots_def)
qed simp

lemma count_of_set [simp]: "count_of (dict_set k v d) fp = (if fp = k then v else count_of d fp)"
  by (simp add: count_of_def)

lemma count_of_pop [simp]: "count_of (dict_pop k d) fp = (if fp = k then 0 else count_of d fp)"
  by (simp add: count_of_def)

lemma sse_handler_stream:
  assumes "sse_handler cfg sha ck auth esc ag m rq st = (SseStream r rep tok, st')"
  shows "tok = \<lparr>tok_fp = caller_fp sha (rq_authorization rq), tok_released = False\<rparr>"
    and "m > 0 \<Longrightarrow> count_of (sse_counts st) (tok_fp tok) < m \<and>
      sse_counts st' = dict_set (tok_fp tok) (count_of (sse_counts st) (tok_fp tok) + 1) (sse_counts st)"
  using assms by (auto simp: sse_handler_def sse_auth_def Let_def split: if_splits option.splits prod.splits)

text \<open>C25: The per-caller cap: at any point of any run, the counter kept for a credential is the
  number of its streams that are still open, and never exceeds the configured maximum; releasing
  a slot twice does not free a second one.\<close>

theorem per_caller_cap:
  assumes "sse_run sp st toks" and "sp_max_per_caller sp > 0"
  shows "count_of (sse_counts st) fp = int (open_slots toks fp) \<and>
    int (open_slots toks fp) \<le> sp_max_per_caller sp"
  using assms
proof (induction arbitrary: fp rule: sse_run.induct)
  case run_start
  then show ?case by (simp add: count_of_def open_slots_def)
next
  case (run_open st toks ck rq r replay tok st')
  note h = sse_handler_stream [OF run_open.hyps(2)]
  have "tok_released tok = False" using h(1) by simp
  with h(2) [OF run_open.prems] run_open.IH [OF run_open.prems] show ?case
    by (cases "tok_fp tok = fp") (auto simp: open_slots_snoc)
next
  case (run_release st toks j tok counts)
  let ?t = "toks ! j"
  show ?case
  proof (cases "tok_released ?t")
    case True
    with run_release show ?thesis by (auto simp: release_slot_def)
  next
    case False
    have tok: "tok = ?t\<lparr>tok_released := True\<rparr>"
      "counts = (let cur = count_of (sse_counts st) (tok_fp ?t) in if cur \<le> 1
         then dict_pop (tok_fp ?t) (sse_counts st) else dict_set (tok_fp ?t) (cur - 1) (sse_counts st))"
      using run_release.hyps(3) run_release.prems False by (simp_all add: release_slot_def)
    note slots = open_slots_release [OF run_release.hyps(2) False]
    have "count_of counts fp = int (open_slots (toks[j := tok]) fp)"
      using run_release.IH [OF run_release.prems, of fp] slots [of fp]
        run_release.IH [OF run_release.prems, of "tok_fp ?t"] slots [of "tok_fp ?t"]
      by (cases "fp = tok_fp ?t") (auto simp: tok Let_def)
    moreover have "open_slots (toks[j := tok]) fp \<le> open_slots toks fp"
      using slots [of fp] tok(1) by simp
    ultimately show ?thesis
      using run_release.IH [OF run_release.prems, of fp] by simp
  qed
next
  case (run_registry st toks g)
  then show ?case by simp
qed

theorem per_caller_cap_witness:
  "\<exists>st tok. sse_run \<lparr>sp_cfg = demo_cfg, sp_sha = demo_sha, sp_auth_token = ''t'', sp_escape_hatch = False,
       sp_agent_id = None, sp_max_per_caller = 1\<rparr> st [tok] \<and>
     count_of (sse_counts st) (tok_fp tok) = 1"
proof -
  let ?sp = "\<lparr>sp_cfg = demo_cfg, sp_sha = demo_sha, sp_auth_token = ''t'', sp_escape_hatch = False,
    sp_agent_id = None, sp_max_per_caller = 1\<rparr>"
  let ?rq = "\<lparr>rq_authorization = ''Bearer t'', rq_session_id = ''s1'', rq_last_event_id = None\<rparr>"
  obtain r rep tok st where h: "sse_handler demo_cfg demo_sha demo_clocks ''t'' False None 1 ?rq
      \<lparr>sse_registry = empty_registry, sse_counts = []\<rparr> = (SseStream r rep tok, st)"
    by (simp add: sse_handler_def sse_auth_def compare_digest_def is_ascii_def count_of_def
        get_session_stream_def empty_registry_def Let_def)
  have "sse_run ?sp st [tok]"
    using run_open [OF run_start, of ?sp demo_clocks ?rq r rep tok st] h by simp
  moreover from per_caller_cap [OF this, of "tok_fp tok"] sse_handler_stream(1) [OF h]
  have "count_of (sse_counts st) (tok_fp tok) = 1" by (simp add: open_slots_def)
  ultimately show ?thesis by blast
qed

lemma get_session_stream_registered:
  obtains r g' where "get_session_stream cfg sha ck sid ag True g = (Some r, g')"
    and "dict_get (reg_map g') sid = Some r"
  by (cases "dict_get (reg_map g) sid") (simp_all add: get_session_stream_def Let_def)

text \<open>The stream route is closed by default: a stream is opened only for the exact bearer
  token (or, with no token configured, under the explicit escape hatch) and for a named session,
  whose broadcaster is then registered; every refusal leaves registry and counters untouched.\<close>

theorem sse_handler_guarded:
  assumes "sse_handler cfg sha ck auth esc ag m rq st = (reply, st')"
  shows "case reply of
      SseStream r rep tok \<Rightarrow>
        (if auth = [] then esc else rq_authorization rq = ''Bearer '' @ auth) \<and>
        rq_session_id rq \<noteq> [] \<and> dict_get (reg_map (sse_registry st')) (rq_session_id rq) = Some r
    | SseError code msg \<Rightarrow> st' = st \<and> code \<in> {503, 401, 400, 429} \<and> (code = 429 \<longrightarrow> m > 0)
    | SseRaise x \<Rightarrow> st' = st \<and> auth \<noteq> [] \<and> \<not> (is_ascii auth \<and> is_ascii (rq_authorization rq))"
proof (cases "sse_auth auth esc (rq_authorization rq)")
  case (Some err)
  with assms have "reply = err" "st' = st" by (auto simp: sse_handler_def)
  with Some show ?thesis
    by (auto simp: sse_auth_def compare_digest_def is_ascii_def split: if_splits)
next
  case None
  then have auth: "if auth = [] then esc else rq_authorization rq = ''Bearer '' @ auth"
    by (auto simp: sse_auth_def compare_digest_def split: if_splits)
  obtain r g where get: "get_session_stream cfg sha ck (rq_session_id rq) ag True (sse_registry st) = (Some r, g)"
    and reg: "dict_get (reg_map g) (rq_session_id rq) = Some r"
    by (rule get_session_stream_registered)
  show ?thesis
    using assms None get auth reg
    by (simp add: sse_handler_def Let_def split: if_splits) (auto split: if_splits)
qed

theorem sse_handler_guarded_witness:
  "sse_handler demo_cfg demo_sha demo_clocks ''t'' False None 1
     \<lparr>rq_authorization = ''Bearer u'', rq_session_id = ''s1'', rq_last_event_id = None\<rparr>
     \<lparr>sse_registry = demo_two, sse_counts = []\<rparr> =
   (SseError 401 ''unauthorized'', \<lparr>sse_registry = demo_two, sse_counts = []\<rparr>)"
proof -
  let ?st = "\<lparr>sse_registry = demo_two, sse_counts = []\<rparr>"
  obtain st' where h: "sse_handler demo_cfg demo_sha demo_clocks ''t'' False None 1
     \<lparr>rq_authorization = ''Bearer u'', rq_session_id = ''s1'', rq_last_event_id = None\<rparr> ?st =
     (SseError 401 ''unauthorized'', st')"
    by (simp add: sse_handler_def sse_auth_def compare_digest_def is_ascii_def)
  from sse_handler_guarded [OF this] h show ?thesis by simp
qed

text \<open>A header outside ASCII makes the comparison raise instead of failing it.\<close>

lemma non_ascii_bearer_raises:
  "sse_handler cfg sha ck ''t'' esc ag m
     \<lparr>rq_authorization = ''Bearer '' @ [CHR 0xE9], rq_session_id = sid, rq_last_event_id = None\<rparr> st =
   (SseRaise TypeError, st)"
  by (simp add: sse_handler_def sse_auth_def compare_digest_def is_ascii_def)

end
