(* ===== verification/Py_Text.thy ===== *)
theory Py_Text
  imports Prelude
begin

text \<open>
  The text functions of the Python standard library that the policy code relies on:
  \<open>str.replace\<close>, \<open>str.join\<close>, \<open>os.path.basename\<close>, \<open>os.path.normpath\<close> (POSIX) and
  \<open>shlex.split\<close> (POSIX mode). The locale \<open>tokenizer\<close> states what the command predicates need
  of a command splitter: its tokens are no longer, taken together, than the command.
\<close>

section \<open>Replacing and joining\<close>

text \<open>\<open>s.replace(old, new)\<close> for a non-empty \<open>old\<close>: leftmost matches, not overlapping.\<close>

function py_replace :: "pystr \<Rightarrow> pystr \<Rightarrow> pystr \<Rightarrow> pystr" where
  "py_replace old new [] = []"
| "py_replace old new (c # s) =
     (if old \<noteq> [] \<and> startswith (c # s) old
      then new @ py_replace old new (drop (length old) (c # s))
      else c # py_replace old new s)"
  by pat_completeness auto
termination
  by (relation "measure (\<lambda>(old, new, s). length s)") (auto simp: neq_Nil_conv)

fun join :: "pystr \<Rightarrow> pystr list \<Rightarrow> pystr" where
  "join sep [] = []"
| "join sep [s] = s"
| "join sep (s # t # ts) = s @ sep @ join sep (t # ts)"

lemma split_char_no: "c \<notin> set s \<Longrightarrow> split_char c s = [s]"
  by (induction s) auto

lemma split_char_append: "c \<notin> set s \<Longrightarrow> split_char c (s @ c # r) = s # split_char c r"
  by (induction s) auto

lemma split_char_join:
  "ts \<noteq> [] \<Longrightarrow> \<forall>t\<in>set ts. c \<notin> set t \<Longrightarrow> split_char c (join [c] ts) = ts"
  by (induction "[c]" ts rule: join.induct) (auto simp: split_char_no split_char_append)

lemma join_split_char: "join [c] (split_char c s) = s"
proof (induction s)
  case (Cons x s)
  obtain t ts where t: "split_char c s = t # ts" using split_char_not_Nil by (meson neq_Nil_conv)
  then show ?case using Cons by (cases ts) auto
qed simp

section \<open>Paths\<close>

text \<open>\<open>os.path.basename\<close>: what follows the last slash.\<close>

definition basename :: "pystr \<Rightarrow> pystr" where
  "basename p = last (split_char CHR ''/'' p)"

definition isabs :: "pystr \<Rightarrow> bool" where
  "isabs p = startswith p ''/''"

text \<open>\<open>os.path.normpath\<close>: the components with empty and single-dot ones dropped and each
  double-dot cancelling the component before it (dropped at the root of an absolute path); two
  leading slashes stay two, three or more become one.\<close>

fun norm_comps :: "bool \<Rightarrow> pystr list \<Rightarrow> pystr list \<Rightarrow> pystr list" where
  "norm_comps absolute acc [] = rev acc"
| "norm_comps absolute acc (c # cs) =
     (if c = [] \<or> c = ''.'' then norm_comps absolute acc cs
      else if c \<noteq> ''..'' \<or> (\<not> absolute \<and> acc = []) \<or> (acc \<noteq> [] \<and> hd acc = ''..'')
           then norm_comps absolute (c # acc) cs
      else norm_comps absolute (tl acc) cs)"

definition initial_slashes :: "pystr \<Rightarrow> nat" where
  "initial_slashes p =
     (if \<not> startswith p ''/'' then 0
      else if startswith p ''//'' \<and> \<not> startswith p ''///'' then 2 else 1)"

definition normpath :: "pystr \<Rightarrow> pystr" where
  "normpath p =
     (if p = [] then ''.''
      else (let n = initial_slashes p;
                q = replicate n CHR ''/'' @
                    join ''/'' (norm_comps (n > 0) [] (split_char CHR ''/'' p))
            in if q = [] then ''.'' else q))"

lemma basename_no_slash: "CHR ''/'' \<notin> set (basename p)"
  unfolding basename_def by (rule split_char_no_sep [OF last_in_set]) simp

lemma basename_append: "CHR ''/'' \<notin> set b \<Longrightarrow> basename (d @ CHR ''/'' # b) = b"
proof (induction d)
  case Nil
  then show ?case by (simp add: basename_def split_char_no)
next
  case (Cons x d)
  obtain t ts where t: "split_char CHR ''/'' (d @ CHR ''/'' # b) = t # ts"
    using split_char_not_Nil by (meson neq_Nil_conv)
  have ts: "ts \<noteq> []"
  proof
    assume "ts = []"
    then have "join ''/'' (split_char CHR ''/'' (d @ CHR ''/'' # b)) = t" using t by simp
    then have "t = d @ CHR ''/'' # b" by (simp add: join_split_char)
    moreover have "CHR ''/'' \<notin> set t" using t by (intro split_char_no_sep [of _ _ "d @ CHR ''/'' # b"]) simp
    ultimately show False by auto
  qed
  with Cons t show ?case by (auto simp: basename_def)
qed

lemma basename_self: "CHR ''/'' \<notin> set b \<Longrightarrow> basename b = b"
  by (simp add: basename_def split_char_no)

section \<open>Splitting a command line\<close>

text \<open>\<open>shlex.split(s, posix=True)\<close>: the read loop of the lexer with \<open>whitespace_split\<close> and no
  comment characters. \<open>ShQuote c\<close> is inside a quotation opened by \<open>c\<close>, \<open>ShEsc q\<close> after a
  backslash, inside double quotes when \<open>q\<close>. \<^const>\<open>None\<close> is the \<open>ValueError\<close> (no closing
  quotation, no escaped character).\<close>

datatype shlex_state = ShStart | ShWord | ShQuote char | ShEsc bool

definition shlex_space :: "char \<Rightarrow> bool" where
  "shlex_space c = (c \<in> {CHR '' '', CHR 0x09, CHR 0x0D, CHR 0x0A})"

definition BACKSLASH :: char where "BACKSLASH = CHR 0x5C"
definition SQUOTE :: char where "SQUOTE = CHR 0x27"
definition DQUOTE :: char where "DQUOTE = CHR 0x22"

fun shlex_run :: "shlex_state \<Rightarrow> pystr \<Rightarrow> pystr \<Rightarrow> pystr list option" where
  "shlex_run ShStart tok [] = Some []"
| "shlex_run ShStart tok (c # s) =
     (if shlex_space c then shlex_run ShStart tok s
      else if c = BACKSLASH then shlex_run (ShEsc False) [] s
      else if c = SQUOTE \<or> c = DQUOTE then shlex_run (ShQuote c) [] s
      else shlex_run ShWord [c] s)"
| "shlex_run ShWord tok [] = Some [tok]"
| "shlex_run ShWord tok (c # s) =
     (if shlex_space c then map_option ((#) tok) (shlex_run ShStart [] s)
      else if c = SQUOTE \<or> c = DQUOTE then shlex_run (ShQuote c) tok s
      else if c = BACKSLASH then shlex_run (ShEsc False) tok s
      else shlex_run ShWord (tok @ [c]) s)"
| "shlex_run (ShQuote q) tok [] = None"
| "shlex_run (ShQuote q) tok (c # s) =
     (if c = q then shlex_run ShWord tok s
      else if c = BACKSLASH \<and> q = DQUOTE then shlex_run (ShEsc True) tok s
      else shlex_run (ShQuote q) (tok @ [c]) s)"
| "shlex_run (ShEsc dq) tok [] = None"
| "shlex_run (ShEsc dq) tok (c # s) =
     shlex_run (if dq then ShQuote DQUOTE else ShWord)
       (if dq \<and> c \<noteq> BACKSLASH \<and> c \<noteq> DQUOTE then tok @ [BACKSLASH, c] else tok @ [c]) s"

definition shlex_split :: "pystr \<Rightarrow> pystr list option" where
  "shlex_split s = shlex_run ShStart [] s"

lemmas shlex_chars = BACKSLASH_def SQUOTE_def DQUOTE_def shlex_space_def

text \<open>The tokens are cut from the text: together they are no longer than it.\<close>

definition sh_pending :: "shlex_state \<Rightarrow> nat" where
  "sh_pending st = (case st of ShEsc True \<Rightarrow> 1 | _ \<Rightarrow> 0)"

lemma shlex_run_length:
  "shlex_run st tok s = Some ts \<Longrightarrow>
   sum_list (map length ts) \<le> (if st = ShStart then 0 else length tok) + sh_pending st + length s"
proof (induction st tok s arbitrary: ts rule: shlex_run.induct)
  case (2 tok c s)
  then show ?case by (fastforce simp: sh_pending_def split: if_splits)
next
  case (4 tok c s)
  show ?case
  proof (cases "shlex_space c")
    case True
    then obtain us where "shlex_run ShStart [] s = Some us" "ts = tok # us" using "4.prems" by auto
    with "4.IH"(1) [OF True] show ?thesis by (fastforce simp: sh_pending_def)
  next
    case False
    with 4 show ?thesis by (fastforce simp: sh_pending_def split: if_splits)
  qed
next
  case (6 q tok c s)
  then show ?case by (fastforce simp: sh_pending_def split: if_splits)
next
  case (8 dq tok c s)
  then show ?case by (cases dq) (fastforce simp: sh_pending_def split: if_splits)+
qed (auto simp: sh_pending_def)

lemma shlex_split_length: "shlex_split s = Some ts \<Longrightarrow> sum_list (map length ts) \<le> length s"
  using shlex_run_length [of ShStart "[]" s ts] by (simp add: shlex_split_def sh_pending_def)

text \<open>Quoting: a token without a single quote, wrapped in single quotes, comes back as it is.
  Whatever the shell would pass to the program, the lexer sees the same words.\<close>

definition single_quoted :: "pystr \<Rightarrow> pystr" where
  "single_quoted t = SQUOTE # t @ [SQUOTE]"

lemma shlex_run_quoted:
  "SQUOTE \<notin> set t \<Longrightarrow>
   shlex_run (ShQuote SQUOTE) tok (t @ SQUOTE # s) = shlex_run ShWord (tok @ t) s"
  by (induction t arbitrary: tok) (auto simp: shlex_chars)

lemma shlex_run_tokens:
  "\<forall>t\<in>set ts. SQUOTE \<notin> set t \<Longrightarrow>
   shlex_run ShStart tok (join '' '' (map single_quoted ts)) = Some ts"
proof (induction ts arbitrary: tok)
  case (Cons t ts)
  have start: "shlex_run ShStart tok (single_quoted t @ s) = shlex_run ShWord t s" for s
    using Cons.prems shlex_run_quoted [of t "[]" s]
    by (simp add: single_quoted_def) (simp add: shlex_chars)
  show ?case
  proof (cases ts)
    case Nil
    with start [of "[]"] show ?thesis by simp
  next
    case (Cons u us)
    with start [of "'' '' @ join '' '' (map single_quoted ts)"] Cons.IH Cons.prems
    show ?thesis by (simp add: shlex_space_def)
  qed
qed simp

lemma shlex_split_quoted:
  "\<forall>t\<in>set ts. SQUOTE \<notin> set t \<Longrightarrow> shlex_split (join '' '' (map single_quoted ts)) = Some ts"
  by (simp add: shlex_split_def shlex_run_tokens)

text \<open>\<open>_safe_shlex_split\<close> falls back to whitespace splitting on a lexer error.\<close>

definition safe_shlex_split :: "pystr \<Rightarrow> pystr list" where
  "safe_shlex_split command =
     (case shlex_split command of Some ts \<Rightarrow> ts | None \<Rightarrow> split_ws command)"

locale tokenizer =
  fixes tokens :: "pystr \<Rightarrow> pystr list"
  assumes tokens_bounded: "sum_list (map length (tokens s)) \<le> length s"
begin

lemma token_length: "t \<in> set (tokens s) \<Longrightarrow> length t \<le> length s"
  using member_le_sum_list [of "length t" "map length (tokens s)"] tokens_bounded [of s] by simp

text \<open>A token that follows a non-empty one is strictly shorter than the command.\<close>

lemma later_token_shorter:
  assumes "tokens s = us @ v # vs" and "v \<noteq> []" and "t \<in> set vs"
  shows "length t < length s"
proof -
  have "length t \<le> sum_list (map length vs)"
    using assms(3) member_le_sum_list [of "length t" "map length vs"] by simp
  moreover have "length v > 0" using assms(2) by simp
  moreover have "sum_list (map length us) + (length v + sum_list (map length vs)) \<le> length s"
    using tokens_bounded [of s] assms(1) by simp
  ultimately show ?thesis by linarith
qed

end

interpretation whitespace: tokenizer split_ws
  by unfold_locales (rule split_ws_length)

interpretation safe_shlex: tokenizer safe_shlex_split
  by unfold_locales (auto simp: safe_shlex_split_def split_ws_length shlex_split_length split: option.splits)

text \<open>\<open>s.partition(c)\<close> for a one-character separator, without the separator itself, and the last
  part of \<open>s.rpartition(c)\<close>.\<close>

definition partition_char :: "char \<Rightarrow> pystr \<Rightarrow> pystr \<times> pystr" where
  "partition_char c s = (takeWhile (\<lambda>x. x \<noteq> c) s, drop 1 (dropWhile (\<lambda>x. x \<noteq> c) s))"

definition rpartition_last :: "char \<Rightarrow> pystr \<Rightarrow> pystr" where
  "rpartition_last c s = rev (takeWhile (\<lambda>x. x \<noteq> c) (rev s))"

section \<open>Printing values\<close>

text \<open>\<open>repr\<close> and \<open>str\<close> of the modelled values, and \<open>json.dumps(_, ensure_ascii=False)\<close> with the
  default separators.\<close>

definition hex_digit :: "nat \<Rightarrow> char" where
  "hex_digit d = (if d < 10 then char_of (48 + d) else char_of (87 + d))"

definition hex_val :: "char \<Rightarrow> nat option" where
  "hex_val c =
     (let n = (of_char c :: nat) in
      if 48 \<le> n \<and> n \<le> 57 then Some (n - 48)
      else if 65 \<le> n \<and> n \<le> 70 then Some (n - 55)
      else if 97 \<le> n \<and> n \<le> 102 then Some (n - 87) else None)"

lemma hex_val_hex_digit [simp]: "d < 16 \<Longrightarrow> hex_val (hex_digit d) = Some d"
  by (auto simp: hex_val_def hex_digit_def)

definition hex2 :: "nat \<Rightarrow> pystr" where
  "hex2 n = [hex_digit (n div 16), hex_digit (n mod 16)]"

definition repr_char :: "char \<Rightarrow> char \<Rightarrow> pystr" where
  "repr_char q c =
     (let n = (of_char c :: nat) in
      if c = q \<or> c = BACKSLASH then [BACKSLASH, c]
      else if n = 9 then BACKSLASH # ''t''
      else if n = 10 then BACKSLASH # ''n''
      else if n = 13 then BACKSLASH # ''r''
      else if n < 32 \<or> (127 \<le> n \<and> n \<le> 160) \<or> n = 173 then BACKSLASH # CHR ''x'' # hex2 n
      else [c])"

definition repr_str :: "pystr \<Rightarrow> pystr" where
  "repr_str s =
     (let q = (if SQUOTE \<in> set s \<and> DQUOTE \<notin> set s then DQUOTE else SQUOTE)
      in q # concat (map (repr_char q) s) @ [q])"

fun repr_val :: "pyval \<Rightarrow> pystr" where
  "repr_val PNone = ''None''"
| "repr_val (PBool b) = (if b then ''True'' else ''False'')"
| "repr_val (PInt i) = str_of_int i"
| "repr_val (PFloat f) = f"
| "repr_val (PStr s) = repr_str s"
| "repr_val (PList xs) = ''['' @ join '', '' (map repr_val xs) @ '']''"
| "repr_val (PDict d) =
     ''{'' @ join '', '' (map (\<lambda>(k, v). repr_str k @ '': '' @ repr_val v) d) @ ''}''"

definition str_val :: "pyval \<Rightarrow> pystr" where
  "str_val v = (case v of PStr s \<Rightarrow> s | _ \<Rightarrow> repr_val v)"

definition json_char :: "char \<Rightarrow> pystr" where
  "json_char c =
     (let n = (of_char c :: nat) in
      if c = DQUOTE \<or> c = BACKSLASH then [BACKSLASH, c]
      else if n = 8 then BACKSLASH # ''b''
      else if n = 9 then BACKSLASH # ''t''
      else if n = 10 then BACKSLASH # ''n''
      else if n = 12 then BACKSLASH # ''f''
      else if n = 13 then BACKSLASH # ''r''
      else if n < 32 then BACKSLASH # ''u00'' @ hex2 n
      else [c])"

definition json_str :: "pystr \<Rightarrow> pystr" where
  "json_str s = DQUOTE # concat (map json_char s) @ [DQUOTE]"

fun json_dumps :: "pyval \<Rightarrow> pystr" where
  "json_dumps PNone = ''null''"
| "json_dumps (PBool b) = (if b then ''true'' else ''false'')"
| "json_dumps (PInt i) = str_of_int i"
| "json_dumps (PFloat f) =
     (if f = ''nan'' then ''NaN'' else if f = ''inf'' then ''Infinity''
      else if f = ''-inf'' then ''-Infinity'' else f)"
| "json_dumps (PStr s) = json_str s"
| "json_dumps (PList xs) = ''['' @ join '', '' (map json_dumps xs) @ '']''"
| "json_dumps (PDict d) =
     ''{'' @ join '', '' (map (\<lambda>(k, v). json_str k @ '': '' @ json_dumps v) d) @ ''}''"

text \<open>Python truth of a value (\<^const>\<open>None\<close> for a missing key, which reads as \<open>None\<close>).\<close>

definition truthy :: "pyval option \<Rightarrow> bool" where
  "truthy v =
     (case v of
        None \<Rightarrow> False
      | Some PNone \<Rightarrow> False
      | Some (PBool b) \<Rightarrow> b
      | Some (PInt i) \<Rightarrow> i \<noteq> 0
      | Some (PFloat f) \<Rightarrow> f \<noteq> ''0.0'' \<and> f \<noteq> ''-0.0''
      | Some (PStr s) \<Rightarrow> s \<noteq> []
      | Some (PList xs) \<Rightarrow> xs \<noteq> []
      | Some (PDict d) \<Rightarrow> d \<noteq> [])"

section \<open>Warnings that re-arm\<close>

text \<open>Several modules log a warning on the first of every \<open>n\<close> occurrences: the condition is
  \<open>count % n == 0\<close> with the counter incremented at each.\<close>

definition rearm_tick :: "int \<Rightarrow> nat \<Rightarrow> bool \<times> nat" where
  "rearm_tick every count = (int count mod every = 0, Suc count)"

lemma rearm_warnings:
  assumes "n \<ge> 1"
  shows "length (filter (\<lambda>c. fst (rearm_tick (int n) c)) [0..<k]) = (k + n - 1) div n"
proof (induction k)
  case 0
  then show ?case using assms by simp
next
  case (Suc k)
  define q r where "q = k div n" and "r = k mod n"
  have k: "k = n * q + r" and r: "r < n" using assms by (simp_all add: q_def r_def)
  have "(Suc k + n - 1) div n = Suc q"
    using k r assms by (intro div_nat_eqI) (auto simp: algebra_simps)
  moreover have "(k + n - 1) div n = (if r = 0 then q else Suc q)"
    using k r assms by (intro div_nat_eqI) (auto simp: algebra_simps)
  ultimately have "(Suc k + n - 1) div n = (k + n - 1) div n + (if k mod n = 0 then 1 else 0)"
    by (simp add: r_def)
  with Suc show ?case by (simp add: rearm_tick_def zmod_int [symmetric])
qed

end
