(* ===== verification/Session_Binding.thy ===== *)
theory Session_Binding
  imports Py_Text
begin

text \<open>
  Model of \<open>shared/session_binding.py\<close>: how a backend turns the session id a caller supplies
  into the id it stores state under. The hash functions are arguments, collected in \<open>crypto\<close>
  (SHA-256 and HMAC-SHA-256 as hexadecimal digests, \<open>uuid5\<close> in the URL namespace as printed);
  their collision-freeness is only ever assumed on the inputs a statement talks about. The
  module's counters are explicit state; what it logs and counts is recorded in the state.
\<close>

section \<open>Recognising a UUID\<close>

text \<open>\<open>uuid.UUID(s)\<close> succeeds: prefixes, braces and dashes are dropped, 32 characters must
  remain and \<open>int(_, 16)\<close> must accept them (it allows surrounding space, a plus sign, a
  \<open>0x\<close> prefix and single underscores; the length keeps the value below \<open>2^128\<close>).\<close>

definition is_hex :: "char \<Rightarrow> bool" where
  "is_hex c =
     (let n = (of_char c :: nat)
      in (48 \<le> n \<and> n \<le> 57) \<or> (65 \<le> n \<and> n \<le> 70) \<or> (97 \<le> n \<and> n \<le> 102))"

fun hex_digits :: "pystr \<Rightarrow> bool" where
  "hex_digits [] = False"
| "hex_digits [c] = is_hex c"
| "hex_digits (c # d # s) =
     (is_hex c \<and> (if d = CHR ''_'' then hex_digits s else hex_digits (d # s)))"

definition int16_ok :: "pystr \<Rightarrow> bool" where
  "int16_ok s =
     (let t = strip s;
          u = (if startswith t ''+'' then drop 1 t else t);
          v = (if startswith u ''0x'' \<or> startswith u ''0X''
               then (if startswith (drop 2 u) ''_'' then drop 3 u else drop 2 u) else u)
      in hex_digits v)"

definition strip_braces :: "pystr \<Rightarrow> pystr" where
  "strip_braces s =
     (let p = (\<lambda>c. c = CHR ''{'' \<or> c = CHR ''}'') in rstrip_by p (lstrip_by p s))"

definition is_uuid :: "pystr \<Rightarrow> bool" where
  "is_uuid s =
     (let h = py_replace ''uuid:'' [] (py_replace ''urn:'' [] s);
          h = filter (\<lambda>c. c \<noteq> CHR ''-'') (strip_braces h)
      in length h = 32 \<and> int16_ok h)"

section \<open>Derivation\<close>

record crypto =
  sha256_hex :: "pystr \<Rightarrow> pystr"
  hmac_hex :: "pystr \<Rightarrow> pystr \<Rightarrow> pystr"
  uuid5_url :: "pystr \<Rightarrow> pystr"

record bind_env =
  env_secret :: pystr
  env_prev_secret :: pystr
  bind_rearm :: int
  prev_hit_rearm :: int

record bind_state =
  missing_caller_count :: nat
  prev_hit_count :: nat
  bind_warnings :: "nat list"
  prev_warnings :: "nat list"
  fallback_reasons :: "pystr list"

definition SESSION_BIND_REARM_EVERY :: "bind_env \<Rightarrow> int" where
  "SESSION_BIND_REARM_EVERY be = max 1 (bind_rearm be)"

definition PREV_HIT_REARM_EVERY :: "bind_env \<Rightarrow> int" where
  "PREV_HIT_REARM_EVERY be = max 1 (prev_hit_rearm be)"

definition init_bind_state :: bind_state where
  "init_bind_state = \<lparr>missing_caller_count = 0, prev_hit_count = 0, bind_warnings = [],
     prev_warnings = [], fallback_reasons = []\<rparr>"

definition bump_fallback :: "pystr \<Rightarrow> bind_state \<Rightarrow> bind_state" where
  "bump_fallback reason st = st\<lparr>fallback_reasons := fallback_reasons st @ [reason]\<rparr>"

definition legacy_derive :: "crypto \<Rightarrow> pystr \<Rightarrow> pystr" where
  "legacy_derive cr raw_sid = (if is_uuid raw_sid then raw_sid else uuid5_url cr raw_sid)"

definition hash_caller :: "crypto \<Rightarrow> pystr \<Rightarrow> pystr" where
  "hash_caller cr caller = sha256_hex cr caller"

definition hmac_message :: "crypto \<Rightarrow> pystr \<Rightarrow> pystr \<Rightarrow> pystr" where
  "hmac_message cr raw_sid caller = hash_caller cr caller @ CHR 0x00 # raw_sid"

definition hmac_derive :: "crypto \<Rightarrow> pystr \<Rightarrow> pystr \<Rightarrow> pystr \<Rightarrow> pystr" where
  "hmac_derive cr raw_sid caller secret =
     uuid5_url cr (hmac_hex cr secret (hmac_message cr raw_sid caller))"

definition missing_caller :: "bind_env \<Rightarrow> bind_state \<Rightarrow> bind_state" where
  "missing_caller be st =
     (case rearm_tick (SESSION_BIND_REARM_EVERY be) (missing_caller_count st) of
        (should_warn, count) \<Rightarrow>
          st\<lparr>missing_caller_count := count,
             bind_warnings := bind_warnings st @ (if should_warn then [count] else [])\<rparr>)"

text \<open>\<open>fresh\<close> is the \<open>uuid4\<close> drawn if one is needed; \<open>caller\<close> and \<open>secret\<close> are
  \<^const>\<open>None\<close> when the argument is \<open>None\<close>.\<close>

definition derive_session_id ::
  "crypto \<Rightarrow> bind_env \<Rightarrow> pystr \<Rightarrow> pystr \<Rightarrow> pystr option \<Rightarrow> pystr option \<Rightarrow> bind_state
   \<Rightarrow> pystr \<times> bind_state" where
  "derive_session_id cr be fresh raw_sid caller secret st =
     (if raw_sid = [] then (fresh, bump_fallback ''empty_raw_sid'' st)
      else
        (let key = (case secret of None \<Rightarrow> env_secret be | Some k \<Rightarrow> k) in
         if key = [] then (legacy_derive cr raw_sid, bump_fallback ''secret_unset'' st)
         else
           (case caller of
              Some (c # cs) \<Rightarrow> (hmac_derive cr raw_sid (c # cs) key, st)
            | _ \<Rightarrow> (legacy_derive cr raw_sid,
                    bump_fallback ''caller_identity_missing'' (missing_caller be st)))))"

definition note_prev_secret_hit :: "bind_env \<Rightarrow> bind_state \<Rightarrow> bind_state" where
  "note_prev_secret_hit be st =
     (case rearm_tick (PREV_HIT_REARM_EVERY be) (prev_hit_count st) of
        (should_warn, count) \<Rightarrow>
          st\<lparr>prev_hit_count := count,
             prev_warnings := prev_warnings st @ (if should_warn then [count] else [])\<rparr>)"

definition derive_session_id_candidates ::
  "crypto \<Rightarrow> bind_env \<Rightarrow> pystr \<Rightarrow> pystr \<Rightarrow> pystr option \<Rightarrow> pystr option \<Rightarrow> pystr option
   \<Rightarrow> bind_state \<Rightarrow> pystr list \<times> bind_state" where
  "derive_session_id_candidates cr be fresh raw_sid caller secret prev_secret st =
     (case derive_session_id cr be fresh raw_sid caller secret st of
        (current, st') \<Rightarrow>
          (case caller of
             Some (c # cs) \<Rightarrow>
               if raw_sid = [] then ([current], st')
               else
                 (let key = (case secret of None \<Rightarrow> env_secret be | Some k \<Rightarrow> k);
                      prev = (case prev_secret of None \<Rightarrow> env_prev_secret be | Some k \<Rightarrow> k)
                  in if prev = [] \<or> prev = key then ([current], st')
                     else (let prev_id = hmac_derive cr raw_sid (c # cs) prev
                           in if prev_id = current then ([current], st')
                              else ([current, prev_id], st')))
           | _ \<Rightarrow> ([current], st')))"

section \<open>Lemmas\<close>

text \<open>The message that is authenticated determines caller hash and raw id: the hash has a fixed
  length, so the separator cannot be forged by a raw id that contains it.\<close>

lemma hmac_message_inject:
  assumes "length (sha256_hex cr c) = 64" "length (sha256_hex cr d) = 64"
  shows "hmac_message cr r c = hmac_message cr s d \<longleftrightarrow> sha256_hex cr c = sha256_hex cr d \<and> r = s"
  using assms by (auto simp: hmac_message_def hash_caller_def append_eq_append_conv)

lemma derive_bound:
  assumes "raw \<noteq> []" "key \<noteq> []" "c \<noteq> []"
  shows "derive_session_id cr be fresh raw (Some c) (Some key) st = (hmac_derive cr raw c key, st)"
  using assms by (cases c) (simp_all add: derive_session_id_def)

definition demo_crypto :: crypto where
  "demo_crypto = \<lparr>sha256_hex = \<lambda>x. replicate 64 (if x = ''bob'' then CHR ''1'' else CHR ''0''), hmac_hex = \<lambda>k m. k @ m,
     uuid5_url = \<lambda>x. x\<rparr>"

definition demo_bind_env :: bind_env where
  "demo_bind_env = \<lparr>env_secret = ''k'', env_prev_secret = [], bind_rearm = 500, prev_hit_rearm = 500\<rparr>"

section \<open>Properties\<close>

text \<open>Two requests with different callers or different raw ids are stored under different
  session ids once a secret is configured and both callers are identified, provided the hash
  functions do not collide on the inputs that occur.\<close>

theorem bound_sessions_disjoint:
  assumes "raw1 \<noteq> []" "raw2 \<noteq> []" "c1 \<noteq> []" "c2 \<noteq> []" "key \<noteq> []" and "(c1, raw1) \<noteq> (c2, raw2)"
    and "\<And>x. length (sha256_hex cr x) = 64"
    and "sha256_hex cr c1 = sha256_hex cr c2 \<Longrightarrow> c1 = c2"
    and "hmac_hex cr key (hmac_message cr raw1 c1) = hmac_hex cr key (hmac_message cr raw2 c2) \<Longrightarrow>
      hmac_message cr raw1 c1 = hmac_message cr raw2 c2"
    and "inj_on (uuid5_url cr) {hmac_hex cr key (hmac_message cr raw1 c1), hmac_hex cr key (hmac_message cr raw2 c2)}"
  shows "fst (derive_session_id cr be f1 raw1 (Some c1) (Some key) st1) \<noteq>
    fst (derive_session_id cr be f2 raw2 (Some c2) (Some key) st2)"
proof
  assume "fst (derive_session_id cr be f1 raw1 (Some c1) (Some key) st1) =
    fst (derive_session_id cr be f2 raw2 (Some c2) (Some key) st2)"
  then have "hmac_derive cr raw1 c1 key = hmac_derive cr raw2 c2 key"
    using assms(1-5) by (simp add: derive_bound)
  then have "hmac_hex cr key (hmac_message cr raw1 c1) = hmac_hex cr key (hmac_message cr raw2 c2)"
    unfolding hmac_derive_def by (rule inj_onD [OF assms(10)]) simp_all
  then have "hmac_message cr raw1 c1 = hmac_message cr raw2 c2" by (rule assms(9))
  then have "sha256_hex cr c1 = sha256_hex cr c2" "raw1 = raw2"
    using assms(7) by (simp_all add: hmac_message_inject)
  with assms(6,8) show False by blast
qed

theorem bound_sessions_disjoint_witness:
  "fst (derive_session_id demo_crypto demo_bind_env [] ''s'' (Some ''alice'') (Some ''k'') init_bind_state) \<noteq>
   fst (derive_session_id demo_crypto demo_bind_env [] ''s'' (Some ''bob'') (Some ''k'') init_bind_state)"
proof (rule bound_sessions_disjoint [where cr = demo_crypto])
  show "length (sha256_hex demo_crypto x) = 64" for x by (simp add: demo_crypto_def)
  have "sha256_hex demo_crypto ''alice'' \<noteq> sha256_hex demo_crypto ''bob''"
    by (simp add: demo_crypto_def replicate_eq_replicate)
  then show "sha256_hex demo_crypto ''alice'' = sha256_hex demo_crypto ''bob'' \<Longrightarrow> ''alice'' = ''bob''"
    by blast
  have hmac: "hmac_hex demo_crypto k m = k @ m" and uuid: "uuid5_url demo_crypto x = x" for k m x
    by (simp_all only: demo_crypto_def crypto.simps)
  show "inj_on (uuid5_url demo_crypto) A" for A by (simp add: uuid inj_on_def)
  show "hmac_message demo_crypto ''s'' ''alice'' = hmac_message demo_crypto ''s'' ''bob''"
    if "hmac_hex demo_crypto ''k'' (hmac_message demo_crypto ''s'' ''alice'') =
      hmac_hex demo_crypto ''k'' (hmac_message demo_crypto ''s'' ''bob'')"
    using that by (simp only: hmac append_same_eq same_append_eq)
qed simp_all

text \<open>The rotation probe list: it starts with the id new writes use, has no duplicates and at
  most two entries; the second one is present exactly when the request is attributable, a
  different previous secret is set and it leads to a different id. (It is present also when the
  current secret is unset.)\<close>

theorem rotation_candidates:
  assumes "derive_session_id_candidates cr be fresh raw caller (Some key) (Some prev) st = (cands, st')"
  shows "derive_session_id cr be fresh raw caller (Some key) st = (hd cands, st') \<and> distinct cands \<and>
    tl cands = (case caller of
        Some c \<Rightarrow> if raw \<noteq> [] \<and> c \<noteq> [] \<and> prev \<noteq> [] \<and> prev \<noteq> key \<and> hmac_derive cr raw c prev \<noteq> hd cands
                 then [hmac_derive cr raw c prev] else []
      | None \<Rightarrow> [])"
  using assms
  by (auto simp: derive_session_id_candidates_def Let_def split: option.splits list.splits prod.splits if_splits)

theorem rotation_candidates_witness:
  "tl (fst (derive_session_id_candidates demo_crypto demo_bind_env [] ''s'' (Some ''bob'') (Some [])
      (Some ''old'') init_bind_state)) = [hmac_derive demo_crypto ''s'' ''bob'' ''old'']"
proof -
  obtain cands st where c: "derive_session_id_candidates demo_crypto demo_bind_env [] ''s'' (Some ''bob'')
      (Some []) (Some ''old'') init_bind_state = (cands, st)" by (rule prod.exhaust)
  have "hd cands = ''s''"
    using rotation_candidates [OF c]
    by (auto simp: derive_session_id_def legacy_derive_def demo_crypto_def split: if_splits)
  moreover have "hmac_derive demo_crypto ''s'' ''bob'' ''old'' \<noteq> ''s''"
    by (simp add: hmac_derive_def demo_crypto_def)
  ultimately show ?thesis using rotation_candidates [OF c] c by simp
qed

text \<open>Without a caller identity a UUID is taken as the stored id itself, so a request that
  presents the derived id of a caller-bound session addresses that very session; it only leaves
  a trace in the fallback counter.\<close>

theorem unidentified_reaches_bound:
  assumes "is_uuid (hmac_derive cr raw c key)" and "key \<noteq> []"
  shows "\<exists>st'. derive_session_id cr be fresh (hmac_derive cr raw c key) None (Some key) st =
      (hmac_derive cr raw c key, st') \<and>
    missing_caller_count st' = Suc (missing_caller_count st) \<and>
    fallback_reasons st' = fallback_reasons st @ [''caller_identity_missing'']"
proof -
  have "hmac_derive cr raw c key \<noteq> []"
    using assms(1) by (auto simp: is_uuid_def strip_braces_def lstrip_by_def rstrip_by_def)
  with assms show ?thesis
    by (simp add: derive_session_id_def legacy_derive_def bump_fallback_def missing_caller_def
        rearm_tick_def)
qed

lemma sample_uuid: "is_uuid ''f81d4fae-7dec-11d0-a765-00a0c91e6bf6''"
  by code_simp

theorem unidentified_reaches_bound_witness:
  "fst (derive_session_id (demo_crypto\<lparr>uuid5_url := \<lambda>x. ''f81d4fae-7dec-11d0-a765-00a0c91e6bf6''\<rparr>)
     demo_bind_env [] ''f81d4fae-7dec-11d0-a765-00a0c91e6bf6'' None (Some ''k'') init_bind_state) =
   ''f81d4fae-7dec-11d0-a765-00a0c91e6bf6''"
proof -
  let ?cr = "demo_crypto\<lparr>uuid5_url := \<lambda>x. ''f81d4fae-7dec-11d0-a765-00a0c91e6bf6''\<rparr>"
  have id: "hmac_derive ?cr ''s'' ''bob'' ''k'' = ''f81d4fae-7dec-11d0-a765-00a0c91e6bf6''"
    by (simp add: hmac_derive_def)
  show ?thesis
    using unidentified_reaches_bound [of ?cr "''s''" "''bob''" "''k''" demo_bind_env "[]" init_bind_state]
      sample_uuid
    unfolding id by auto
qed

text \<open>The missing-caller warning re-arms: a run of \<open>k\<close> unattributed requests on a fresh process
  logs \<open>\<lceil>k / n\<rceil>\<close> warnings, one on the first of every \<open>n\<close> misses.\<close>

theorem missing_caller_rearms:
  "length (bind_warnings ((missing_caller be ^^ k) init_bind_state)) =
     (k + nat (SESSION_BIND_REARM_EVERY be) - 1) div nat (SESSION_BIND_REARM_EVERY be)"
proof -
  let ?n = "nat (SESSION_BIND_REARM_EVERY be)"
  have n: "?n \<ge> 1" "SESSION_BIND_REARM_EVERY be \<ge> 0" by (simp_all add: SESSION_BIND_REARM_EVERY_def)
  have step: "missing_caller_count (missing_caller be st) = Suc (missing_caller_count st)"
    "length (bind_warnings (missing_caller be st)) = length (bind_warnings st) +
       (if fst (rearm_tick (int ?n) (missing_caller_count st)) then 1 else 0)" for st
    by (simp_all add: missing_caller_def rearm_tick_def n(2))
  have "missing_caller_count ((missing_caller be ^^ k) init_bind_state) = k \<and>
    length (bind_warnings ((missing_caller be ^^ k) init_bind_state)) =
      length (filter (\<lambda>c. fst (rearm_tick (int ?n) c)) [0..<k])"
    by (induction k) (simp_all add: step, simp_all add: init_bind_state_def)
  with rearm_warnings [OF n(1), of k] show ?thesis by simp
qed

end
