(* ===== verification/Hooks_Engine.thy ===== *)
theory Hooks_Engine
  imports Py_Text
begin

text \<open>
  Model of \<open>shared/hooks_engine.py\<close>: the policy engine that decides whether a tool call is
  allowed, warned about or denied. The six baseline predicates are modelled on the parsed
  command line (their regular expressions written out as functions), the evaluator and the
  parser of \<open>hooks.yaml\<close> entries with them. Regular expressions of extension rules are an
  argument (\<open>regex\<close>: compilation and search). In the reason texts of the baseline rules the
  long dash and the ellipsis are written in ASCII.
\<close>

type_synonym tool_input = "(pystr \<times> pyval) list"

section \<open>Baseline predicates\<close>

definition bash_command :: "tool_input \<Rightarrow> pystr" where
  "bash_command ti = (case dict_get ti ''command'' of Some (PStr s) \<Rightarrow> s | _ \<Rightarrow> [])"

definition argv_basenames :: "pystr \<Rightarrow> pystr list" where
  "argv_basenames command = map basename (safe_shlex_split command)"

subsection \<open>Recursive forced removal\<close>

definition RM_RF_DANGEROUS_TARGETS :: "pystr list" where
  "RM_RF_DANGEROUS_TARGETS =
     [''/'', ''/*'', ''/.'', ''/..'', ''~'', ''~root'', ''~/'', ''$HOME'', ''${HOME}'', ''/root'', ''/home'',
      ''/etc'', ''/var'', ''/usr'', ''/bin'', ''/sbin'', ''/boot'', ''/lib'', ''/lib64'']"

definition is_rm_rf_target :: "pystr \<Rightarrow> bool" where
  "is_rm_rf_target token =
     (if token = [] then False
      else if token \<in> set RM_RF_DANGEROUS_TARGETS then True
      else (let stripped = rstrip_by (\<lambda>c. c = CHR ''/'' \<or> c = CHR ''*'') token
            in stripped \<noteq> [] \<and> stripped \<noteq> token \<and> stripped \<in> set RM_RF_DANGEROUS_TARGETS))"

definition short_flag :: "char \<Rightarrow> pystr \<Rightarrow> bool" where
  "short_flag c t = (startswith t ''-'' \<and> \<not> startswith t ''--'' \<and> c \<in> set t)"

definition recursive_flag :: "pystr \<Rightarrow> bool" where
  "recursive_flag t = (t \<in> {''-r'', ''-R'', ''--recursive''} \<or> short_flag CHR ''r'' t)"

definition force_flag :: "pystr \<Rightarrow> bool" where
  "force_flag t = (t \<in> {''-f'', ''--force'', ''--no-preserve-root''} \<or> short_flag CHR ''f'' t)"

definition rm_args_match :: "pystr list \<Rightarrow> bool" where
  "rm_args_match rest =
     (((list_ex recursive_flag rest \<and> list_ex force_flag rest) \<or> ''--no-preserve-root'' \<in> set rest) \<and>
      list_ex is_rm_rf_target rest)"

fun rm_rf_argv :: "pystr list \<Rightarrow> bool" where
  "rm_rf_argv [] = False"
| "rm_rf_argv (tok # rest) = ((basename tok = ''rm'' \<and> rm_args_match rest) \<or> rm_rf_argv rest)"

text \<open>The arguments of \<open>sh -c\<close> and the like, which are commands again.\<close>

fun dash_c_args :: "pystr list \<Rightarrow> pystr list" where
  "dash_c_args (t # u # v # rest) =
     (if basename t \<in> {''sh'', ''bash'', ''zsh'', ''ksh''} \<and> u = ''-c''
      then v # dash_c_args (u # v # rest) else dash_c_args (u # v # rest))"
| "dash_c_args _ = []"

lemma dash_c_args_split:
  "x \<in> set (dash_c_args argv) \<Longrightarrow> \<exists>us v vs. argv = us @ v # vs \<and> v \<noteq> [] \<and> x \<in> set vs"
proof (induction argv rule: dash_c_args.induct)
  case (1 t u v rest)
  show ?case
  proof (cases "x \<in> set (dash_c_args (u # v # rest))")
    case True
    then obtain us w ws where "u # v # rest = us @ w # ws" "w \<noteq> []" "x \<in> set ws"
      using "1.IH" by auto
    then show ?thesis by (metis append_Cons)
  next
    case False
    with "1.prems" have "x = v" "u = ''-c''" by (auto split: if_splits)
    then show ?thesis by (intro exI [of _ "[t]"] exI [of _ u] exI [of _ "v # rest"]) simp
  qed
qed auto

function rm_rf_command :: "pystr \<Rightarrow> bool" where
  "rm_rf_command command =
     (let argv = safe_shlex_split command
      in rm_rf_argv argv \<or> list_ex rm_rf_command (dash_c_args argv))"
  by pat_completeness auto
termination
  by (relation "measure length") (auto dest!: dash_c_args_split intro: safe_shlex.later_token_shorter)

declare rm_rf_command.simps [simp del]

definition predicate_rm_rf_root :: "tool_input \<Rightarrow> bool" where
  "predicate_rm_rf_root ti = rm_rf_command (bash_command ti)"

subsection \<open>Forced push to main\<close>

fun skip_git_options :: "pystr list \<Rightarrow> pystr list" where
  "skip_git_options [] = []"
| "skip_git_options (a # rest) =
     (if startswith a ''-'' then
        (if a = ''-C'' \<or> a = ''-c'' then skip_git_options (drop 1 rest) else skip_git_options rest)
      else a # rest)"

definition force_push_flag :: "pystr \<Rightarrow> bool" where
  "force_push_flag a =
     (a = ''-f'' \<or> a = ''--force'' \<or> a = ''--force-with-lease'' \<or> startswith a ''--force='' \<or>
      startswith a ''--force-with-lease='')"

definition main_ref :: "pystr \<Rightarrow> bool" where
  "main_ref a =
     (a = ''main'' \<or> a = ''master'' \<or> endswith a '':main'' \<or> endswith a '':master'' \<or>
      endswith a ''/main'' \<or> endswith a ''/master'')"

definition push_args_match :: "pystr list \<Rightarrow> bool" where
  "push_args_match rest =
     (case skip_git_options rest of
        [] \<Rightarrow> False
      | cmd # push_args \<Rightarrow>
          cmd = ''push'' \<and> list_ex force_push_flag push_args \<and> list_ex main_ref push_args)"

fun git_force_push_argv :: "pystr list \<Rightarrow> bool" where
  "git_force_push_argv [] = False"
| "git_force_push_argv (tok # rest) =
     ((basename tok = ''git'' \<and> push_args_match rest) \<or> git_force_push_argv rest)"

definition predicate_git_force_push_main :: "tool_input \<Rightarrow> bool" where
  "predicate_git_force_push_main ti = git_force_push_argv (safe_shlex_split (bash_command ti))"

subsection \<open>A download piped into a shell\<close>

text \<open>\<open>re.split(r"\|+&?", command)\<close>.\<close>

fun pipe_split_acc :: "pystr \<Rightarrow> pystr \<Rightarrow> pystr list" where
  "pipe_split_acc cur [] = [cur]"
| "pipe_split_acc cur [c] = (if c = CHR ''|'' then [cur, []] else [cur @ [c]])"
| "pipe_split_acc cur (c # d # s) =
     (if c = CHR ''|'' then
        (if d = CHR ''|'' then pipe_split_acc cur (d # s)
         else if d = CHR ''&'' then cur # pipe_split_acc [] s
         else cur # pipe_split_acc [] (d # s))
      else pipe_split_acc (cur @ [c]) (d # s))"

definition pipe_split :: "pystr \<Rightarrow> pystr list" where
  "pipe_split s = pipe_split_acc [] s"

definition SHELL_NAMES :: "pystr list" where
  "SHELL_NAMES = [''sh'', ''bash'', ''zsh'', ''ksh'', ''dash'', ''ash'']"

definition is_word_start :: "char \<Rightarrow> bool" where
  "is_word_start c =
     (let n = (of_char c :: nat) in (65 \<le> n \<and> n \<le> 90) \<or> (97 \<le> n \<and> n \<le> 122) \<or> n = 95)"

definition is_word_char :: "char \<Rightarrow> bool" where
  "is_word_char c = (let n = (of_char c :: nat) in is_word_start c \<or> (48 \<le> n \<and> n \<le> 57))"

definition env_assignment :: "pystr \<Rightarrow> bool" where
  "env_assignment t =
     (case t of
        [] \<Rightarrow> False
      | c # s \<Rightarrow> is_word_start c \<and> startswith (dropWhile is_word_char s) ''='')"

definition consumer_head :: "pystr list \<Rightarrow> pystr" where
  "consumer_head consumer =
     (case filter (\<lambda>t. \<not> env_assignment t) consumer of [] \<Rightarrow> [] | t # _ \<Rightarrow> t)"

definition fetches :: "pystr \<Rightarrow> bool" where
  "fetches segment =
     list_ex (\<lambda>t. \<not> startswith t ''-'' \<and> basename t \<in> {''curl'', ''wget''}) (safe_shlex_split segment)"

definition feeds_shell :: "pystr \<Rightarrow> bool" where
  "feeds_shell segment =
     (basename (consumer_head (safe_shlex_split segment)) \<in> set SHELL_NAMES)"

fun pipe_match :: "pystr list \<Rightarrow> bool" where
  "pipe_match (a # b # segs) = ((fetches a \<and> feeds_shell b) \<or> pipe_match (b # segs))"
| "pipe_match _ = False"

definition predicate_curl_pipe_shell :: "tool_input \<Rightarrow> bool" where
  "predicate_curl_pipe_shell ti =
     (let command = bash_command ti in if command = [] then False else pipe_match (pipe_split command))"

subsection \<open>World-writable chmod\<close>

definition is_octal :: "char \<Rightarrow> bool" where
  "is_octal c = (let n = (of_char c :: nat) in 48 \<le> n \<and> n \<le> 55)"

text \<open>\<open>re.fullmatch(r"0*[0-7]{3,4}", s)\<close>.\<close>

definition octal_mode :: "pystr \<Rightarrow> bool" where
  "octal_mode s =
     list_ex (\<lambda>k. k \<le> length s \<and> list_all ((=) CHR ''0'') (take (length s - k) s) \<and>
       list_all is_octal (drop (length s - k) s)) [3, 4]"

definition octal_777 :: "pystr \<Rightarrow> bool" where
  "octal_777 s =
     (let stripped = lstrip_by ((=) CHR ''0'') s;
          digits = (if stripped = [] then ''0'' else stripped);
          tail = (if length digits \<ge> 3 then drop (length digits - 3) digits
                  else replicate (3 - length digits) CHR ''0'' @ digits)
      in tail = ''777'')"

text \<open>\<open>re.fullmatch(r"([ugoa]+)([+=])([rwxXst]+)", s)\<close> and its three groups: the character
  classes are disjoint, so the split is unique.\<close>

definition sym_mode :: "pystr \<Rightarrow> (pystr \<times> char \<times> pystr) option" where
  "sym_mode s =
     (let who = takeWhile (\<lambda>c. c \<in> set ''ugoa'') s in
      case dropWhile (\<lambda>c. c \<in> set ''ugoa'') s of
        [] \<Rightarrow> None
      | op # perms \<Rightarrow>
          if who \<noteq> [] \<and> op \<in> set ''+='' \<and> perms \<noteq> [] \<and> list_all (\<lambda>c. c \<in> set ''rwxXst'') perms
          then Some (who, op, perms) else None)"

fun chmod_modes :: "pystr list \<Rightarrow> bool" where
  "chmod_modes [] = False"
| "chmod_modes (m # rest) =
     (if startswith m ''-'' then chmod_modes rest
      else if octal_mode m then octal_777 m
      else (case sym_mode m of
              None \<Rightarrow> False
            | Some (who, op, perms) \<Rightarrow>
                CHR ''w'' \<in> set perms \<and> (CHR ''a'' \<in> set who \<or> CHR ''o'' \<in> set who)))"

fun chmod_argv :: "pystr list \<Rightarrow> bool" where
  "chmod_argv [] = False"
| "chmod_argv (tok # rest) = ((basename tok = ''chmod'' \<and> chmod_modes rest) \<or> chmod_argv rest)"

definition predicate_chmod_777 :: "tool_input \<Rightarrow> bool" where
  "predicate_chmod_777 ti = chmod_argv (safe_shlex_split (bash_command ti))"

subsection \<open>Writing to a device or a system path\<close>

definition DD_DEVICE_FAMILIES :: "pystr list" where
  "DD_DEVICE_FAMILIES =
     [''sd'', ''nvme'', ''disk'', ''hd'', ''vd'', ''xvd'', ''mmcblk'', ''loop'', ''mapper/'', ''md'', ''dm-'']"

definition dd_arg :: "pystr \<Rightarrow> bool" where
  "dd_arg arg =
     (startswith arg ''of='' \<and>
      (let target = drop 3 arg
       in startswith target ''/dev/'' \<and> list_ex (startswith (drop 5 target)) DD_DEVICE_FAMILIES))"

fun dd_argv :: "pystr list \<Rightarrow> bool" where
  "dd_argv [] = False"
| "dd_argv (tok # rest) = ((basename tok = ''dd'' \<and> list_ex dd_arg rest) \<or> dd_argv rest)"

definition predicate_dd_device :: "tool_input \<Rightarrow> bool" where
  "predicate_dd_device ti = dd_argv (safe_shlex_split (bash_command ti))"

definition SYSTEM_DIRS :: "pystr list" where
  "SYSTEM_DIRS = [''etc'', ''boot'', ''bin'', ''sbin'', ''usr'', ''lib'', ''lib64'', ''sys'', ''proc'', ''dev'']"

definition SYSTEM_ROOTS :: "pystr list" where
  "SYSTEM_ROOTS = map ((#) CHR ''/'') SYSTEM_DIRS"

definition system_path :: "pystr \<Rightarrow> bool" where
  "system_path path =
     (let norm = normpath path
      in isabs norm \<and> list_ex (\<lambda>root. norm = root \<or> startswith norm (root @ ''/'')) SYSTEM_ROOTS)"

definition predicate_write_system_path :: "tool_input \<Rightarrow> bool" where
  "predicate_write_system_path ti =
     list_ex (\<lambda>key. case dict_get ti key of
                      Some (PStr path) \<Rightarrow> path \<noteq> [] \<and> system_path path
                    | _ \<Rightarrow> False) [''file_path'', ''path'', ''notebook_path'']"

section \<open>Rules\<close>

datatype decision = DECISION_ALLOW | DECISION_DENY | DECISION_WARN
datatype source = Baseline | Extension

text \<open>A rule has a predicate or a pattern; \<open>'p\<close> is the type of compiled patterns.\<close>

record 'p rule =
  rule_name :: pystr
  rule_tool :: "pystr option"
  rule_pattern :: "'p option"
  rule_action :: decision
  rule_reason :: pystr
  rule_source :: source
  rule_predicate :: "(tool_input \<Rightarrow> bool) option"

record 'p regex =
  rx_compile :: "pystr \<Rightarrow> 'p option"
  rx_search :: "'p \<Rightarrow> pystr \<Rightarrow> bool"

definition baseline_rule :: "pystr \<Rightarrow> pystr \<Rightarrow> (tool_input \<Rightarrow> bool) \<Rightarrow> pystr \<Rightarrow> 'p rule" where
  "baseline_rule name tool predicate reason =
     \<lparr>rule_name = name, rule_tool = Some tool, rule_pattern = None, rule_action = DECISION_DENY,
      rule_reason = reason, rule_source = Baseline, rule_predicate = Some predicate\<rparr>"

definition BASELINE_WRITE_TOOLS :: "pystr list" where
  "BASELINE_WRITE_TOOLS = [''Write'', ''Edit'', ''MultiEdit'', ''NotebookEdit'']"

definition BASELINE_RULES :: "'p rule list" where
  "BASELINE_RULES =
     [baseline_rule ''baseline-rm-rf-root'' ''Bash'' predicate_rm_rf_root
        ''rm -rf targeting root or a system directory - refusing by baseline policy.'',
      baseline_rule ''baseline-git-force-push-main'' ''Bash'' predicate_git_force_push_main
        ''git push --force to main/master - refusing by baseline policy.'',
      baseline_rule ''baseline-curl-pipe-shell'' ''Bash'' predicate_curl_pipe_shell
        ''curl/wget piped to a shell - refusing by baseline policy.'',
      baseline_rule ''baseline-chmod-777'' ''Bash'' predicate_chmod_777
        ''chmod world-writable (0777 or a+w/o+w) - refusing by baseline policy.'',
      baseline_rule ''baseline-dd-device'' ''Bash'' predicate_dd_device
        ''dd to a block device - refusing by baseline policy.''] @
     map (\<lambda>tool. baseline_rule ''baseline-write-system-path'' tool predicate_write_system_path
        ''Write/Edit targeting a system path (/etc, /usr, /bin, ...) - refusing by baseline policy.'') BASELINE_WRITE_TOOLS"

text \<open>The pattern part of \<open>_parse_extension_rule\<close>: deny wins over warn.\<close>

definition parse_pattern ::
  "'p regex \<Rightarrow> (pystr \<times> pyval) list \<Rightarrow> pystr \<Rightarrow> pystr option \<Rightarrow> pystr list \<times> 'p rule option" where
  "parse_pattern rx raw name tool =
     (let deny_pat = dict_get raw ''deny_if_match''; warn_pat = dict_get raw ''warn_if_match'';
          errs = (if truthy deny_pat \<and> truthy warn_pat then [''both_patterns''] else [])
      in if \<not> truthy deny_pat \<and> \<not> truthy warn_pat then ([''no_pattern''], None)
         else
           (case (if truthy deny_pat then deny_pat else warn_pat) of
              Some (PStr src) \<Rightarrow>
                (case rx_compile rx src of
                   None \<Rightarrow> (errs @ [''invalid_regex''], None)
                 | Some p \<Rightarrow>
                     (errs,
                      Some \<lparr>rule_name = name,
                            rule_tool = (case tool of
                                None \<Rightarrow> None
                              | Some t \<Rightarrow> if t \<noteq> [] \<and> t \<noteq> ''*'' then Some t else None),
                            rule_pattern = Some p,
                            rule_action = (if truthy deny_pat then DECISION_DENY else DECISION_WARN),
                            rule_reason =
                              (if truthy (dict_get raw ''reason'')
                               then str_val (the (dict_get raw ''reason''))
                               else ''blocked by extension rule '' @ repr_str name),
                            rule_source = Extension, rule_predicate = None\<rparr>))
            | _ \<Rightarrow> (errs @ [''non_string_pattern''], None)))"

text \<open>\<open>_parse_extension_rule\<close>: the labels reported to the error counter, and the rule.\<close>

definition parse_extension_rule ::
  "'p regex \<Rightarrow> (pystr \<times> pyval) list \<Rightarrow> pystr list \<times> 'p rule option" where
  "parse_extension_rule rx raw =
     (case dict_get raw ''name'' of
        Some (PStr name) \<Rightarrow>
          if strip name = [] then ([''missing_name''], None)
          else
            (case get_or_none raw ''tool'' of
               PNone \<Rightarrow> parse_pattern rx raw name None
             | PStr tool \<Rightarrow> parse_pattern rx raw name (Some tool)
             | _ \<Rightarrow> ([''non_string_tool''], None))
      | _ \<Rightarrow> ([''missing_name''], None))"

datatype yaml_file = NoFile | LoadFailed | Loaded pyval

fun parse_extension_list :: "'p regex \<Rightarrow> pyval list \<Rightarrow> pystr list \<times> 'p rule list" where
  "parse_extension_list rx [] = ([], [])"
| "parse_extension_list rx (raw # raws) =
     (case parse_extension_list rx raws of
        (errs, rules) \<Rightarrow>
          (case raw of
             PDict d \<Rightarrow>
               (case parse_extension_rule rx d of
                  (es, None) \<Rightarrow> (es @ errs, rules)
                | (es, Some r) \<Rightarrow> (es @ errs, r # rules))
           | _ \<Rightarrow> (''non_mapping_entry'' # errs, rules)))"

definition load_extension_rules :: "'p regex \<Rightarrow> yaml_file \<Rightarrow> pystr list \<times> 'p rule list" where
  "load_extension_rules rx file =
     (case file of
        NoFile \<Rightarrow> ([], [])
      | LoadFailed \<Rightarrow> ([''file_load_failed''], [])
      | Loaded doc \<Rightarrow>
          (case (if truthy (Some doc) then doc else PDict []) of
             PDict data \<Rightarrow>
               (let exts = get_or_none data ''extensions'' in
                case (if truthy (Some exts) then exts else PList []) of
                  PList raws \<Rightarrow> parse_extension_list rx raws
                | _ \<Rightarrow> ([''non_list_extensions''], []))
           | _ \<Rightarrow> ([''not_mapping''], [])))"

section \<open>The evaluator\<close>

definition tool_matches :: "'p rule \<Rightarrow> pystr \<Rightarrow> bool" where
  "tool_matches r tool_name = (case rule_tool r of None \<Rightarrow> True | Some t \<Rightarrow> t = tool_name)"

definition input_haystack :: "tool_input \<Rightarrow> pystr" where
  "input_haystack ti = json_dumps (PDict ti)"

definition rule_matched :: "'p regex \<Rightarrow> tool_input \<Rightarrow> 'p rule \<Rightarrow> bool" where
  "rule_matched rx ti r =
     (case rule_predicate r of
        Some p \<Rightarrow> p ti
      | None \<Rightarrow> (case rule_pattern r of None \<Rightarrow> False | Some p \<Rightarrow> rx_search rx p (input_haystack ti)))"

fun evaluate_loop ::
  "'p regex \<Rightarrow> pystr \<Rightarrow> tool_input \<Rightarrow> 'p rule option \<Rightarrow> 'p rule list \<Rightarrow> decision \<times> 'p rule option" where
  "evaluate_loop rx tool ti first_warn [] =
     (case first_warn of Some r \<Rightarrow> (DECISION_WARN, Some r) | None \<Rightarrow> (DECISION_ALLOW, None))"
| "evaluate_loop rx tool ti first_warn (r # rules) =
     (if \<not> tool_matches r tool then evaluate_loop rx tool ti first_warn rules
      else if \<not> rule_matched rx ti r then evaluate_loop rx tool ti first_warn rules
      else if rule_action r = DECISION_DENY then (DECISION_DENY, Some r)
      else if rule_action r = DECISION_WARN \<and> first_warn = None
           then evaluate_loop rx tool ti (Some r) rules
      else evaluate_loop rx tool ti first_warn rules)"

definition evaluate_pre_tool_use ::
  "'p regex \<Rightarrow> pystr \<Rightarrow> tool_input \<Rightarrow> 'p rule list \<Rightarrow> decision \<times> 'p rule option" where
  "evaluate_pre_tool_use rx tool ti rules = evaluate_loop rx tool ti None rules"

record 'p hook_state =
  baseline_enabled :: bool
  baseline :: "'p rule list"
  extensions :: "'p rule list"

definition active_rules :: "'p hook_state \<Rightarrow> 'p rule list" where
  "active_rules hs = (if baseline_enabled hs then baseline hs @ extensions hs else extensions hs)"

section \<open>Lemmas\<close>

lemma rm_rf_argv_iff:
  "rm_rf_argv argv \<longleftrightarrow> (\<exists>pre p rest. argv = pre @ p # rest \<and> basename p = ''rm'' \<and> rm_args_match rest)"
proof (induction argv)
  case (Cons t argv)
  show ?case
  proof
    assume "rm_rf_argv (t # argv)"
    then consider "basename t = ''rm''" "rm_args_match argv" | "rm_rf_argv argv" by auto
    then show "\<exists>pre p rest. t # argv = pre @ p # rest \<and> basename p = ''rm'' \<and> rm_args_match rest"
    proof cases
      case 1
      then show ?thesis by (intro exI [of _ "[]"] exI [of _ t] exI [of _ argv]) simp
    next
      case 2
      then show ?thesis using Cons.IH by (metis append_Cons)
    qed
  next
    assume "\<exists>pre p rest. t # argv = pre @ p # rest \<and> basename p = ''rm'' \<and> rm_args_match rest"
    then show "rm_rf_argv (t # argv)" using Cons.IH by (auto simp: Cons_eq_append_conv)
  qed
qed simp

lemma dash_c_args_iff:
  "x \<in> set (dash_c_args argv) \<longleftrightarrow>
   (\<exists>pre sh post. argv = pre @ sh # ''-c'' # x # post \<and> basename sh \<in> {''sh'', ''bash'', ''zsh'', ''ksh''})"
proof (induction argv rule: dash_c_args.induct)
  case (1 t u v rest)
  let ?P = "\<lambda>l. \<exists>pre sh post. l = pre @ sh # ''-c'' # x # post \<and> basename sh \<in> {''sh'', ''bash'', ''zsh'', ''ksh''}"
  have "?P (t # u # v # rest) \<longleftrightarrow>
    (basename t \<in> {''sh'', ''bash'', ''zsh'', ''ksh''} \<and> u = ''-c'' \<and> x = v) \<or> ?P (u # v # rest)"
    (is "_ \<longleftrightarrow> ?R")
  proof
    assume "?P (t # u # v # rest)"
    then show ?R by (auto simp: Cons_eq_append_conv [of t])
  next
    assume ?R
    then show "?P (t # u # v # rest)"
      by (metis append_Cons append_Nil)
  qed
  with "1.IH" show ?case by auto
qed (auto simp: Cons_eq_append_conv)

text \<open>The directory an absolute path names, walking its components with a stack.\<close>

definition resolve_step :: "pystr list \<Rightarrow> pystr \<Rightarrow> pystr list" where
  "resolve_step st c =
     (if c = [] \<or> c = ''.'' then st else if c = ''..'' then butlast st else st @ [c])"

definition resolve_abs :: "pystr \<Rightarrow> pystr list" where
  "resolve_abs p = foldl resolve_step [] (split_char CHR ''/'' p)"

lemma norm_comps_absolute:
  "''..'' \<notin> set acc \<Longrightarrow> norm_comps True acc cs = foldl resolve_step (rev acc) cs"
proof (induction cs arbitrary: acc)
  case (Cons c cs)
  have pop: "norm_comps True acc (''..'' # cs) = norm_comps True (tl acc) cs"
    using Cons.prems by (cases acc) auto
  consider "c = [] \<or> c = ''.''" | "c = ''..''" | "c \<noteq> []" "c \<noteq> ''.''" "c \<noteq> ''..''" by blast
  then show ?case
  proof cases
    case 1
    then show ?thesis using Cons by (auto simp: resolve_step_def)
  next
    case 2
    have "''..'' \<notin> set (tl acc)" using Cons.prems by (cases acc) auto
    then show ?thesis using 2 pop Cons.IH by (simp add: resolve_step_def butlast_rev del: norm_comps.simps)
  next
    case 3
    then show ?thesis using Cons by (simp add: resolve_step_def)
  qed
qed simp

lemma resolve_no_slash:
  assumes "\<forall>c\<in>set cs. CHR ''/'' \<notin> set c" "\<forall>c\<in>set st. CHR ''/'' \<notin> set c"
  shows "\<forall>c\<in>set (foldl resolve_step st cs). CHR ''/'' \<notin> set c"
  using assms
proof (induction cs arbitrary: st)
  case (Cons c cs)
  have "\<forall>d\<in>set (resolve_step st c). CHR ''/'' \<notin> set d"
    using Cons.prems by (auto simp: resolve_step_def dest: in_set_butlastD)
  with Cons show ?case by simp
qed simp

lemma resolve_abs_comps: "\<forall>c\<in>set (resolve_abs p). CHR ''/'' \<notin> set c"
  unfolding resolve_abs_def using split_char_no_sep by (intro resolve_no_slash) auto

lemma initial_slashes_cases: "initial_slashes p = 0 \<or> initial_slashes p = 1 \<or> initial_slashes p = 2"
  by (simp add: initial_slashes_def)

lemma norm_abs: "initial_slashes p = n \<Longrightarrow> n > 0 \<Longrightarrow>
    normpath p = replicate n CHR ''/'' @ join ''/'' (resolve_abs p)"
  by (auto simp: normpath_def norm_comps_absolute resolve_abs_def Let_def initial_slashes_def startswith_def
      split: if_splits)

lemma norm_comps_set: "set (norm_comps b acc cs) \<subseteq> set acc \<union> (set cs - {[]})"
proof (induction cs arbitrary: acc)
  case (Cons c cs)
  have tl: "set (tl acc) \<subseteq> set acc" by (cases acc) auto
  have "norm_comps b acc (c # cs) = norm_comps b acc cs \<or>
    norm_comps b acc (c # cs) = norm_comps b (c # acc) cs \<and> c \<noteq> [] \<or>
    norm_comps b acc (c # cs) = norm_comps b (tl acc) cs" by simp
  then consider "norm_comps b acc (c # cs) = norm_comps b acc cs"
    | "norm_comps b acc (c # cs) = norm_comps b (c # acc) cs" "c \<noteq> []"
    | "norm_comps b acc (c # cs) = norm_comps b (tl acc) cs"
    by blast
  then show ?case
  proof cases
    case 1
    then show ?thesis using Cons [of acc] by auto
  next
    case 2
    then show ?thesis using Cons [of "c # acc"] by auto
  next
    case 3
    then show ?thesis using Cons [of "tl acc"] tl by auto
  qed
qed simp

lemma normpath_relative: "initial_slashes p = 0 \<Longrightarrow> \<not> isabs (normpath p)"
proof (cases "p = []")
  case False
  assume zero: "initial_slashes p = 0"
  let ?cs = "norm_comps False [] (split_char CHR ''/'' p)"
  have cs: "\<forall>c\<in>set ?cs. CHR ''/'' \<notin> set c \<and> c \<noteq> []"
    using norm_comps_set [of False "[]" "split_char CHR ''/'' p"] split_char_no_sep by fastforce
  have "\<not> prefix ''/'' (join ''/'' ?cs)"
  proof (cases ?cs)
    case (Cons c ds)
    with cs obtain x y where "c = x # y" "x \<noteq> CHR ''/''" by (cases c) auto
    with Cons show ?thesis by (cases ds) auto
  qed simp
  with False zero show ?thesis by (auto simp: normpath_def Let_def isabs_def startswith_prefix)
qed (simp add: normpath_def isabs_def startswith_def)

text \<open>A slash-free directory name decides membership in a tree by the first component.\<close>

lemma under_root:
  assumes "\<forall>c\<in>set cs. CHR ''/'' \<notin> set c" "CHR ''/'' \<notin> set d" "d \<noteq> []"
  shows "join ''/'' cs = d \<or> startswith (join ''/'' cs) (d @ ''/'') \<longleftrightarrow> cs \<noteq> [] \<and> hd cs = d"
proof (cases cs)
  case Nil
  then show ?thesis using assms(3) by (auto simp: startswith_prefix)
next
  case (Cons s us)
  show ?thesis
  proof (cases us)
    case Nil
    with Cons assms(1) have "\<not> prefix (d @ ''/'') s" by (auto simp: prefix_def)
    with Cons Nil show ?thesis by (auto simp: startswith_prefix)
  next
    case (Cons t ts)
    let ?r = "join ''/'' us"
    have cs: "join ''/'' cs = s @ CHR ''/'' # ?r" using \<open>cs = s # us\<close> Cons by simp
    have s: "CHR ''/'' \<notin> set s" using assms(1) \<open>cs = s # us\<close> by simp
    have "prefix (d @ ''/'') (s @ CHR ''/'' # ?r) \<longleftrightarrow> d = s"
    proof
      assume "prefix (d @ ''/'') (s @ CHR ''/'' # ?r)"
      then obtain z where z: "s @ CHR ''/'' # ?r = d @ CHR ''/'' # z" by (auto simp: prefix_def)
      from arg_cong [OF z, of "\<lambda>l. hd (split_char CHR ''/'' l)"] s assms(2)
      show "d = s" by (simp add: split_char_append)
    qed (auto simp: prefix_def)
    moreover have "join ''/'' cs \<noteq> d" using cs assms(2) by auto
    ultimately show ?thesis using cs \<open>cs = s # us\<close> by (auto simp: startswith_prefix)
  qed
qed

text \<open>The first rule of a list that applies to a call and has a given action.\<close>

definition first_match :: "'p regex \<Rightarrow> pystr \<Rightarrow> tool_input \<Rightarrow> decision \<Rightarrow> 'p rule list \<Rightarrow> 'p rule option" where
  "first_match rx tool ti act rules =
     List.find (\<lambda>r. tool_matches r tool \<and> rule_matched rx ti r \<and> rule_action r = act) rules"

lemma first_match_Cons:
  "first_match rx tool ti act (r # rules) =
     (if tool_matches r tool \<and> rule_matched rx ti r \<and> rule_action r = act then Some r
      else first_match rx tool ti act rules)"
  by (simp add: first_match_def)

lemma evaluate_loop_spec:
  "evaluate_loop rx tool ti fw rules =
     (case first_match rx tool ti DECISION_DENY rules of
        Some r \<Rightarrow> (DECISION_DENY, Some r)
      | None \<Rightarrow>
          (case (case fw of None \<Rightarrow> first_match rx tool ti DECISION_WARN rules | Some r \<Rightarrow> Some r) of
             Some r \<Rightarrow> (DECISION_WARN, Some r)
           | None \<Rightarrow> (DECISION_ALLOW, None)))"
proof (induction rules arbitrary: fw)
  case Nil
  then show ?case by (simp add: first_match_def split: option.splits)
next
  case (Cons r rules)
  show ?case
    by (cases fw; cases "rule_action r") (auto simp: Cons first_match_Cons split: option.split)
qed

lemma first_match_append:
  "first_match rx tool ti act (xs @ ys) =
     (case first_match rx tool ti act xs of Some r \<Rightarrow> Some r | None \<Rightarrow> first_match rx tool ti act ys)"
  by (induction xs) (auto simp: first_match_def)

lemma first_match_SomeD:
  "first_match rx tool ti act rules = Some r \<Longrightarrow>
   r \<in> set rules \<and> tool_matches r tool \<and> rule_matched rx ti r \<and> rule_action r = act"
  unfolding first_match_def find_Some_iff by (metis nth_mem)

lemma first_match_NoneD:
  "first_match rx tool ti act rules = None \<Longrightarrow> r \<in> set rules \<Longrightarrow> tool_matches r tool \<Longrightarrow>
   rule_matched rx ti r \<Longrightarrow> rule_action r \<noteq> act"
  unfolding first_match_def find_None_iff by blast

text \<open>What the baseline forbids, by tool.\<close>

definition baseline_violation :: "pystr \<Rightarrow> tool_input \<Rightarrow> bool" where
  "baseline_violation tool ti =
     (if tool = ''Bash'' then
        predicate_rm_rf_root ti \<or> predicate_git_force_push_main ti \<or> predicate_curl_pipe_shell ti \<or>
        predicate_chmod_777 ti \<or> predicate_dd_device ti
      else tool \<in> set BASELINE_WRITE_TOOLS \<and> predicate_write_system_path ti)"

lemma baseline_rules_source: "r \<in> set BASELINE_RULES \<Longrightarrow> rule_source r = Baseline \<and> rule_action r = DECISION_DENY"
  by (auto simp: BASELINE_RULES_def baseline_rule_def)

lemma baseline_violation_iff:
  "baseline_violation tool ti \<longleftrightarrow>
   (\<exists>r\<in>set BASELINE_RULES. tool_matches r tool \<and> rule_matched rx ti (r :: 'p rule))"
  by (auto simp: baseline_violation_def BASELINE_RULES_def baseline_rule_def tool_matches_def
      rule_matched_def BASELINE_WRITE_TOOLS_def)

section \<open>Properties\<close>

text \<open>The evaluator: the first matching deny rule decides, wherever it stands in the list; only
  without one the first matching warn rule does; otherwise the call is allowed.\<close>

theorem evaluate_pre_tool_use_spec:
  "evaluate_pre_tool_use rx tool ti rules =
     (case first_match rx tool ti DECISION_DENY rules of
        Some r \<Rightarrow> (DECISION_DENY, Some r)
      | None \<Rightarrow>
          (case first_match rx tool ti DECISION_WARN rules of
             Some r \<Rightarrow> (DECISION_WARN, Some r)
           | None \<Rightarrow> (DECISION_ALLOW, None)))"
  by (simp add: evaluate_pre_tool_use_def evaluate_loop_spec split: option.split)

text \<open>C5: No extension file can lift the baseline: with the baseline enabled, a call is denied by a
  baseline rule exactly when it violates the baseline, whatever extension rules are loaded.\<close>

theorem baseline_not_overridable:
  assumes "baseline_enabled hs" and "baseline hs = BASELINE_RULES"
  shows "(\<exists>r. evaluate_pre_tool_use rx tool ti (active_rules hs) = (DECISION_DENY, Some r) \<and>
      r \<in> set BASELINE_RULES) \<longleftrightarrow> baseline_violation tool ti"
proof -
  let ?base = "first_match rx tool ti DECISION_DENY BASELINE_RULES"
  let ?ext = "first_match rx tool ti DECISION_DENY (extensions hs)"
  have eval: "evaluate_pre_tool_use rx tool ti (active_rules hs) =
     (case (case ?base of Some r \<Rightarrow> Some r | None \<Rightarrow> ?ext) of
        Some r \<Rightarrow> (DECISION_DENY, Some r)
      | None \<Rightarrow> evaluate_pre_tool_use rx tool ti (active_rules hs))"
    using assms
    by (auto simp: evaluate_pre_tool_use_def evaluate_loop_spec active_rules_def first_match_append
        split: option.splits)
  show ?thesis
  proof (cases ?base)
    case None
    have "\<not> baseline_violation tool ti"
      using first_match_NoneD [OF None] baseline_rules_source by (auto simp: baseline_violation_iff [of _ _ rx])
    moreover have "\<not> (evaluate_pre_tool_use rx tool ti (active_rules hs) = (DECISION_DENY, Some r) \<and>
        r \<in> set BASELINE_RULES)" for r
    proof
      assume r: "evaluate_pre_tool_use rx tool ti (active_rules hs) = (DECISION_DENY, Some r) \<and>
        r \<in> set BASELINE_RULES"
      then have "first_match rx tool ti DECISION_DENY (active_rules hs) = Some r"
        by (auto simp: evaluate_pre_tool_use_def evaluate_loop_spec split: option.splits)
      from first_match_SomeD [OF this] first_match_NoneD [OF None] r show False by blast
    qed
    ultimately show ?thesis by blast
  next
    case (Some r)
    from first_match_SomeD [OF this] have "baseline_violation tool ti"
      by (auto simp: baseline_violation_iff [of _ _ rx])
    moreover have "evaluate_pre_tool_use rx tool ti (active_rules hs) = (DECISION_DENY, Some r)"
      using eval Some by simp
    ultimately show ?thesis using first_match_SomeD [OF Some] by blast
  qed
qed

theorem baseline_not_overridable_witness:
  "\<exists>r. evaluate_pre_tool_use \<lparr>rx_compile = (\<lambda>s. Some s), rx_search = (\<lambda>p s. sublist p s)\<rparr> ''Write''
     [(''file_path'', PStr ''/srv/../etc/passwd'')]
     (active_rules \<lparr>baseline_enabled = True, baseline = BASELINE_RULES, extensions = []\<rparr>) =
     (DECISION_DENY, Some r) \<and> r \<in> set BASELINE_RULES"
proof -
  have "baseline_violation ''Write'' [(''file_path'', PStr ''/srv/../etc/passwd'')]"
    by code_simp
  then show ?thesis
    by (subst baseline_not_overridable) simp_all
qed

text \<open>What the removal rule is to catch, as one reads a command line.\<close>

definition names_program :: "pystr \<Rightarrow> pystr \<Rightarrow> bool" where
  "names_program w name \<longleftrightarrow> w = name \<or> (\<exists>dir. w = dir @ ''/'' @ name)"

definition has_option :: "pystr set \<Rightarrow> char \<Rightarrow> pystr list \<Rightarrow> bool" where
  "has_option long short ws \<longleftrightarrow>
     (\<exists>w\<in>set ws. w \<in> long \<or> (\<exists>c flags. w = CHR ''-'' # c # flags \<and> c \<noteq> CHR ''-'' \<and> short \<in> set (c # flags)))"

definition protected_dir :: "pystr set" where
  "protected_dir = {''/'', ''/*'', ''/.'', ''/..'', ''~'', ''~root'', ''~/'', ''$HOME'', ''${HOME}'', ''/root'', ''/home'',
     ''/etc'', ''/var'', ''/usr'', ''/bin'', ''/sbin'', ''/boot'', ''/lib'', ''/lib64''}"

definition protected_target :: "pystr \<Rightarrow> bool" where
  "protected_target w \<longleftrightarrow> w \<in> protected_dir \<or>
     (\<exists>dir tail. w = dir @ tail \<and> dir \<in> protected_dir \<and> last dir \<notin> {CHR ''/'', CHR ''*''} \<and> set tail \<subseteq> {CHR ''/'', CHR ''*''})"

inductive removes_root :: "pystr \<Rightarrow> bool" where
  removes_directly: "safe_shlex_split command = before @ rm # args \<Longrightarrow> names_program rm ''rm'' \<Longrightarrow>
     has_option {''-r'', ''-R'', ''--recursive''} CHR ''r'' args \<and> has_option {''-f'', ''--force'', ''--no-preserve-root''} CHR ''f'' args \<or>
       ''--no-preserve-root'' \<in> set args \<Longrightarrow>
     w \<in> set args \<Longrightarrow> protected_target w \<Longrightarrow> removes_root command"
| removes_in_shell: "safe_shlex_split command = before @ sh # ''-c'' # inner # after \<Longrightarrow>
     shell \<in> {''sh'', ''bash'', ''zsh'', ''ksh''} \<Longrightarrow> names_program sh shell \<Longrightarrow> removes_root inner \<Longrightarrow> removes_root command"

lemma names_program_basename: "CHR ''/'' \<notin> set name \<Longrightarrow> names_program w name \<longleftrightarrow> basename w = name"
proof
  assume name: "CHR ''/'' \<notin> set name"
  show "basename w = name" if "names_program w name"
    using that name basename_append [OF name] basename_self [OF name] by (auto simp: names_program_def)
  show "names_program w name" if "basename w = name"
  proof (cases "CHR ''/'' \<in> set w")
    case True
    then obtain d b where w: "w = d @ CHR ''/'' # b" "CHR ''/'' \<notin> set b" using split_list_last by fastforce
    then show ?thesis using that basename_append [OF w(2), of d] by (auto simp: names_program_def)
  next
    case False
    then show ?thesis using that basename_self [OF False] by (simp add: names_program_def)
  qed
qed

lemma short_flag_iff: "c \<noteq> CHR ''-'' \<Longrightarrow> short_flag c w \<longleftrightarrow> (\<exists>d flags. w = CHR ''-'' # d # flags \<and> d \<noteq> CHR ''-'' \<and> c \<in> set (d # flags))"
  by (cases w; cases "tl w") (auto simp: short_flag_def startswith_def)

lemma has_option_flags:
  "has_option {''-r'', ''-R'', ''--recursive''} CHR ''r'' ws \<longleftrightarrow> list_ex recursive_flag ws"
  "has_option {''-f'', ''--force'', ''--no-preserve-root''} CHR ''f'' ws \<longleftrightarrow> list_ex force_flag ws"
  by (simp_all add: has_option_def list_ex_iff recursive_flag_def force_flag_def short_flag_iff)

lemma rstrip_by_split: "\<exists>tail. w = rstrip_by p w @ tail \<and> (\<forall>c\<in>set tail. p c)"
proof -
  have "rev w = takeWhile p (rev w) @ dropWhile p (rev w)" by simp
  then have "w = rev (dropWhile p (rev w)) @ rev (takeWhile p (rev w))" by (metis rev_append rev_rev_ident)
  then show ?thesis unfolding rstrip_by_def by (intro exI [of _ "rev (takeWhile p (rev w))"]) (auto dest: set_takeWhileD)
qed

lemma rstrip_by_last: "rstrip_by p w \<noteq> [] \<Longrightarrow> \<not> p (last (rstrip_by p w))"
  unfolding rstrip_by_def using hd_dropWhile [of p "rev w"] by (simp add: last_rev)

lemma rstrip_by_keeps: "dir \<noteq> [] \<Longrightarrow> \<not> p (last dir) \<Longrightarrow> \<forall>c\<in>set tail. p c \<Longrightarrow> rstrip_by p (dir @ tail) = dir"
  unfolding rstrip_by_def by (cases dir rule: rev_cases) (simp_all add: dropWhile_append)

lemma protected_target_iff: "protected_target w \<longleftrightarrow> is_rm_rf_target w"
proof -
  let ?p = "\<lambda>c. c = CHR ''/'' \<or> c = CHR ''*''"
  have dirs: "protected_dir = set RM_RF_DANGEROUS_TARGETS" by (simp add: protected_dir_def RM_RF_DANGEROUS_TARGETS_def)
  have ne: "[] \<notin> protected_dir" by (simp add: protected_dir_def)
  have "(\<exists>dir tail. w = dir @ tail \<and> dir \<in> protected_dir \<and> last dir \<notin> {CHR ''/'', CHR ''*''} \<and> set tail \<subseteq> {CHR ''/'', CHR ''*''}) \<longleftrightarrow>
    rstrip_by ?p w \<noteq> [] \<and> rstrip_by ?p w \<in> protected_dir"
  proof
    assume "\<exists>dir tail. w = dir @ tail \<and> dir \<in> protected_dir \<and> last dir \<notin> {CHR ''/'', CHR ''*''} \<and> set tail \<subseteq> {CHR ''/'', CHR ''*''}"
    then obtain dir tail where w: "w = dir @ tail" "dir \<in> protected_dir" "\<not> ?p (last dir)" "\<forall>c\<in>set tail. ?p c" by blast
    then have "dir \<noteq> []" using ne by blast
    then show "rstrip_by ?p w \<noteq> [] \<and> rstrip_by ?p w \<in> protected_dir" using w rstrip_by_keeps [OF _ w(3,4)] by simp
  next
    assume r: "rstrip_by ?p w \<noteq> [] \<and> rstrip_by ?p w \<in> protected_dir"
    obtain tail where "w = rstrip_by ?p w @ tail" "\<forall>c\<in>set tail. ?p c" using rstrip_by_split by blast
    then show "\<exists>dir tail. w = dir @ tail \<and> dir \<in> protected_dir \<and> last dir \<notin> {CHR ''/'', CHR ''*''} \<and> set tail \<subseteq> {CHR ''/'', CHR ''*''}"
      using r rstrip_by_last [of ?p w] by blast
  qed
  then show ?thesis unfolding protected_target_def is_rm_rf_target_def Let_def dirs [symmetric] using ne by auto
qed

lemma rm_rf_command_unfold:
  "rm_rf_command command \<longleftrightarrow>
     (\<exists>pre p rest. safe_shlex_split command = pre @ p # rest \<and> basename p = ''rm'' \<and> rm_args_match rest) \<or>
     (\<exists>pre sh inner post. safe_shlex_split command = pre @ sh # ''-c'' # inner # post \<and>
        basename sh \<in> {''sh'', ''bash'', ''zsh'', ''ksh''} \<and> rm_rf_command inner)"
proof -
  let ?argv = "safe_shlex_split command"
  have "rm_rf_command command \<longleftrightarrow> rm_rf_argv ?argv \<or> (\<exists>x. x \<in> set (dash_c_args ?argv) \<and> rm_rf_command x)"
    by (subst rm_rf_command.simps) (auto simp: list_ex_iff Let_def)
  then show ?thesis unfolding rm_rf_argv_iff dash_c_args_iff by blast
qed

lemma names_shell: "(\<exists>shell. shell \<in> {''sh'', ''bash'', ''zsh'', ''ksh''} \<and> names_program w shell) \<longleftrightarrow> basename w \<in> {''sh'', ''bash'', ''zsh'', ''ksh''}"
proof -
  have "names_program w shell \<longleftrightarrow> basename w = shell" if "shell \<in> {''sh'', ''bash'', ''zsh'', ''ksh''}" for shell
    by (rule names_program_basename) (use that in auto)
  then show ?thesis by blast
qed

lemma rm_args_match_iff:
  "rm_args_match args \<longleftrightarrow>
     (has_option {''-r'', ''-R'', ''--recursive''} CHR ''r'' args \<and> has_option {''-f'', ''--force'', ''--no-preserve-root''} CHR ''f'' args \<or>
       ''--no-preserve-root'' \<in> set args) \<and> (\<exists>w\<in>set args. protected_target w)"
  unfolding has_option_flags protected_target_iff rm_args_match_def list_ex_iff ..

lemma rm_rf_removes: "rm_rf_command command \<Longrightarrow> removes_root command"
proof (induction command rule: measure_induct_rule [of length])
  case (less command)
  from less.prems consider
    (direct) pre p rest where "safe_shlex_split command = pre @ p # rest" "basename p = ''rm''" "rm_args_match rest"
  | (shell) pre sh inner post where "safe_shlex_split command = pre @ sh # ''-c'' # inner # post"
      "basename sh \<in> {''sh'', ''bash'', ''zsh'', ''ksh''}" "rm_rf_command inner"
    unfolding rm_rf_command_unfold [of command] by blast
  then show ?case
  proof cases
    case direct
    have "names_program p ''rm''" using direct(2) by (simp add: names_program_basename)
    then show ?thesis using direct(1,3) removes_directly unfolding rm_args_match_iff by blast
  next
    case shell
    have "length inner < length command"
      using safe_shlex.later_token_shorter [of command "pre @ [sh]" "''-c''" "inner # post" inner] shell(1) by simp
    from less.IH [OF this shell(3)] show ?thesis using shell(1,2) names_shell removes_in_shell by blast
  qed
qed

lemma removes_rm_rf: "removes_root command \<Longrightarrow> rm_rf_command command"
proof (induction rule: removes_root.induct)
  case (removes_directly command before rm args w)
  have "basename rm = ''rm''" using removes_directly.hyps(2) by (simp add: names_program_basename)
  moreover have "rm_args_match args" unfolding rm_args_match_iff using removes_directly.hyps(3-5) by blast
  ultimately show ?case unfolding rm_rf_command_unfold [of command] using removes_directly.hyps(1) by blast
next
  case (removes_in_shell command before sh inner after shell)
  then have "basename sh \<in> {''sh'', ''bash'', ''zsh'', ''ksh''}" using names_shell by blast
  then show ?case unfolding rm_rf_command_unfold [of command] using removes_in_shell.hyps(1) removes_in_shell.IH by blast
qed

text \<open>C24: The removal rule catches exactly the command lines that run \<open>rm\<close>, under any path and after any prefix of words, with an
  option that says recursive and one that says force (or \<open>--no-preserve-root\<close>) and with a protected directory among its arguments, also with
  slashes and stars behind it, or that pass such a command line to a shell with \<open>-c\<close>, to any depth.\<close>

theorem rm_rf_command_iff: "predicate_rm_rf_root ti \<longleftrightarrow> removes_root (bash_command ti)"
  unfolding predicate_rm_rf_root_def using rm_rf_removes removes_rm_rf by blast

theorem rm_rf_command_iff_witness:
  "removes_root ''sudo bash -c \"/bin/rm -r --force /etc/\"'' \<and> \<not> removes_root ''rm -r /etc'' \<and> \<not> removes_root ''rm -rf /etc/hosts''"
proof -
  have "predicate_rm_rf_root [(''command'', PStr ''sudo bash -c \"/bin/rm -r --force /etc/\"'')]"
    "\<not> predicate_rm_rf_root [(''command'', PStr ''rm -r /etc'')]" "\<not> predicate_rm_rf_root [(''command'', PStr ''rm -rf /etc/hosts'')]"
    by code_simp+
  then show ?thesis unfolding rm_rf_command_iff by (simp add: bash_command_def)
qed

text \<open>Quoting does not hide a command: whatever words a command line consists of, written in
  quotes they are judged exactly as the words themselves.\<close>

theorem quoting_not_evasive:
  assumes "\<forall>w\<in>set words. SQUOTE \<notin> set w"
  shows "safe_shlex_split (join '' '' (map single_quoted words)) = words \<and>
    (rm_rf_argv words \<longrightarrow>
       predicate_rm_rf_root [(''command'', PStr (join '' '' (map single_quoted words)))]) \<and>
    predicate_git_force_push_main [(''command'', PStr (join '' '' (map single_quoted words)))] =
      git_force_push_argv words \<and>
    predicate_chmod_777 [(''command'', PStr (join '' '' (map single_quoted words)))] = chmod_argv words \<and>
    predicate_dd_device [(''command'', PStr (join '' '' (map single_quoted words)))] = dd_argv words"
proof -
  have split: "safe_shlex_split (join '' '' (map single_quoted words)) = words"
    using shlex_split_quoted [OF assms] by (simp add: safe_shlex_split_def)
  then show ?thesis
    by (simp add: predicate_rm_rf_root_def predicate_git_force_push_main_def predicate_chmod_777_def
        predicate_dd_device_def bash_command_def rm_rf_command.simps Let_def)
qed

theorem quoting_not_evasive_witness:
  "predicate_rm_rf_root [(''command'', PStr (join '' '' (map single_quoted [''/bin/rm'', ''-rf'', ''/etc/''])))]"
proof -
  have "rm_rf_argv [''/bin/rm'', ''-rf'', ''/etc/'']"
    by (simp add: rm_args_match_def basename_def recursive_flag_def force_flag_def short_flag_def
        startswith_def is_rm_rf_target_def RM_RF_DANGEROUS_TARGETS_def rstrip_by_def)
  moreover have "\<forall>w\<in>set [''/bin/rm'', ''-rf'', ''/etc/'']. SQUOTE \<notin> set w" by (simp add: SQUOTE_def)
  ultimately show ?thesis using quoting_not_evasive by blast
qed

text \<open>The system-path rule looks through \<open>.\<close>, \<open>..\<close> and repeated slashes: an absolute path is
  refused exactly when the directory it resolves to lies in a protected tree, except that a path
  with exactly two leading slashes is never refused (\<open>normpath\<close> keeps them).\<close>

theorem system_path_iff:
  "system_path path \<longleftrightarrow>
     initial_slashes path = 1 \<and> resolve_abs path \<noteq> [] \<and> hd (resolve_abs path) \<in> set SYSTEM_DIRS"
proof -
  let ?j = "join ''/'' (resolve_abs path)"
  have dirs: "CHR ''/'' \<notin> set d" "d \<noteq> []" if "d \<in> set SYSTEM_DIRS" for d
    using that by (auto simp: SYSTEM_DIRS_def)
  consider (rel) "initial_slashes path = 0" | (one) "initial_slashes path = 1" | (two) "initial_slashes path = 2"
    using initial_slashes_cases [of path] by metis
  then show ?thesis
  proof cases
    case rel
    then have "\<not> isabs (normpath path)" by (rule normpath_relative)
    with rel show ?thesis by (simp add: system_path_def)
  next
    case one
    then have norm: "normpath path = CHR ''/'' # ?j" using norm_abs [of path 1] by simp
    have "(CHR ''/'' # ?j = CHR ''/'' # d \<or> startswith (CHR ''/'' # ?j) (CHR ''/'' # d @ ''/'')) \<longleftrightarrow>
        resolve_abs path \<noteq> [] \<and> hd (resolve_abs path) = d" if "d \<in> set SYSTEM_DIRS" for d
      using under_root [OF resolve_abs_comps dirs [OF that]] by (auto simp: startswith_prefix)
    with one norm show ?thesis
      by (auto simp: system_path_def SYSTEM_ROOTS_def list_ex_iff isabs_def startswith_prefix)
  next
    case two
    then have norm: "normpath path = ''//'' @ ?j" using norm_abs [of path 2] by (simp add: numeral_2_eq_2)
    then have "\<not> (normpath path = r \<or> startswith (normpath path) (r @ ''/''))" if "r \<in> set SYSTEM_ROOTS" for r
      using that by (auto simp: SYSTEM_ROOTS_def SYSTEM_DIRS_def startswith_prefix)
    with two show ?thesis by (auto simp: system_path_def list_ex_iff)
  qed
qed

text \<open>Three destructive calls that the baseline means to stop and lets through: a capital
  recursive flag combined with force, a doubled root slash, and a write to a system file by a
  path with two leading slashes.\<close>

theorem baseline_gaps:
  "\<not> baseline_violation ''Bash'' [(''command'', PStr ''rm -Rf /'')] \<and>
   \<not> baseline_violation ''Bash'' [(''command'', PStr ''rm -rf //'')] \<and>
   \<not> baseline_violation ''Write'' [(''file_path'', PStr ''//etc/passwd'')] \<and>
   baseline_violation ''Bash'' [(''command'', PStr ''rm -rf /'')] \<and>
   baseline_violation ''Write'' [(''file_path'', PStr ''/etc/passwd'')]"
  by code_simp

end
