(* ===== verification/Mcp_Allowlist.thy ===== *)
theory Mcp_Allowlist
  imports Py_Text
begin

text \<open>
  Model of \<open>shared/mcp_command_allowlist.py\<close>: which subprocess an \<open>mcp.json\<close> entry may
  spawn, and with which arguments. The process environment is a map from variable names to
  values; commands and arguments are JSON values.
\<close>

section \<open>The policy\<close>

definition DEFAULT_MCP_ALLOWED_COMMANDS :: pystr where
  "DEFAULT_MCP_ALLOWED_COMMANDS = ''mcp-kubernetes,mcp-helm,mcp-prometheus''"

definition DEFAULT_MCP_ALLOWED_COMMAND_PREFIXES :: pystr where
  "DEFAULT_MCP_ALLOWED_COMMAND_PREFIXES = ''/home/agent/mcp-bin/,/usr/local/bin/''"

definition INTERPRETER_COMMANDS :: "pystr list" where
  "INTERPRETER_COMMANDS =
     [''python'', ''python3'', ''node'', ''nodejs'', ''npx'', ''npm'', ''uv'', ''uvx'', ''ruby'', ''perl'', ''php'',
      ''bash'', ''sh'', ''zsh'', ''ksh'', ''deno'', ''bun'']"

definition INTERPRETER_INLINE_CODE_FLAGS :: "pystr list" where
  "INTERPRETER_INLINE_CODE_FLAGS =
     [''-c'', ''--command'', ''-e'', ''--execute'', ''--eval'', ''--inline'', ''--input-type'',
      ''--input-type=module'', ''--input-type=commonjs'', ''-s'']"

definition SCRIPT_EXTENSIONS :: "pystr list" where
  "SCRIPT_EXTENSIONS =
     [''.py'', ''.js'', ''.mjs'', ''.cjs'', ''.sh'', ''.bash'', ''.rb'', ''.pl'', ''.php'', ''.ts'']"

definition DEFAULT_MCP_ALLOWED_CWD_PREFIXES :: pystr where
  "DEFAULT_MCP_ALLOWED_CWD_PREFIXES = []"

text \<open>\<open>_load_env_tuple\<close>; the frozen set of \<open>_load_env_frozenset\<close> is used for membership only
  and is represented by the same list.\<close>

definition load_env_tuple :: "(pystr \<rightharpoonup> pystr) \<Rightarrow> pystr \<Rightarrow> pystr \<Rightarrow> pystr list" where
  "load_env_tuple env var dflt =
     filter (\<lambda>t. t \<noteq> [])
       (map strip (split_char CHR '','' (case env var of None \<Rightarrow> dflt | Some v \<Rightarrow> v)))"

definition dir_form :: "pystr \<Rightarrow> pystr" where
  "dir_form p = (if endswith p ''/'' then p else p @ ''/'')"

definition mcp_command_allowed_by :: "pystr list \<Rightarrow> pystr list \<Rightarrow> pyval \<Rightarrow> bool \<times> pystr" where
  "mcp_command_allowed_by allowed pfxs command =
     (case command of
        PStr s \<Rightarrow>
          (let cmd = strip s in
           if cmd = [] then (False, ''empty'')
           else if startswith cmd ''/'' then
             (if list_ex (\<lambda>p. cmd = p \<or> startswith cmd (dir_form p)) pfxs
              then (True, ''absolute_prefix'') else (False, ''absolute_not_on_prefix''))
           else if cmd \<in> set allowed \<or> basename cmd \<in> set allowed then (True, ''basename_allowed'')
           else (False, ''basename_not_allowed''))
      | _ \<Rightarrow> (False, ''non_string''))"

definition mcp_command_allowed :: "(pystr \<rightharpoonup> pystr) \<Rightarrow> pyval \<Rightarrow> bool \<times> pystr" where
  "mcp_command_allowed env command =
     mcp_command_allowed_by
       (load_env_tuple env ''MCP_ALLOWED_COMMANDS'' DEFAULT_MCP_ALLOWED_COMMANDS)
       (load_env_tuple env ''MCP_ALLOWED_COMMAND_PREFIXES'' DEFAULT_MCP_ALLOWED_COMMAND_PREFIXES)
       command"

text \<open>The checks on one string argument of an interpreter: \<^const>\<open>None\<close> when it passes.\<close>

definition positional_script :: "pystr list \<Rightarrow> pystr \<Rightarrow> pystr option" where
  "positional_script cwd_prefixes arg =
     (if startswith arg ''-'' \<or> \<not> list_ex (endswith (lower arg)) SCRIPT_EXTENSIONS then None
      else if cwd_prefixes = [] then Some ''positional_script_no_cwd_allowlist''
      else if \<not> startswith arg ''/'' then Some ''positional_script_relative''
      else if \<not> list_ex (startswith arg) cwd_prefixes then Some ''positional_script_outside_cwd''
      else None)"

definition arg_rejected :: "pystr \<Rightarrow> pystr list \<Rightarrow> pystr \<Rightarrow> pystr option" where
  "arg_rejected base cwd_prefixes arg =
     (if arg \<in> set INTERPRETER_INLINE_CODE_FLAGS then Some ''interpreter_inline_code_flag''
      else if startswith arg ''--input-type'' then Some ''interpreter_inline_code_flag''
      else if arg = ''-'' then Some ''interpreter_stdin_script''
      else if base = ''uv'' \<and> arg = ''run'' then Some ''uv_run_rejected''
      else if base = ''uvx'' \<and> \<not> startswith arg ''-'' then Some ''uvx_package_rejected''
      else positional_script cwd_prefixes arg)"

fun args_loop :: "pystr \<Rightarrow> pystr list \<Rightarrow> pyval list \<Rightarrow> bool \<times> pystr" where
  "args_loop base cwd [] = (True, ''interpreter_args_ok'')"
| "args_loop base cwd (PStr a # args) =
     (case arg_rejected base cwd a of
        Some reason \<Rightarrow> (False, reason)
      | None \<Rightarrow> args_loop base cwd args)"
| "args_loop base cwd (_ # args) = args_loop base cwd args"

definition mcp_command_args_safe :: "(pystr \<rightharpoonup> pystr) \<Rightarrow> pyval \<Rightarrow> pyval \<Rightarrow> bool \<times> pystr" where
  "mcp_command_args_safe env command args =
     (case args of
        PNone \<Rightarrow> (True, ''no_args'')
      | PList xs \<Rightarrow>
          (case command of
             PStr s \<Rightarrow>
               (let base = basename (strip s) in
                if base \<notin> set INTERPRETER_COMMANDS then (True, ''not_interpreter'')
                else args_loop base
                       (load_env_tuple env ''MCP_ALLOWED_CWD_PREFIXES'' DEFAULT_MCP_ALLOWED_CWD_PREFIXES)
                       xs)
           | _ \<Rightarrow> (False, ''non_string_command''))
      | _ \<Rightarrow> (False, ''args_not_list''))"

section \<open>Lemmas\<close>

text \<open>The path components of a directory, a trailing slash not counted.\<close>

definition dir_comps :: "pystr \<Rightarrow> pystr list" where
  "dir_comps p = split_char CHR ''/'' (if endswith p ''/'' then butlast p else p)"

lemma split_char_prefix: "split_char c (s @ c # r) = split_char c s @ split_char c r"
proof (induction s)
  case (Cons x s)
  then show ?case
    by (cases "split_char c s") (auto simp: split_char_not_Nil dest: sym)
qed simp

lemma dir_form_comps: "startswith cmd (dir_form p) \<Longrightarrow> prefix (dir_comps p) (split_char CHR ''/'' cmd)"
proof -
  assume "startswith cmd (dir_form p)"
  then obtain z where z: "cmd = dir_form p @ z" by (auto simp: startswith_prefix prefix_def)
  have "dir_form p = (if endswith p ''/'' then butlast p else p) @ ''/''"
    by (auto simp: dir_form_def endswith_suffix suffix_def)
  with z show ?thesis by (simp add: dir_comps_def split_char_prefix)
qed

lemma args_loop_ok:
  "fst (args_loop base cwd xs) \<longleftrightarrow> (\<forall>a. PStr a \<in> set xs \<longrightarrow> arg_rejected base cwd a = None)"
  by (induction base cwd xs rule: args_loop.induct) (auto split: option.splits)

lemma load_env_tuple_nonempty: "t \<in> set (load_env_tuple env var d) \<Longrightarrow> t \<noteq> []"
  by (simp add: load_env_tuple_def)

section \<open>Properties\<close>

text \<open>What the allow-list admits: an absolute command only if it is an allowed prefix or lies
  below one, component by component (a sibling directory whose name merely starts like an
  allowed one is refused); any other command only if its last path component, or the whole of
  it, is allowed by name; nothing else, and no non-string.\<close>

theorem mcp_command_allowed_sound:
  assumes "mcp_command_allowed_by allowed pfxs command = (True, reason)"
  shows "\<exists>s. command = PStr s \<and> strip s \<noteq> [] \<and>
    (if startswith (strip s) ''/''
     then reason = ''absolute_prefix'' \<and>
       (\<exists>p\<in>set pfxs. strip s = p \<or> prefix (dir_comps p) (split_char CHR ''/'' (strip s)))
     else reason = ''basename_allowed'' \<and> (strip s \<in> set allowed \<or> basename (strip s) \<in> set allowed))"
  using assms dir_form_comps
  by (auto simp: mcp_command_allowed_by_def Let_def list_ex_iff split: pyval.splits if_splits)

theorem mcp_command_allowed_sound_witness:
  "mcp_command_allowed_by [''mcp-helm''] [''/usr/local/bin/''] (PStr ''/usr/local/bin/mcp-helm'') =
     (True, ''absolute_prefix'') \<and>
   (\<exists>p\<in>set [''/usr/local/bin/'']. strip ''/usr/local/bin/mcp-helm'' = p \<or>
      prefix (dir_comps p) (split_char CHR ''/'' (strip ''/usr/local/bin/mcp-helm'')))"
proof -
  have ok: "mcp_command_allowed_by [''mcp-helm''] [''/usr/local/bin/''] (PStr ''/usr/local/bin/mcp-helm'') =
     (True, ''absolute_prefix'')" by code_simp
  have abs: "startswith (strip ''/usr/local/bin/mcp-helm'') ''/''" by code_simp
  from mcp_command_allowed_sound [OF ok] ok abs show ?thesis by auto
qed

text \<open>Arguments of an interpreter are accepted exactly when no string argument is one of the
  refused forms; whether they are refused never depends on other commands' rules, and a command
  that is no interpreter is never constrained.\<close>

theorem mcp_command_args_safe_iff:
  "fst (mcp_command_args_safe env (PStr cmd) (PList xs)) \<longleftrightarrow>
     (basename (strip cmd) \<in> set INTERPRETER_COMMANDS \<longrightarrow>
       (\<forall>a. PStr a \<in> set xs \<longrightarrow>
          a \<notin> set INTERPRETER_INLINE_CODE_FLAGS \<and> \<not> startswith a ''--input-type'' \<and> a \<noteq> ''-'' \<and>
          \<not> (basename (strip cmd) = ''uv'' \<and> a = ''run'') \<and>
          (basename (strip cmd) = ''uvx'' \<longrightarrow> startswith a ''-'') \<and>
          (\<not> startswith a ''-'' \<and> list_ex (endswith (lower a)) SCRIPT_EXTENSIONS \<longrightarrow>
             startswith a ''/'' \<and>
             (\<exists>p\<in>set (load_env_tuple env ''MCP_ALLOWED_CWD_PREFIXES'' DEFAULT_MCP_ALLOWED_CWD_PREFIXES).
                startswith a p))))"
proof -
  have "arg_rejected base cwd a = None \<longleftrightarrow>
      a \<notin> set INTERPRETER_INLINE_CODE_FLAGS \<and> \<not> startswith a ''--input-type'' \<and> a \<noteq> ''-'' \<and>
      \<not> (base = ''uv'' \<and> a = ''run'') \<and> (base = ''uvx'' \<longrightarrow> startswith a ''-'') \<and>
      (\<not> startswith a ''-'' \<and> list_ex (endswith (lower a)) SCRIPT_EXTENSIONS \<longrightarrow>
         startswith a ''/'' \<and> (\<exists>p\<in>set cwd. startswith a p))" for base cwd a
    by (auto simp: arg_rejected_def positional_script_def list_ex_iff)
  then show ?thesis by (simp add: mcp_command_args_safe_def Let_def args_loop_ok)
qed

theorem mcp_command_args_safe_iff_witness:
  "\<not> fst (mcp_command_args_safe (\<lambda>_. None) (PStr ''/usr/bin/python3'') (PList [PStr ''-c'', PStr ''x'']))"
  using mcp_command_args_safe_iff [of "\<lambda>_. None" "''/usr/bin/python3''" "[PStr ''-c'', PStr ''x'']"]
  by (auto simp: INTERPRETER_INLINE_CODE_FLAGS_def mcp_command_args_safe_def) code_simp

text \<open>Three entries that pass although they run what the policy means to keep out: a path below an
  allowed prefix that climbs out of it again, a relative path whose last component has an
  allowed name, and interpreter code attached to its flag.\<close>

theorem allowlist_gaps:
  "mcp_command_allowed (\<lambda>_. None) (PStr ''/usr/local/bin/../../../tmp/evil'') = (True, ''absolute_prefix'') \<and>
   normpath ''/usr/local/bin/../../../tmp/evil'' = ''/tmp/evil'' \<and>
   mcp_command_allowed (\<lambda>_. None) (PStr ''../tmp/mcp-helm'') = (True, ''basename_allowed'') \<and>
   mcp_command_args_safe (\<lambda>_. None) (PStr ''python3'') (PList [PStr ''-cprint(1)'']) =
     (True, ''interpreter_args_ok'')"
  by code_simp

end
