(* ===== verification/Prompt_Env.thy ===== *)
theory Prompt_Env
  imports Py_Text
begin

text \<open>
  Model of \<open>shared/prompt_env.py\<close>: the interpolation of \<open>{{env.VAR}}\<close> references in prompt
  bodies, fail-closed by an allow-list, with a byte cap on the result. The environment is a map;
  glob matching (\<open>fnmatch.fnmatchcase\<close>) is an argument. The re-arming warning counters and the
  labels of the substitution counter are explicit state.
\<close>

section \<open>UTF-8\<close>

text \<open>Encoding of the modelled code points, and decoding with \<open>errors="ignore"\<close>: a byte that does
  not start or continue a well-formed sequence of this range is dropped.\<close>

definition utf8_char :: "char \<Rightarrow> nat list" where
  "utf8_char c =
     (let n = (of_char c :: nat) in if n < 128 then [n] else [192 + n div 64, 128 + n mod 64])"

definition utf8_encode :: "pystr \<Rightarrow> nat list" where
  "utf8_encode s = concat (map utf8_char s)"

fun utf8_decode_ignore :: "nat list \<Rightarrow> pystr" where
  "utf8_decode_ignore [] = []"
| "utf8_decode_ignore (b # bs) =
     (if b < 128 then char_of b # utf8_decode_ignore bs
      else (case bs of
              [] \<Rightarrow> []
            | d # ds \<Rightarrow>
                if (b = 194 \<or> b = 195) \<and> 128 \<le> d \<and> d < 192
                then char_of ((b - 192) * 64 + (d - 128)) # utf8_decode_ignore ds
                else utf8_decode_ignore (d # ds)))"

section \<open>Configuration\<close>

definition DEFAULT_PROMPT_ENV_MAX_BYTES :: int where
  "DEFAULT_PROMPT_ENV_MAX_BYTES = 65536"

definition env_or_empty :: "(pystr \<rightharpoonup> pystr) \<Rightarrow> pystr \<Rightarrow> pystr" where
  "env_or_empty env name = (case env name of None \<Rightarrow> [] | Some v \<Rightarrow> v)"

definition max_bytes :: "(pystr \<rightharpoonup> pystr) \<Rightarrow> int" where
  "max_bytes env =
     (let raw = env_or_empty env ''PROMPT_ENV_MAX_BYTES'' in
      if raw = [] then DEFAULT_PROMPT_ENV_MAX_BYTES
      else (case int_of_str raw of None \<Rightarrow> DEFAULT_PROMPT_ENV_MAX_BYTES | Some n \<Rightarrow> n))"

definition prompt_env_config :: "(pystr \<rightharpoonup> pystr) \<Rightarrow> bool \<times> pystr list" where
  "prompt_env_config env =
     (lower (strip (env_or_empty env ''PROMPT_ENV_ENABLED'')) \<in> {''1'', ''true'', ''yes'', ''on''},
      filter (\<lambda>p. p \<noteq> []) (map strip (split_char CHR '','' (env_or_empty env ''PROMPT_ENV_ALLOWLIST''))))"

definition var_allowed :: "(pystr \<Rightarrow> pystr \<Rightarrow> bool) \<Rightarrow> pystr \<Rightarrow> pystr list \<Rightarrow> bool" where
  "var_allowed fnmatchcase name allowlist =
     list_ex (\<lambda>pattern.
       if CHR ''*'' \<notin> set pattern \<and> CHR ''?'' \<notin> set pattern then startswith name pattern
       else fnmatchcase name pattern) allowlist"

section \<open>Substitution\<close>

text \<open>The word characters of a regular expression on the modelled range.\<close>

definition re_word :: "char \<Rightarrow> bool" where
  "re_word c =
     (let n = (of_char c :: nat)
      in (48 \<le> n \<and> n \<le> 57) \<or> (65 \<le> n \<and> n \<le> 90) \<or> n = 95 \<or> (97 \<le> n \<and> n \<le> 122) \<or>
         n \<in> {170, 178, 179, 181, 185, 186, 188, 189, 190} \<or>
         (192 \<le> n \<and> n \<le> 255 \<and> n \<noteq> 215 \<and> n \<noteq> 247))"

text \<open>A match of \<open>\{\{env\.(\w+)\}\}\<close> at the start of the text: the name and the rest.\<close>

definition env_ref :: "pystr \<Rightarrow> (pystr \<times> pystr) option" where
  "env_ref s =
     (if startswith s ''{{env.'' then
        (let name = takeWhile re_word (drop 6 s); rest = dropWhile re_word (drop 6 s)
         in if name \<noteq> [] \<and> startswith rest ''}}'' then Some (name, drop 2 rest) else None)
      else None)"

record prompt_state =
  warned_vars :: "(pystr \<times> nat) list"
  warned_no_allowlist_count :: nat
  warned_oversize_count :: nat
  prompt_warnings :: nat
  bumped :: "pystr list"

definition PROMPT_ENV_REARM_EVERY :: "int \<Rightarrow> int" where
  "PROMPT_ENV_REARM_EVERY n = max 1 n"

definition bump :: "pystr \<Rightarrow> prompt_state \<Rightarrow> prompt_state" where
  "bump result st = st\<lparr>bumped := bumped st @ [result]\<rparr>"

definition note_denied :: "int \<Rightarrow> pystr \<Rightarrow> prompt_state \<Rightarrow> prompt_state" where
  "note_denied rearm name st =
     (let count = (case dict_get (warned_vars st) name of None \<Rightarrow> 0 | Some n \<Rightarrow> n) in
      case rearm_tick (PROMPT_ENV_REARM_EVERY rearm) count of
        (warn, count') \<Rightarrow>
          st\<lparr>warned_vars := dict_set name count' (warned_vars st),
             prompt_warnings := prompt_warnings st + (if warn then 1 else 0)\<rparr>)"

definition sub_ref ::
  "(pystr \<Rightarrow> pystr \<Rightarrow> bool) \<Rightarrow> int \<Rightarrow> (pystr \<rightharpoonup> pystr) \<Rightarrow> pystr list \<Rightarrow> pystr \<Rightarrow> prompt_state
   \<Rightarrow> pystr \<times> prompt_state" where
  "sub_ref fnm rearm env allowlist name st =
     (if \<not> var_allowed fnm name allowlist then ([], bump ''denied'' (note_denied rearm name st))
      else (let value = env_or_empty env name
            in (value, bump (if value \<noteq> [] then ''hit'' else ''missing'') st)))"

lemma env_ref_shorter: "env_ref s = Some (name, rest) \<Longrightarrow> length rest < length s"
proof -
  assume a: "env_ref s = Some (name, rest)"
  then have p: "startswith s ''{{env.''" and r: "rest = drop 2 (dropWhile re_word (drop 6 s))"
    by (auto simp: env_ref_def Let_def split: if_splits)
  have "length (dropWhile re_word (drop 6 s)) \<le> length s - 6"
    using length_dropWhile_le [of re_word "drop 6 s"] by simp
  moreover have "length s \<ge> 6" using p by (auto simp: startswith_prefix dest: prefix_length_le)
  ultimately show ?thesis using r by simp
qed

text \<open>\<open>_ENV_VAR_RE.sub(_sub, text)\<close>.\<close>

function sub_env ::
  "(pystr \<Rightarrow> pystr \<Rightarrow> bool) \<Rightarrow> int \<Rightarrow> (pystr \<rightharpoonup> pystr) \<Rightarrow> pystr list \<Rightarrow> pystr \<Rightarrow> prompt_state
   \<Rightarrow> pystr \<times> prompt_state" where
  "sub_env fnm rearm env allowlist s st =
     (case env_ref s of
        Some (name, rest) \<Rightarrow>
          (case sub_ref fnm rearm env allowlist name st of
             (value, st') \<Rightarrow>
               (case sub_env fnm rearm env allowlist rest st' of
                  (out, st'') \<Rightarrow> (value @ out, st'')))
      | None \<Rightarrow>
          (case s of
             [] \<Rightarrow> ([], st)
           | c # cs \<Rightarrow>
               (case sub_env fnm rearm env allowlist cs st of (out, st') \<Rightarrow> (c # out, st'))))"
  by pat_completeness auto
termination
  by (relation "measure (\<lambda>(fnm, rearm, env, al, s, st). length s)") (auto dest: env_ref_shorter)

declare sub_env.simps [simp del]

definition cap_bytes :: "int \<Rightarrow> int \<Rightarrow> pystr \<Rightarrow> prompt_state \<Rightarrow> pystr \<times> prompt_state" where
  "cap_bytes rearm cap resolved st =
     (let encoded = utf8_encode resolved in
      if cap > 0 \<and> int (length encoded) > cap then
        (case rearm_tick (PROMPT_ENV_REARM_EVERY rearm) (warned_oversize_count st) of
           (warn, count) \<Rightarrow>
             (utf8_decode_ignore (take (nat cap) encoded),
              st\<lparr>warned_oversize_count := count,
                 prompt_warnings := prompt_warnings st + (if warn then 1 else 0)\<rparr>))
      else (resolved, st))"

definition resolve_prompt_env ::
  "(pystr \<Rightarrow> pystr \<Rightarrow> bool) \<Rightarrow> int \<Rightarrow> (pystr \<rightharpoonup> pystr) \<Rightarrow> pystr \<Rightarrow> prompt_state \<Rightarrow> pystr \<times> prompt_state" where
  "resolve_prompt_env fnm rearm env text st =
     (case prompt_env_config env of
        (enabled, allowlist) \<Rightarrow>
          if \<not> enabled then (text, st)
          else
            (let st1 =
               (if allowlist = [] then
                  (case rearm_tick (PROMPT_ENV_REARM_EVERY rearm) (warned_no_allowlist_count st) of
                     (warn, count) \<Rightarrow>
                       st\<lparr>warned_no_allowlist_count := count,
                          prompt_warnings := prompt_warnings st + (if warn then 1 else 0)\<rparr>)
                else st)
             in case sub_env fnm rearm env allowlist text st1 of
                  (resolved, st2) \<Rightarrow> cap_bytes rearm (max_bytes env) resolved st2))"

section \<open>Lemmas\<close>

text \<open>Cutting the encoding and decoding what is left keeps a prefix of whole characters.\<close>

lemma utf8_char_cases:
  obtains (one) b where "utf8_char c = [b]" "b < 128" "char_of b = c"
  | (two) b d where "utf8_char c = [b, d]" "b = 194 \<or> b = 195" "128 \<le> d" "d < 192"
      "char_of ((b - 192) * 64 + (d - 128)) = c"
proof -
  define n where "n = (of_char c :: nat)"
  have n: "n < 256" "char_of n = c" by (simp_all add: n_def)
  show ?thesis
  proof (cases "n < 128")
    case True
    then show ?thesis using n by (intro one [of n]) (auto simp: utf8_char_def n_def)
  next
    case False
    then have "n div 64 = 2 \<or> n div 64 = 3" using n(1) by linarith
    moreover have "n div 64 * 64 + n mod 64 = n" by simp
    ultimately show ?thesis using False n
      by (intro two [of "192 + n div 64" "128 + n mod 64"]) (auto simp: utf8_char_def n_def [symmetric] Let_def)
  qed
qed

lemma utf8_cut: "\<exists>k. utf8_decode_ignore (take m (utf8_encode s)) = take k s \<and>
    length (utf8_encode (take k s)) \<le> m \<and> (k < length s \<longrightarrow> length (utf8_encode (take (Suc k) s)) > m)"
proof (induction s arbitrary: m)
  case Nil
  then show ?case by (simp add: utf8_encode_def)
next
  case (Cons c s)
  have enc: "utf8_encode (c # s) = utf8_char c @ utf8_encode s" by (simp add: utf8_encode_def)
  let ?n = "length (utf8_char c)"
  show ?case
  proof (cases "?n \<le> m")
    case True
    from Cons [of "m - ?n"] obtain k where
      k: "utf8_decode_ignore (take (m - ?n) (utf8_encode s)) = take k s"
        "length (utf8_encode (take k s)) \<le> m - ?n"
        "k < length s \<longrightarrow> length (utf8_encode (take (Suc k) s)) > m - ?n" by blast
    have "utf8_decode_ignore (utf8_char c @ bs) = c # utf8_decode_ignore bs" for bs
      by (cases c rule: utf8_char_cases) auto
    with True k show ?thesis
      by (intro exI [of _ "Suc k"]) (auto simp: enc utf8_encode_def)
  next
    case False
    have "utf8_decode_ignore (take m (utf8_char c)) = []"
      using False by (cases c rule: utf8_char_cases) (auto simp: take_Cons split: nat.splits)
    with False show ?thesis by (intro exI [of _ 0]) (auto simp: enc utf8_encode_def)
  qed
qed

text \<open>Two environments that agree on the admitted names give the same text and the same state.\<close>

lemma sub_env_agree:
  assumes "\<And>name. var_allowed fnm name allowlist \<Longrightarrow> env_or_empty env name = env_or_empty env' name"
  shows "sub_env fnm rearm env allowlist s st = sub_env fnm rearm env' allowlist s st"
proof (induction "length s" arbitrary: s st rule: less_induct)
  case less
  have ref: "sub_ref fnm rearm env allowlist name st = sub_ref fnm rearm env' allowlist name st" for name
    using assms by (simp add: sub_ref_def)
  show ?case
  proof (cases "env_ref s")
    case (Some nr)
    obtain name rest where nr: "nr = (name, rest)" by (cases nr)
    with Some have "length rest < length s" using env_ref_shorter by blast
    with less [of rest] Some nr ref show ?thesis
      by (simp add: sub_env.simps [of _ _ _ _ s] split: prod.split)
  next
    case None
    show ?thesis
    proof (cases s)
      case Nil
      with None show ?thesis by (simp add: sub_env.simps [of _ _ _ _ "[]"])
    next
      case (Cons c cs)
      with None less [of cs] show ?thesis
        by (simp add: sub_env.simps [of _ _ _ _ "c # cs"] split: prod.split)
    qed
  qed
qed

definition init_prompt_state :: prompt_state where
  "init_prompt_state = \<lparr>warned_vars = [], warned_no_allowlist_count = 0, warned_oversize_count = 0,
     prompt_warnings = 0, bumped = []\<rparr>"

definition demo_env :: "pystr \<rightharpoonup> pystr" where
  "demo_env = [''PROMPT_ENV_ENABLED'' \<mapsto> ''true'', ''PROMPT_ENV_ALLOWLIST'' \<mapsto> ''APP_'',
     ''PROMPT_ENV_MAX_BYTES'' \<mapsto> ''4'', ''APP_X'' \<mapsto> ''value'']"

section \<open>Properties\<close>

text \<open>C26: No variable outside the allow-list can leak into a prompt: the resolved text (and every
  counter) is the same in any two environments that agree on the module's own settings and on
  the admitted variables.\<close>

theorem prompt_env_noninterference:
  assumes "prompt_env_config env = prompt_env_config env'" and "max_bytes env = max_bytes env'"
    and "\<And>name. var_allowed fnm name (snd (prompt_env_config env)) \<Longrightarrow>
      env_or_empty env name = env_or_empty env' name"
  shows "resolve_prompt_env fnm rearm env text st = resolve_prompt_env fnm rearm env' text st"
proof -
  obtain enabled allowlist where cfg: "prompt_env_config env = (enabled, allowlist)" by (rule prod.exhaust)
  have "sub_env fnm rearm env allowlist text st1 = sub_env fnm rearm env' allowlist text st1" for st1
    using assms(3) cfg by (intro sub_env_agree) simp
  moreover have "prompt_env_config env' = (enabled, allowlist)" using assms(1) cfg by simp
  ultimately show ?thesis
    using assms(2) cfg by (simp add: resolve_prompt_env_def Let_def)
qed

theorem prompt_env_noninterference_witness:
  "resolve_prompt_env (\<lambda>_ _. False) 500 (demo_env(''DB_PASSWORD'' \<mapsto> ''hunter2'')) ''{{env.DB_PASSWORD}}'' init_prompt_state =
   resolve_prompt_env (\<lambda>_ _. False) 500 (demo_env(''DB_PASSWORD'' \<mapsto> ''other'')) ''{{env.DB_PASSWORD}}'' init_prompt_state"
proof (rule prompt_env_noninterference)
  let ?e = "demo_env(''DB_PASSWORD'' \<mapsto> ''hunter2'')"
  have cfg: "prompt_env_config ?e = (True, [''APP_''])"
    by (simp add: prompt_env_config_def env_or_empty_def demo_env_def) code_simp
  fix name
  assume "var_allowed (\<lambda>_ _. False) name (snd (prompt_env_config ?e))"
  then have "startswith name ''APP_''" by (simp add: cfg var_allowed_def)
  then have "name \<noteq> ''DB_PASSWORD''" by (auto simp: startswith_def)
  then show "env_or_empty ?e name = env_or_empty (demo_env(''DB_PASSWORD'' \<mapsto> ''other'')) name"
    by (simp add: env_or_empty_def)
qed (simp_all add: prompt_env_config_def max_bytes_def env_or_empty_def)

text \<open>The byte cap: with interpolation enabled and a positive cap, the resolved prompt encodes
  to at most that many bytes, is cut on a character boundary from the interpolated text, and is
  the longest such piece.\<close>

theorem prompt_env_capped:
  assumes "prompt_env_config env = (True, allowlist)" and "max_bytes env > 0"
    and "resolve_prompt_env fnm rearm env text st = (out, st')"
  shows "int (length (utf8_encode out)) \<le> max_bytes env \<and>
    (\<exists>st1 full k. full = fst (sub_env fnm rearm env allowlist text st1) \<and> out = take k full \<and>
       (k < length full \<longrightarrow> int (length (utf8_encode (take (Suc k) full))) > max_bytes env))"
proof -
  obtain st1 full st2 where sub: "sub_env fnm rearm env allowlist text st1 = (full, st2)"
    and cap: "cap_bytes rearm (max_bytes env) full st2 = (out, st')"
    using assms(1,3) by (auto simp: resolve_prompt_env_def Let_def split: prod.splits)
  from utf8_cut [of "nat (max_bytes env)" full] obtain k where
    k: "utf8_decode_ignore (take (nat (max_bytes env)) (utf8_encode full)) = take k full"
      "length (utf8_encode (take k full)) \<le> nat (max_bytes env)"
      "k < length full \<longrightarrow> length (utf8_encode (take (Suc k) full)) > nat (max_bytes env)" by blast
  show ?thesis
  proof (cases "int (length (utf8_encode full)) > max_bytes env")
    case True
    then have "out = take k full" using cap assms(2) k(1) by (auto simp: cap_bytes_def Let_def split: prod.splits)
    with k(2,3) assms(2) sub show ?thesis
      by (intro conjI exI [of _ st1] exI [of _ full] exI [of _ k]) auto
  next
    case False
    then have "out = full" using cap by (simp add: cap_bytes_def Let_def)
    with False sub show ?thesis
      by (intro conjI exI [of _ st1] exI [of _ full] exI [of _ "length full"]) auto
  qed
qed

theorem prompt_env_capped_witness:
  "int (length (utf8_encode (fst (resolve_prompt_env (\<lambda>_ _. False) 500 demo_env
     ''{{env.APP_X}}'' init_prompt_state)))) \<le> 4"
proof -
  have cfg: "prompt_env_config demo_env = (True, [''APP_''])"
    by (simp add: prompt_env_config_def env_or_empty_def demo_env_def) code_simp
  have m: "max_bytes demo_env = 4"
    by (simp add: max_bytes_def env_or_empty_def demo_env_def) code_simp
  from prompt_env_capped [OF cfg, of "\<lambda>_ _. False" 500 "''{{env.APP_X}}''" init_prompt_state] m
  show ?thesis by (metis prod.collapse zero_less_numeral)
qed

end
