(* ===== verification/Event_Stream.thy ===== *)
theory Event_Stream
  imports Broadcast
begin

text \<open>
  Model of \<open>harness/events.py\<close>: the per-process event broker behind \<open>GET /events/stream\<close>.
  Subscriber objects live in a store (\<open>es_objs\<close>) because the consumer keeps its queue after
  the broker has dropped it from \<open>es_subscribers\<close>; the order of that list stands for the
  iteration order of the Python set, and every fact holds for every order. Clock readings are
  arguments. The facts: the invariant of the broker over all interleavings of subscribe,
  publish, consume and unsubscribe; what one publish does to every subscriber; the end of an
  evicted subscriber; resumption by id; and uniqueness of ids when publishers on several
  threads interleave.
\<close>

section \<open>State and operations\<close>

record event_stream =
  es_queue_max :: int
  es_ring_max :: nat
  es_ring :: "envelope list"
  es_subscribers :: "nat list"
  es_objs :: "subscriber list"
  es_next_id :: nat

definition init_event_stream :: "int \<Rightarrow> int \<Rightarrow> event_stream" where
  "init_event_stream queue_max ring_max =
     \<lparr>es_queue_max = max 1 queue_max, es_ring_max = nat (max 1 ring_max), es_ring = [],
      es_subscribers = [], es_objs = [], es_next_id = 0\<rparr>"

text \<open>\<open>subscribe\<close> returns the new subscriber's handle.\<close>

definition subscribe :: "event_stream \<Rightarrow> nat \<times> event_stream" where
  "subscribe s =
     (let i = length (es_objs s)
      in (i, s\<lparr>es_objs := es_objs s @ [new_subscriber (es_queue_max s)],
                es_subscribers := es_subscribers s @ [i]\<rparr>))"

definition remove_subscriber :: "nat \<Rightarrow> event_stream \<Rightarrow> event_stream" where
  "remove_subscriber i s = s\<lparr>es_subscribers := removeAll i (es_subscribers s)\<rparr>"

text \<open>One turn of \<open>_iterate\<close>: take the next item, if there is one.\<close>

definition consume :: "nat \<Rightarrow> event_stream \<Rightarrow> qitem option \<times> event_stream" where
  "consume i s =
     (case get_nowait (sub_queue (es_objs s ! i)) of
        None \<Rightarrow> (None, s)
      | Some (x, q) \<Rightarrow>
          (Some x, s\<lparr>es_objs := (es_objs s)[i := (es_objs s ! i)\<lparr>sub_queue := q\<rparr>]\<rparr>))"

definition overrun_envelope :: "nat \<Rightarrow> int \<Rightarrow> pystr \<Rightarrow> nat \<Rightarrow> envelope" where
  "overrun_envelope next_id queue_max ts depth =
     \<lparr>ev_type = ''stream.overrun'', ev_version = 1,
      ev_id = str_of_nat next_id @ ''.overrun'', ev_ts = ts, ev_agent_id = None,
      ev_payload = [(''queue_depth'', PInt (int depth)), (''queue_max'', PInt queue_max),
        (''reason'', PStr ''subscriber queue full; evicted'')]\<rparr>"

definition evict_slow :: "pystr \<Rightarrow> nat \<Rightarrow> event_stream \<Rightarrow> event_stream" where
  "evict_slow ts i s =
     (let sub = es_objs s ! i;
          overrun = overrun_envelope (es_next_id s) (es_queue_max s) ts (qsize (sub_queue sub));
          q1 = drop_one (sub_queue sub);
          q2 = put_best_effort (QEvent overrun) q1;
          q3 = put_best_effort OVERRUN_SENTINEL q2
      in remove_subscriber i
           (s\<lparr>es_objs := (es_objs s)[i := \<lparr>sub_queue = q3, sub_closed = True\<rparr>]\<rparr>))"

definition offer :: "(nat \<Rightarrow> pystr) \<Rightarrow> envelope \<Rightarrow> nat \<Rightarrow> event_stream \<Rightarrow> event_stream" where
  "offer clock env i s =
     (let sub = es_objs s ! i in
      if sub_closed sub then s
      else (case put_nowait (QEvent env) (sub_queue sub) of
              Some q \<Rightarrow> s\<lparr>es_objs := (es_objs s)[i := sub\<lparr>sub_queue := q\<rparr>]\<rparr>
            | None \<Rightarrow> evict_slow (clock (Suc i)) i s))"

definition fanout :: "(nat \<Rightarrow> pystr) \<Rightarrow> envelope \<Rightarrow> event_stream \<Rightarrow> event_stream" where
  "fanout clock env s = fold (offer clock env) (es_subscribers s) s"

datatype publish_result = Published envelope | Dropped schema_error | Raised py_exc

text \<open>The guarded roll-back of an id: only when no other publisher has moved the counter.\<close>

definition rollback_id :: "nat \<Rightarrow> nat \<Rightarrow> nat" where
  "rollback_id assigned next_id = (if next_id = assigned then next_id - 1 else next_id)"

text \<open>\<open>publish\<close> from one thread. \<open>clock 0\<close> is the envelope's timestamp and \<open>clock (i + 1)\<close>
  the one of an overrun envelope for subscriber \<open>i\<close>. The id is rolled back on a validation
  error; an exception of the validator leaves it consumed.\<close>

definition publish ::
  "(nat \<Rightarrow> pystr) \<Rightarrow> pystr \<Rightarrow> payload \<Rightarrow> pystr option \<Rightarrow> int \<Rightarrow> event_stream
   \<Rightarrow> publish_result \<times> event_stream" where
  "publish clock ty payload agent_id version s =
     (let assigned = Suc (es_next_id s);
          s1 = s\<lparr>es_next_id := assigned\<rparr>;
          env = \<lparr>ev_type = ty, ev_version = version, ev_id = str_of_nat assigned,
                 ev_ts = clock 0, ev_agent_id = agent_id, ev_payload = payload\<rparr>
      in case validate_envelope (to_dict env) of
           VRaise x \<Rightarrow> (Raised x, s1)
         | VErr e \<Rightarrow>
             (Dropped e, s1\<lparr>es_next_id := rollback_id assigned (es_next_id s1)\<rparr>)
         | VOk \<Rightarrow>
             (Published env,
              fanout clock env (s1\<lparr>es_ring := ring_append (es_ring_max s1) (es_ring s1) env\<rparr>)))"

definition replay_from :: "pystr option \<Rightarrow> event_stream \<Rightarrow> envelope list" where
  "replay_from last_id s = replay_ring_from (es_ring s) last_id"

definition subscriber_count :: "event_stream \<Rightarrow> nat" where
  "subscriber_count s = length (es_subscribers s)"

section \<open>The publish endpoint\<close>

definition MAX_EVENT_PUBLISH_FIELD_BYTES :: nat where
  "MAX_EVENT_PUBLISH_FIELD_BYTES = 4096"

definition cap_string :: "pystr \<Rightarrow> pystr" where
  "cap_string v =
     (if length v > MAX_EVENT_PUBLISH_FIELD_BYTES
      then take MAX_EVENT_PUBLISH_FIELD_BYTES v @ ''...[truncated]'' else v)"

definition cap_value :: "pyval \<Rightarrow> pyval" where
  "cap_value v = (case v of PStr s \<Rightarrow> PStr (cap_string s) | _ \<Rightarrow> v)"

datatype publish_reply = Reply int "pystr option" | ReplyRaised py_exc

text \<open>\<open>parse_and_publish_envelope\<close> after \<open>json.loads\<close>: \<^const>\<open>None\<close> is a body that does not
  decode. Keys of a decoded object are strings, so the key check of the loop never fails.\<close>

definition parse_and_publish_envelope ::
  "(nat \<Rightarrow> pystr) \<Rightarrow> pyval option \<Rightarrow> event_stream \<Rightarrow> publish_reply \<times> event_stream" where
  "parse_and_publish_envelope clock decoded s =
     (case decoded of
        None \<Rightarrow> (Reply 400 (Some ''malformed json''), s)
      | Some (PDict body) \<Rightarrow>
          (let type_raw = get_or_none body ''type'';
               payload_raw = get_or_none body ''payload'';
               agent_id_raw = get_or_none body ''agent_id'';
               version_raw = (case dict_get body ''version'' of None \<Rightarrow> PInt 1 | Some v \<Rightarrow> v)
           in if \<not> is_nonempty_str type_raw then (Reply 400 (Some ''type is required''), s)
              else (case payload_raw of
                PDict p \<Rightarrow>
                  if \<not> str_or_none agent_id_raw
                  then (Reply 400 (Some ''agent_id must be a string or null''), s)
                  else if \<not> positive_int version_raw
                  then (Reply 400 (Some ''version must be a positive integer''), s)
                  else (case publish clock
                          (case type_raw of PStr t \<Rightarrow> t | _ \<Rightarrow> [])
                          (map (\<lambda>(k, v). (k, cap_value v)) p)
                          (case agent_id_raw of PStr a \<Rightarrow> Some (cap_string a) | _ \<Rightarrow> None)
                          (case version_raw of PInt n \<Rightarrow> n | _ \<Rightarrow> 1) s of
                     (Published _, s') \<Rightarrow> (Reply 204 None, s')
                   | (Dropped _, s') \<Rightarrow> (Reply 400 (Some ''validation failed''), s')
                   | (Raised x, s') \<Rightarrow> (ReplyRaised x, s'))
              | _ \<Rightarrow> (Reply 400 (Some ''payload must be an object''), s)))
      | Some _ \<Rightarrow> (Reply 400 (Some ''payload must be a JSON object''), s))"

section \<open>What one publish does to the subscribers\<close>

text \<open>The effect of the fan-out on one subscriber, as a function of that subscriber alone.\<close>

definition slow :: "subscriber \<Rightarrow> bool" where
  "slow sub = (\<not> sub_closed sub \<and> queue_full (sub_queue sub))"

definition deliver :: "nat \<Rightarrow> int \<Rightarrow> pystr \<Rightarrow> envelope \<Rightarrow> subscriber \<Rightarrow> subscriber" where
  "deliver next_id queue_max ts env sub =
     (if sub_closed sub then sub
      else if queue_full (sub_queue sub)
      then \<lparr>sub_queue = put_best_effort OVERRUN_SENTINEL
              (put_best_effort (QEvent (overrun_envelope next_id queue_max ts (qsize (sub_queue sub))))
                (drop_one (sub_queue sub))), sub_closed = True\<rparr>
      else sub\<lparr>sub_queue := (sub_queue sub)\<lparr>aq_items := aq_items (sub_queue sub) @ [QEvent env]\<rparr>\<rparr>)"

lemma offer_frame [simp]:
  "es_next_id (offer clock env i s) = es_next_id s"
  "es_queue_max (offer clock env i s) = es_queue_max s"
  "es_ring_max (offer clock env i s) = es_ring_max s"
  "es_ring (offer clock env i s) = es_ring s"
  "length (es_objs (offer clock env i s)) = length (es_objs s)"
  by (auto simp: offer_def evict_slow_def remove_subscriber_def Let_def split: option.splits)

lemma offer_objs:
  "es_objs (offer clock env i s) =
     (es_objs s)[i := deliver (es_next_id s) (es_queue_max s) (clock (Suc i)) env (es_objs s ! i)]"
  by (auto simp: offer_def deliver_def evict_slow_def remove_subscriber_def put_nowait_def Let_def)

lemma offer_subscribers:
  "es_subscribers (offer clock env i s) =
     (if slow (es_objs s ! i) then removeAll i (es_subscribers s) else es_subscribers s)"
  by (auto simp: offer_def slow_def evict_slow_def remove_subscriber_def put_nowait_def Let_def)

lemma fold_offer_frame [simp]:
  "es_next_id (fold (offer clock env) is s) = es_next_id s"
  "es_queue_max (fold (offer clock env) is s) = es_queue_max s"
  "es_ring_max (fold (offer clock env) is s) = es_ring_max s"
  "es_ring (fold (offer clock env) is s) = es_ring s"
  "length (es_objs (fold (offer clock env) is s)) = length (es_objs s)"
  by (induction "is" arbitrary: s) simp_all

lemma fold_offer_objs:
  assumes "distinct is" and "j < length (es_objs s)"
  shows "es_objs (fold (offer clock env) is s) ! j =
    (if j \<in> set is
     then deliver (es_next_id s) (es_queue_max s) (clock (Suc j)) env (es_objs s ! j)
     else es_objs s ! j)"
  using assms
proof (induction "is" arbitrary: s)
  case Nil
  then show ?case by simp
next
  case (Cons i "is")
  then have IH: "es_objs (fold (offer clock env) is (offer clock env i s)) ! j =
    (if j \<in> set is
     then deliver (es_next_id s) (es_queue_max s) (clock (Suc j)) env (es_objs (offer clock env i s) ! j)
     else es_objs (offer clock env i s) ! j)" by simp
  show ?case
  proof (cases "j = i")
    case True
    with Cons.prems IH show ?thesis by (simp add: offer_objs)
  next
    case False
    with IH show ?thesis by (simp add: offer_objs)
  qed
qed

lemma fold_offer_subscribers:
  assumes "distinct is"
  shows "es_subscribers (fold (offer clock env) is s) =
    filter (\<lambda>j. \<not> (j \<in> set is \<and> slow (es_objs s ! j))) (es_subscribers s)"
  using assms
proof (induction "is" arbitrary: s)
  case Nil
  then show ?case by simp
next
  case (Cons i "is")
  have same: "es_objs (offer clock env i s) ! j = es_objs s ! j" if "j \<in> set is" for j
    using Cons.prems that by (metis distinct.simps(2) nth_list_update_neq offer_objs)
  have "es_subscribers (fold (offer clock env) (i # is) s) =
    filter (\<lambda>j. \<not> (j \<in> set is \<and> slow (es_objs s ! j))) (es_subscribers (offer clock env i s))"
    using Cons same by (auto intro!: filter_cong)
  then show ?case
    by (auto simp: offer_subscribers removeAll_filter_not_eq intro!: filter_cong)
qed

section \<open>The invariant\<close>

definition sub_wf :: "int \<Rightarrow> subscriber \<Rightarrow> bool" where
  "sub_wf queue_max sub =
     (queue_wf (sub_queue sub) \<and> aq_maxsize (sub_queue sub) = queue_max \<and>
      OVERRUN_SENTINEL \<notin> set (aq_items (sub_queue sub)))"

definition event_stream_inv :: "event_stream \<Rightarrow> bool" where
  "event_stream_inv s =
     (es_queue_max s \<ge> 1 \<and> es_ring_max s \<ge> 1 \<and>
      length (es_ring s) \<le> es_ring_max s \<and> ring_ok (es_ring s) (es_next_id s) \<and>
      distinct (es_subscribers s) \<and>
      (\<forall>i\<in>set (es_subscribers s). i < length (es_objs s) \<and> \<not> sub_closed (es_objs s ! i)) \<and>
      (\<forall>sub\<in>set (es_objs s). sub_wf (es_queue_max s) sub))"

lemma slow_items:
  assumes "sub_wf m sub" "m \<ge> 1" "slow sub"
  shows "aq_items (sub_queue (deliver n m ts env sub)) =
    tl (aq_items (sub_queue sub)) @ [QEvent (overrun_envelope n m ts (qsize (sub_queue sub)))]"
  using assms by (simp add: deliver_def slow_def sub_wf_def evict_full)

lemma deliver_wf:
  assumes "sub_wf m sub" "m \<ge> 1"
  shows "sub_wf m (deliver n m ts env sub)"
proof (cases "slow sub")
  case True
  have "OVERRUN_SENTINEL \<notin> set (aq_items (sub_queue (deliver n m ts env sub)))"
    using assms slow_items [OF assms True] by (auto simp: sub_wf_def dest: list.set_sel(2) in_set_butlastD)
      (metis list.sel(2) list.set_sel(2))
  with True assms show ?thesis
    by (auto simp: sub_wf_def deliver_def slow_def)
next
  case False
  then show ?thesis
    using assms by (auto simp: sub_wf_def deliver_def slow_def queue_wf_def queue_full_def qsize_def)
qed

lemma init_inv: "event_stream_inv (init_event_stream qm rm)"
  by (simp add: event_stream_inv_def init_event_stream_def)

lemma subscribe_inv: "event_stream_inv s \<Longrightarrow> event_stream_inv (snd (subscribe s))"
  by (auto simp: event_stream_inv_def subscribe_def Let_def new_subscriber_def sub_wf_def
      nth_append)

lemma remove_inv: "event_stream_inv s \<Longrightarrow> event_stream_inv (remove_subscriber i s)"
  by (auto simp: event_stream_inv_def remove_subscriber_def distinct_removeAll)

lemma consume_inv:
  assumes "event_stream_inv s" "i < length (es_objs s)"
  shows "event_stream_inv (snd (consume i s))"
proof (cases "get_nowait (sub_queue (es_objs s ! i))")
  case None
  with assms show ?thesis by (simp add: consume_def)
next
  case (Some xq)
  obtain x q where xq: "xq = (x, q)" by (cases xq)
  let ?sub = "es_objs s ! i"
  have "sub_wf (es_queue_max s) ?sub"
    using assms by (auto simp: event_stream_inv_def)
  moreover have "queue_wf q" if "queue_wf (sub_queue ?sub)"
    using get_nowait_wf [OF that] Some xq by simp
  ultimately have "sub_wf (es_queue_max s) (?sub\<lparr>sub_queue := q\<rparr>)"
    using Some xq by (auto simp: sub_wf_def get_nowait_def split: list.splits)
  with assms Some xq show ?thesis
    by (auto simp: event_stream_inv_def consume_def nth_list_update
        dest: set_update_subset_insert [THEN subsetD])
qed

lemma fanout_inv:
  assumes "event_stream_inv s"
  shows "event_stream_inv (fanout clock env s)"
proof -
  let ?t = "fanout clock env s"
  from assms have d: "distinct (es_subscribers s)" and m: "es_queue_max s \<ge> 1"
    and wf: "\<And>j. j < length (es_objs s) \<Longrightarrow> sub_wf (es_queue_max s) (es_objs s ! j)"
    by (auto simp: event_stream_inv_def)
  have objs: "sub_wf (es_queue_max s) (es_objs ?t ! j)" if "j < length (es_objs s)" for j
    using that wf deliver_wf m by (simp add: fanout_def fold_offer_objs d)
  have "\<forall>sub\<in>set (es_objs ?t). sub_wf (es_queue_max s) sub"
    using objs by (auto simp: in_set_conv_nth fanout_def)
  moreover have "i < length (es_objs ?t) \<and> \<not> sub_closed (es_objs ?t ! i)"
    if "i \<in> set (es_subscribers ?t)" for i
  proof -
    from that have i: "i \<in> set (es_subscribers s)" "\<not> slow (es_objs s ! i)"
      by (auto simp: fanout_def fold_offer_subscribers d)
    with assms have "i < length (es_objs s)" "\<not> sub_closed (es_objs s ! i)"
      by (auto simp: event_stream_inv_def)
    with i d show ?thesis by (auto simp: fanout_def fold_offer_objs deliver_def slow_def)
  qed
  moreover have "distinct (es_subscribers ?t)"
    by (simp add: fanout_def fold_offer_subscribers d)
  ultimately show ?thesis
    using assms by (simp add: event_stream_inv_def fanout_def)
qed

lemma publish_cases:
  obtains (raised) x where "publish clock ty p ag ver s = (Raised x, s\<lparr>es_next_id := Suc (es_next_id s)\<rparr>)"
  | (dropped) e where "publish clock ty p ag ver s = (Dropped e, s)"
  | (published) env where "publish clock ty p ag ver s =
      (Published env, fanout clock env (s\<lparr>es_next_id := Suc (es_next_id s),
         es_ring := ring_append (es_ring_max s) (es_ring s) env\<rparr>))"
      "env = \<lparr>ev_type = ty, ev_version = ver, ev_id = str_of_nat (Suc (es_next_id s)),
         ev_ts = clock 0, ev_agent_id = ag, ev_payload = p\<rparr>"
      "validate_envelope (to_dict env) = VOk"
proof -
  let ?env = "\<lparr>ev_type = ty, ev_version = ver, ev_id = str_of_nat (Suc (es_next_id s)),
         ev_ts = clock 0, ev_agent_id = ag, ev_payload = p\<rparr>"
  show ?thesis
  proof (cases "validate_envelope (to_dict ?env)")
    case VOk
    then show ?thesis by (intro published [of ?env]) (simp_all add: publish_def Let_def)
  next
    case (VErr e)
    then show ?thesis by (intro dropped [of e]) (simp add: publish_def rollback_id_def)
  next
    case (VRaise x)
    then show ?thesis by (intro raised [of x]) (simp add: publish_def)
  qed
qed

lemma publish_inv:
  assumes "event_stream_inv s"
  shows "event_stream_inv (snd (publish clock ty p ag ver s))"
proof (cases rule: publish_cases [of clock ty p ag ver s])
  case (raised x)
  with assms show ?thesis by (auto simp: event_stream_inv_def intro: ring_ok_mono)
next
  case (dropped e)
  with assms show ?thesis by simp
next
  case (published env)
  have "ring_ok (ring_append (es_ring_max s) (es_ring s) env) (Suc (es_next_id s))"
    by (rule ring_ok_append [where n = "es_next_id s"])
       (use assms published in \<open>auto simp: event_stream_inv_def\<close>)
  then have "event_stream_inv (s\<lparr>es_next_id := Suc (es_next_id s),
      es_ring := ring_append (es_ring_max s) (es_ring s) env\<rparr>)"
    using assms by (simp add: event_stream_inv_def ring_append_def take_last_length)
  with published(1) show ?thesis by (simp add: fanout_inv)
qed

lemma publish_inv_eq: "publish clock ty p ag ver s = (r, t) \<Longrightarrow> event_stream_inv s \<Longrightarrow> event_stream_inv t"
  using publish_inv [of s clock ty p ag ver] by simp

lemma publishedD:
  assumes "publish clock ty p ag ver s = (Published env, t)"
  shows "t = fanout clock env (s\<lparr>es_next_id := Suc (es_next_id s),
         es_ring := ring_append (es_ring_max s) (es_ring s) env\<rparr>)"
    and "env = \<lparr>ev_type = ty, ev_version = ver, ev_id = str_of_nat (Suc (es_next_id s)),
         ev_ts = clock 0, ev_agent_id = ag, ev_payload = p\<rparr>"
    and "validate_envelope (to_dict env) = VOk"
  by (cases rule: publish_cases [of clock ty p ag ver s], use assms in simp_all)+

section \<open>Runs of the broker\<close>

definition es_accept :: "event_stream \<Rightarrow> envelope \<Rightarrow> event_stream \<Rightarrow> bool" where
  "es_accept s e t = (\<exists>clock ty p ag ver. publish clock ty p ag ver s = (Published e, t))"

text \<open>Steps that accept nothing: without an exception, and with one.\<close>

inductive es_calm :: "event_stream \<Rightarrow> event_stream \<Rightarrow> bool" where
  calm_subscribe: "es_calm s (snd (subscribe s))"
| calm_consume: "i < length (es_objs s) \<Longrightarrow> es_calm s (snd (consume i s))"
| calm_remove: "es_calm s (remove_subscriber i s)"
| calm_dropped: "publish clock ty p ag ver s = (Dropped e, t) \<Longrightarrow> es_calm s t"

inductive es_quiet :: "event_stream \<Rightarrow> event_stream \<Rightarrow> bool" where
  quiet_calm: "es_calm s t \<Longrightarrow> es_quiet s t"
| quiet_raised: "publish clock ty p ag ver s = (Raised x, t) \<Longrightarrow> es_quiet s t"

lemma es_acceptD:
  assumes "es_accept s e t"
  shows "es_next_id t = Suc (es_next_id s)" "es_ring_max t = es_ring_max s"
    "es_ring t = ring_append (es_ring_max s) (es_ring s) e" "ev_id e = str_of_nat (Suc (es_next_id s))"
proof -
  from assms obtain clock ty p ag ver where pub: "publish clock ty p ag ver s = (Published e, t)"
    by (auto simp: es_accept_def)
  from publishedD(1) [OF pub]
  show "es_next_id t = Suc (es_next_id s)" "es_ring_max t = es_ring_max s"
    "es_ring t = ring_append (es_ring_max s) (es_ring s) e" by (simp_all add: fanout_def)
  from publishedD(2) [OF pub] show "ev_id e = str_of_nat (Suc (es_next_id s))" by simp
qed

lemma es_calm_frame:
  assumes "es_calm s t"
  shows "es_ring t = es_ring s \<and> es_ring_max t = es_ring_max s \<and> es_next_id t = es_next_id s"
  using assms
proof cases
  case (calm_dropped clock ty p ag ver e)
  then show ?thesis by (cases rule: publish_cases [of clock ty p ag ver s]) auto
qed (auto simp: subscribe_def Let_def consume_def remove_subscriber_def split: option.splits)

lemma es_quiet_frame:
  assumes "es_quiet s t"
  shows "es_ring t = es_ring s \<and> es_ring_max t = es_ring_max s \<and> es_next_id s \<le> es_next_id t"
  using assms
proof cases
  case quiet_calm
  then show ?thesis by (simp add: es_calm_frame)
next
  case (quiet_raised clock ty p ag ver x)
  then show ?thesis by (cases rule: publish_cases [of clock ty p ag ver s]) auto
qed

lemma es_calm_inv: "es_calm s t \<Longrightarrow> event_stream_inv s \<Longrightarrow> event_stream_inv t"
  by (induction rule: es_calm.induct)
     (auto simp: subscribe_inv consume_inv remove_inv dest: publish_inv_eq)

lemma es_quiet_inv: "es_quiet s t \<Longrightarrow> event_stream_inv s \<Longrightarrow> event_stream_inv t"
  by (induction rule: es_quiet.induct) (auto dest: publish_inv_eq es_calm_inv)

lemma es_accept_inv: "es_accept s e t \<Longrightarrow> event_stream_inv s \<Longrightarrow> event_stream_inv t"
  by (auto simp: es_accept_def dest: publish_inv_eq)

interpretation es: event_ring es_ring es_next_id es_ring_max event_stream_inv es_accept es_quiet
proof unfold_locales
  fix s e s'
  assume "event_stream_inv s" "es_accept s e s'"
  then show "event_stream_inv s'" by (blast intro: es_accept_inv)
next
  fix s s'
  assume "event_stream_inv s" "es_quiet s s'"
  then show "event_stream_inv s'" by (blast intro: es_quiet_inv)
qed (auto simp: es_acceptD event_stream_inv_def dest: es_quiet_frame)

abbreviation es_trace :: "event_stream \<Rightarrow> envelope list \<Rightarrow> event_stream \<Rightarrow> bool" where
  "es_trace \<equiv> ring_trace es_accept es_quiet"

section \<open>Publishers on several threads\<close>

text \<open>The id counter under interleaving (\<open>_id_lock\<close> guards only the two counter updates): a
  publisher takes an id, validates outside the lock, and then keeps the id, hands it back
  through \<^const>\<open>rollback_id\<close>, or loses it to an exception.\<close>

record id_state =
  ids_next :: nat
  ids_pending :: "(nat \<times> nat) list"
  ids_accepted :: "nat list"

definition init_ids :: id_state where
  "init_ids = \<lparr>ids_next = 0, ids_pending = [], ids_accepted = []\<rparr>"

inductive id_step :: "id_state \<Rightarrow> id_state \<Rightarrow> bool" where
  assign: "th \<notin> fst ` set (ids_pending s) \<Longrightarrow>
     id_step s (s\<lparr>ids_next := Suc (ids_next s),
                  ids_pending := ids_pending s @ [(th, Suc (ids_next s))]\<rparr>)"
| keep: "(th, n) \<in> set (ids_pending s) \<Longrightarrow>
     id_step s (s\<lparr>ids_pending := removeAll (th, n) (ids_pending s),
                  ids_accepted := ids_accepted s @ [n]\<rparr>)"
| hand_back: "(th, n) \<in> set (ids_pending s) \<Longrightarrow>
     id_step s (s\<lparr>ids_next := rollback_id n (ids_next s),
                  ids_pending := removeAll (th, n) (ids_pending s)\<rparr>)"
| lose: "(th, n) \<in> set (ids_pending s) \<Longrightarrow>
     id_step s (s\<lparr>ids_pending := removeAll (th, n) (ids_pending s)\<rparr>)"

inductive ids_reachable :: "id_state \<Rightarrow> bool" where
  ids_start: "ids_reachable init_ids"
| ids_more: "ids_reachable s \<Longrightarrow> id_step s t \<Longrightarrow> ids_reachable t"

definition ids_inv :: "id_state \<Rightarrow> bool" where
  "ids_inv s =
     (distinct (map snd (ids_pending s)) \<and> distinct (ids_accepted s) \<and>
      snd ` set (ids_pending s) \<inter> set (ids_accepted s) = {} \<and>
      (\<forall>n \<in> snd ` set (ids_pending s) \<union> set (ids_accepted s). 0 < n \<and> n \<le> ids_next s))"

lemma distinct_snd_remove:
  assumes "distinct (map snd ps)" "(a, n) \<in> set ps"
  shows "snd ` set (removeAll (a, n) ps) = snd ` set ps - {n}"
proof -
  have inj: "inj_on snd (set ps)" using assms(1) by (simp add: distinct_map)
  show ?thesis
    using inj_on_image_set_diff [OF inj, of "set ps" "{(a, n)}"] assms(2) by simp
qed

lemma distinct_map_removeAll: "distinct (map f xs) \<Longrightarrow> distinct (map f (removeAll y xs))"
  by (induction xs) auto

lemma rollback_bound:
  assumes "P \<inter> A = {}" and "\<forall>k \<in> P \<union> A. 0 < k \<and> k \<le> hi" and "n \<in> P"
  shows "\<forall>m \<in> (P - {n}) \<union> A. 0 < m \<and> m \<le> rollback_id n hi"
proof
  fix m
  assume "m \<in> (P - {n}) \<union> A"
  with assms have "0 < m" "m \<le> hi" "m \<noteq> n" by blast+
  then show "0 < m \<and> m \<le> rollback_id n hi" by (auto simp: rollback_id_def)
qed

lemma id_step_inv: "id_step s t \<Longrightarrow> ids_inv s \<Longrightarrow> ids_inv t"
proof (induction rule: id_step.induct)
  case (assign th s)
  have "\<forall>n \<in> snd ` set (ids_pending s) \<union> set (ids_accepted s). 0 < n \<and> n \<le> ids_next s"
    using assign(2) by (simp add: ids_inv_def)
  then have "Suc (ids_next s) \<notin> snd ` set (ids_pending s) \<union> set (ids_accepted s)"
    by (metis Suc_n_not_le_n)
  with assign(2) show ?case by (simp add: ids_inv_def ball_Un le_SucI)
next
  case (keep th n s)
  then have "snd ` set (removeAll (th, n) (ids_pending s)) = snd ` set (ids_pending s) - {n}"
    by (intro distinct_snd_remove) (auto simp: ids_inv_def)
  moreover from keep have "n \<in> snd ` set (ids_pending s)" by (force intro: rev_image_eqI)
  ultimately show ?case
    using keep by (auto simp: ids_inv_def distinct_map_removeAll simp del: set_removeAll)
next
  case (hand_back th n s)
  then have rem: "snd ` set (removeAll (th, n) (ids_pending s)) = snd ` set (ids_pending s) - {n}"
    by (intro distinct_snd_remove) (auto simp: ids_inv_def)
  have n: "n \<in> snd ` set (ids_pending s)" using hand_back(1) by (force intro: rev_image_eqI)
  have "\<forall>m \<in> (snd ` set (ids_pending s) - {n}) \<union> set (ids_accepted s).
      0 < m \<and> m \<le> rollback_id n (ids_next s)"
    by (rule rollback_bound) (use hand_back(2) n in \<open>simp_all add: ids_inv_def\<close>)
  moreover have "(snd ` set (ids_pending s) - {n}) \<inter> set (ids_accepted s) = {}"
    using hand_back(2) by (simp add: ids_inv_def) blast
  ultimately show ?case
    using hand_back(2) rem by (simp add: ids_inv_def distinct_map_removeAll del: set_removeAll)
next
  case (lose th n s)
  then have "snd ` set (removeAll (th, n) (ids_pending s)) = snd ` set (ids_pending s) - {n}"
    by (intro distinct_snd_remove) (auto simp: ids_inv_def)
  with lose(2) show ?case
    by (auto simp: ids_inv_def distinct_map_removeAll simp del: set_removeAll)
qed

lemma ids_reachable_inv: "ids_reachable s \<Longrightarrow> ids_inv s"
  by (induction rule: ids_reachable.induct) (auto simp: id_step_inv, simp add: ids_inv_def init_ids_def)

section \<open>Properties\<close>

text \<open>C1: In every state the broker can reach by any interleaving of subscribe, publish (accepted,
  dropped or raising), consume and unsubscribe, the invariant holds (bounded queues and ring,
  live subscribers open, increasing ids, no sentinel in any queue), the ring is exactly the last
  \<open>ring_max\<close> accepted envelopes, and no two accepted envelopes share an id.\<close>

theorem event_stream_reachable:
  assumes "es_trace (init_event_stream qm rm) es s"
  shows "event_stream_inv s \<and> es_ring s = take_last (es_ring_max s) es \<and> distinct (map ev_id es)"
proof -
  note init = init_inv [of qm rm]
  have "event_stream_inv s" "es_ring_max s = es_ring_max (init_event_stream qm rm)"
    "es_ring s = take_last (es_ring_max (init_event_stream qm rm)) es"
    using es.trace_facts [OF assms init] by (simp_all add: init_event_stream_def)
  moreover have "distinct (map ev_id es)"
    using assms init by (rule es.trace_distinct_ids)
  ultimately show ?thesis by simp
qed

theorem event_stream_reachable_witness:
  "event_stream_inv (snd (subscribe (init_event_stream 0 5)))"
proof -
  have "es_trace (init_event_stream 0 5) [] (snd (subscribe (init_event_stream 0 5)))"
    by (rule trace_quiet, rule trace_Nil, rule quiet_calm, rule calm_subscribe)
  then show ?thesis using event_stream_reachable by blast
qed

text \<open>C6: A successful publish appends the envelope to the ring under the next id and touches
  every subscriber in isolation: one with room receives the envelope and stays; one whose
  queue is full loses its oldest item, receives the terminal overrun envelope instead, is
  closed and leaves the subscriber set; subscribers no longer in the set are untouched.\<close>

theorem publish_effect:
  assumes "event_stream_inv s" and "publish clock ty p ag ver s = (Published env, t)"
  shows "es_ring t = ring_append (es_ring_max s) (es_ring s) env \<and>
    es_next_id t = Suc (es_next_id s) \<and> ev_id env = str_of_nat (Suc (es_next_id s)) \<and>
    (\<forall>i < length (es_objs s). let sub = es_objs s ! i; sub' = es_objs t ! i in
       if i \<notin> set (es_subscribers s) then sub' = sub \<and> i \<notin> set (es_subscribers t)
       else if queue_full (sub_queue sub) then
         aq_items (sub_queue sub') = tl (aq_items (sub_queue sub)) @
           [QEvent (overrun_envelope (Suc (es_next_id s)) (es_queue_max s) (clock (Suc i))
                      (qsize (sub_queue sub)))] \<and>
         sub_closed sub' \<and> i \<notin> set (es_subscribers t)
       else aq_items (sub_queue sub') = aq_items (sub_queue sub) @ [QEvent env] \<and>
         \<not> sub_closed sub' \<and> i \<in> set (es_subscribers t))"
proof -
  let ?s1 = "s\<lparr>es_next_id := Suc (es_next_id s), es_ring := ring_append (es_ring_max s) (es_ring s) env\<rparr>"
  have t: "t = fold (offer clock env) (es_subscribers s) ?s1"
    using publishedD(1) [OF assms(2)] by (simp add: fanout_def)
  have d: "distinct (es_subscribers s)" and m: "es_queue_max s \<ge> 1"
    using assms(1) by (simp_all add: event_stream_inv_def)
  have objs: "es_objs t ! i = (if i \<in> set (es_subscribers s)
      then deliver (Suc (es_next_id s)) (es_queue_max s) (clock (Suc i)) env (es_objs s ! i)
      else es_objs s ! i)" if "i < length (es_objs s)" for i
    using that d by (simp add: t fold_offer_objs)
  have subs: "set (es_subscribers t) = {i \<in> set (es_subscribers s). \<not> slow (es_objs s ! i)}"
    using d by (auto simp: t fold_offer_subscribers)
  have open_sub: "\<not> sub_closed (es_objs s ! i)" if "i \<in> set (es_subscribers s)" for i
    using assms(1) that by (auto simp: event_stream_inv_def)
  have wf: "sub_wf (es_queue_max s) (es_objs s ! i)" if "i < length (es_objs s)" for i
    using assms(1) that by (auto simp: event_stream_inv_def)
  show ?thesis
    using t publishedD(2) [OF assms(2)] objs subs open_sub slow_items [OF wf m]
    by (auto simp: Let_def slow_def) (auto simp: deliver_def)
qed

definition heartbeat_payload :: payload where
  "heartbeat_payload = [(''duration_ms'', PInt 12), (''outcome'', PStr ''success'')]"

text \<open>A payload its validator accepts is always published.\<close>

lemma publish_accepts:
  assumes "dict_get VALIDATORS ty = Some f" "f p = VOk" "clock 0 \<noteq> []"
  shows "fst (publish clock ty p ag 1 s) =
    Published \<lparr>ev_type = ty, ev_version = 1, ev_id = str_of_nat (Suc (es_next_id s)), ev_ts = clock 0,
      ev_agent_id = ag, ev_payload = p\<rparr>"
proof -
  have "validate_envelope (to_dict \<lparr>ev_type = ty, ev_version = 1, ev_id = str_of_nat (Suc (es_next_id s)),
      ev_ts = clock 0, ev_agent_id = ag, ev_payload = p\<rparr>) = VOk"
    using assms by (cases ag) (simp_all add: to_dict_def validate_envelope_def ENVELOPE_KEYS_def dict_has_def
      positive_int_def is_nonempty_str_def str_or_none_def)
  then show ?thesis by (simp add: publish_def Let_def)
qed

lemma publish_accepts_ex:
  assumes "dict_get VALIDATORS ty = Some f" "f p = VOk" "clock 0 \<noteq> []"
  shows "\<exists>env t. publish clock ty p ag 1 s = (Published env, t) \<and> ev_type env = ty \<and> ev_payload env = p"
  using publish_accepts [where clock = clock and ag = ag and s = s, OF assms]
  by (metis envelope.select_convs(1,6) prod.collapse)

lemma publish_heartbeat:
  assumes "clock 0 \<noteq> []"
  shows "\<exists>env t. publish clock ''heartbeat.fired'' heartbeat_payload ag 1 s = (Published env, t)"
proof -
  have "validate_heartbeat_fired heartbeat_payload = VOk"
    by (simp add: heartbeat_payload_def dict_has_def validate_heartbeat_fired_def validate_with_def
      is_nonneg_int_def in_str_set_def hashable_def OUTCOMES_def)
  moreover have "dict_get VALIDATORS ''heartbeat.fired'' = Some validate_heartbeat_fired" by (simp add: VALIDATORS_def)
  ultimately show ?thesis
    using publish_accepts [where p = heartbeat_payload] assms by (metis prod.collapse)
qed

theorem publish_effect_witness:
  "\<exists>env t. publish (\<lambda>_. ''now'') ''heartbeat.fired'' heartbeat_payload None 1
        (snd (subscribe (init_event_stream 1 2))) = (Published env, t) \<and>
     es_ring t = [env] \<and> ev_id env = str_of_nat 1 \<and>
     aq_items (sub_queue (es_objs t ! 0)) = [QEvent env]"
proof -
  let ?s = "snd (subscribe (init_event_stream 1 2))"
  have inv: "event_stream_inv ?s" by (rule subscribe_inv [OF init_inv])
  obtain env t where pub: "publish (\<lambda>_. ''now'') ''heartbeat.fired'' heartbeat_payload None 1 ?s =
    (Published env, t)" using publish_heartbeat [of "\<lambda>_. ''now''"] by blast
  show ?thesis
    using publish_effect [OF inv pub] pub
    by (auto simp: subscribe_def init_event_stream_def new_subscriber_def queue_full_def qsize_def
        ring_append_def take_last_def Let_def)
qed

text \<open>An evicted subscriber is never stranded and is told so: the items left in its queue are
  envelopes only, its consumer loop yields the ones it had not read, then the overrun envelope
  as the last item, and then returns.\<close>

theorem evicted_subscriber_ends:
  assumes "event_stream_inv s" and "publish clock ty p ag ver s = (Published env, t)"
    and "i \<in> set (es_subscribers s)" and "queue_full (sub_queue (es_objs s ! i))"
  shows "\<exists>unread ov. aq_items (sub_queue (es_objs s ! i)) = map QEvent unread \<and>
    ev_type ov = ''stream.overrun'' \<and> sub_closed (es_objs t ! i) \<and>
    iterate_drain (sub_closed (es_objs t ! i)) (aq_items (sub_queue (es_objs t ! i))) =
      (tl unread @ [ov], True)"
proof -
  have i: "i < length (es_objs s)" using assms(1,3) by (auto simp: event_stream_inv_def)
  let ?items = "aq_items (sub_queue (es_objs s ! i))"
  have "sub_wf (es_queue_max s) (es_objs s ! i)"
    using assms(1) i by (auto simp: event_stream_inv_def)
  then have "OVERRUN_SENTINEL \<notin> set ?items" by (simp add: sub_wf_def)
  then have "\<exists>unread. ?items = map QEvent unread"
    by (simp add: ex_map_conv) (metis qitem.exhaust)
  then obtain unread where unread: "?items = map QEvent unread" ..
  define ov where "ov = overrun_envelope (Suc (es_next_id s)) (es_queue_max s) (clock (Suc i))
    (qsize (sub_queue (es_objs s ! i)))"
  have t: "aq_items (sub_queue (es_objs t ! i)) = map QEvent (tl unread @ [ov])"
    "sub_closed (es_objs t ! i)"
    using publish_effect [OF assms(1,2)] assms(3,4) i unread
    by (auto simp: Let_def ov_def map_tl)
  have "ev_type ov = ''stream.overrun''" by (simp add: ov_def overrun_envelope_def)
  with unread t iterate_drain_closed [of "tl unread @ [ov]"] show ?thesis by auto
qed

lemma publish_publishes:
  "\<exists>env. publish (\<lambda>_. ''now'') ''heartbeat.fired'' heartbeat_payload None 1 s =
     (Published env, snd (publish (\<lambda>_. ''now'') ''heartbeat.fired'' heartbeat_payload None 1 s))"
  using publish_heartbeat [of "\<lambda>_. ''now''" None s] by auto

theorem evicted_subscriber_ends_witness:
  "\<exists>s t ov. snd (publish (\<lambda>_. ''now'') ''heartbeat.fired'' heartbeat_payload None 1 s) = t \<and>
     ev_type ov = ''stream.overrun'' \<and>
     iterate_drain True (aq_items (sub_queue (es_objs t ! 0))) = ([ov], True)"
proof -
  let ?pub = "publish (\<lambda>_. ''now'') ''heartbeat.fired'' heartbeat_payload None 1"
  let ?a = "snd (subscribe (init_event_stream 1 2))"
  let ?s = "snd (?pub ?a)"
  have inv0: "event_stream_inv ?a" by (rule subscribe_inv [OF init_inv])
  obtain env0 where pub0: "?pub ?a = (Published env0, ?s)" using publish_publishes by blast
  have inv: "event_stream_inv ?s" using publish_inv_eq [OF pub0 inv0] .
  obtain env where pub: "?pub ?s = (Published env, snd (?pub ?s))" using publish_publishes by blast
  have s: "0 \<in> set (es_subscribers ?s)" "aq_items (sub_queue (es_objs ?s ! 0)) = [QEvent env0]"
    using publish_effect [OF inv0 pub0]
    by (auto simp: subscribe_def init_event_stream_def new_subscriber_def queue_full_def qsize_def
        Let_def)
  have "es_queue_max ?s = 1"
    using publishedD(1) [OF pub0] by (simp add: fanout_def subscribe_def init_event_stream_def Let_def)
  then have "aq_maxsize (sub_queue (es_objs ?s ! 0)) = 1"
    using inv s(1) by (auto simp: event_stream_inv_def sub_wf_def)
  then have full: "queue_full (sub_queue (es_objs ?s ! 0))"
    using s(2) by (simp add: queue_full_def qsize_def)
  from evicted_subscriber_ends [OF inv pub s(1) full] s(2)
  obtain ov where "ev_type ov = ''stream.overrun''"
    "iterate_drain True (aq_items (sub_queue (es_objs (snd (?pub ?s)) ! 0))) = ([ov], True)"
    by (auto simp: Cons_eq_map_conv)
  then show ?thesis by (intro exI [of _ ?s] exI) simp
qed

text \<open>Resumption: a client that saw everything up to the current id and reconnects after any
  run of the broker gets, by \<open>replay_from\<close> with that id, exactly the envelopes accepted in the
  meantime, in order and without gaps or repeats (the most recent \<open>ring_max\<close> of them if there
  were more).\<close>

theorem replay_resumes:
  assumes "event_stream_inv s" and "es_trace s es t"
  shows "replay_from (Some (str_of_nat (es_next_id s))) t = take_last (es_ring_max s) es"
  using es.resume [OF assms] by (simp add: replay_from_def)

theorem replay_resumes_witness:
  "\<exists>env t. publish (\<lambda>_. ''now'') ''heartbeat.fired'' heartbeat_payload None 1
        (init_event_stream 10 2) = (Published env, t) \<and>
     replay_from (Some (str_of_nat 0)) t = [env]"
proof -
  let ?s = "init_event_stream 10 2"
  obtain env t where pub: "publish (\<lambda>_. ''now'') ''heartbeat.fired'' heartbeat_payload None 1 ?s =
    (Published env, t)" using publish_heartbeat [of "\<lambda>_. ''now''"] by blast
  then have "es_accept ?s env t" unfolding es_accept_def by (intro exI)
  then have "es_trace ?s [env] t"
    using trace_accept [OF trace_Nil] by (metis append_Nil)
  from replay_resumes [OF init_inv this] pub show ?thesis
    by (auto simp: init_event_stream_def take_last_def)
qed

text \<open>C23: Publishers on several threads never hand out one id twice: however their steps
  interleave, the ids of accepted envelopes and of publishes still in validation are pairwise
  distinct.\<close>

theorem concurrent_ids_unique:
  assumes "ids_reachable s"
  shows "distinct (ids_accepted s @ map snd (ids_pending s))"
  using ids_reachable_inv [OF assms] by (auto simp: ids_inv_def)

theorem concurrent_ids_unique_witness:
  "distinct (ids_accepted (init_ids\<lparr>ids_next := 1, ids_pending := [(7, 1)]\<rparr>) @
     map snd (ids_pending (init_ids\<lparr>ids_next := 1, ids_pending := [(7, 1)]\<rparr>)))"
proof -
  have "ids_reachable (init_ids\<lparr>ids_next := 1, ids_pending := [(7, 1)]\<rparr>)"
    using ids_more [OF ids_start assign [of 7 init_ids]] by (simp add: init_ids_def)
  then show ?thesis by (rule concurrent_ids_unique)
qed

text \<open>Validation drops leave no gap: along any run in which no publish raises, the ids of the
  accepted envelopes are exactly the consecutive numbers between the two counter values.\<close>

theorem ids_contiguous:
  assumes "ring_trace es_accept es_calm s es t"
  shows "map ev_id es = map str_of_nat [Suc (es_next_id s)..<Suc (es_next_id t)] \<and>
    es_next_id s \<le> es_next_id t"
  using assms
proof (induction rule: ring_trace.induct)
  case (trace_Nil s)
  then show ?case by simp
next
  case (trace_accept s es t e u)
  then show ?case using es_acceptD [OF trace_accept.hyps(2)] by auto
next
  case (trace_quiet s es t u)
  then show ?case using es_calm_frame by simp
qed

theorem ids_contiguous_witness:
  "\<exists>env t. publish (\<lambda>_. ''now'') ''heartbeat.fired'' heartbeat_payload None 1
        (init_event_stream 10 2) = (Published env, t) \<and> map ev_id [env] = map str_of_nat [1..<2]"
proof -
  let ?s = "init_event_stream 10 2"
  obtain env t where pub: "publish (\<lambda>_. ''now'') ''heartbeat.fired'' heartbeat_payload None 1 ?s =
    (Published env, t)" using publish_heartbeat [of "\<lambda>_. ''now''"] by blast
  then have acc: "es_accept ?s env t" unfolding es_accept_def by (intro exI)
  then have "ring_trace es_accept es_calm ?s [env] t"
    using trace_accept [OF trace_Nil] by (metis append_Nil)
  from ids_contiguous [OF this] pub es_acceptD(1) [OF acc] show ?thesis
    by (auto simp: init_event_stream_def upt_rec)
qed

text \<open>\<open>publish\<close> is documented never to raise, and it does: an otherwise valid event with a
  list in its \<open>outcome\<close> field makes the validator's set membership test raise \<open>TypeError\<close> out of
  \<open>publish\<close>, and the id taken for it is lost, so the next accepted event leaves a gap.\<close>

theorem publish_raises_on_unhashable:
  "publish (\<lambda>_. ''now'') ''heartbeat.fired'' [(''duration_ms'', PInt 12), (''outcome'', PList xs)] ag 1 s =
     (Raised TypeError, s\<lparr>es_next_id := Suc (es_next_id s)\<rparr>)"
proof -
  have "validate_envelope (to_dict \<lparr>ev_type = ''heartbeat.fired'', ev_version = 1,
      ev_id = str_of_nat (Suc (es_next_id s)), ev_ts = ''now'', ev_agent_id = ag,
      ev_payload = [(''duration_ms'', PInt 12), (''outcome'', PList xs)]\<rparr>) = VRaise TypeError"
    by (cases ag) (simp_all add: to_dict_def validate_envelope_def
      ENVELOPE_KEYS_def dict_has_def VALIDATORS_def positive_int_def is_nonempty_str_def
      str_or_none_def validate_heartbeat_fired_def validate_with_def is_nonneg_int_def
      in_str_set_def hashable_def)
  then show ?thesis by (simp add: publish_def Let_def)
qed

lemma cap_string_length: "length (cap_string v) \<le> MAX_EVENT_PUBLISH_FIELD_BYTES + 14"
  by (simp add: cap_string_def)

lemma cap_value_string: "cap_value v = PStr x \<Longrightarrow> length x \<le> MAX_EVENT_PUBLISH_FIELD_BYTES + 14"
  by (cases v) (auto simp: cap_value_def cap_string_length)

lemma parse_and_publish_calls:
  obtains (rejected) m where "parse_and_publish_envelope clock d s = (Reply 400 (Some m), s)"
  | (called) ty p ag ver where
      "parse_and_publish_envelope clock d s =
        (case publish clock ty (map (\<lambda>(k, v). (k, cap_value v)) p) ag ver s of
           (Published _, s') \<Rightarrow> (Reply 204 None, s')
         | (Dropped _, s') \<Rightarrow> (Reply 400 (Some ''validation failed''), s')
         | (Raised x, s') \<Rightarrow> (ReplyRaised x, s'))"
      "\<And>a. ag = Some a \<Longrightarrow> length a \<le> MAX_EVENT_PUBLISH_FIELD_BYTES + 14"
proof (cases "\<exists>m. parse_and_publish_envelope clock d s = (Reply 400 (Some m), s)")
  case True
  then show ?thesis using rejected by blast
next
  case False
  then obtain body where d: "d = Some (PDict body)"
    by (cases d) (auto simp: parse_and_publish_envelope_def split: pyval.splits)
  let ?ag = "case get_or_none body ''agent_id'' of PStr a \<Rightarrow> Some (cap_string a) | _ \<Rightarrow> None"
  from False d obtain p where "get_or_none body ''payload'' = PDict p"
    by (cases "get_or_none body ''payload''")
       (auto simp: parse_and_publish_envelope_def Let_def split: if_splits)
  with False d show ?thesis
    by (intro called [of _ p ?ag])
       (auto simp: parse_and_publish_envelope_def Let_def cap_string_length
         split: if_splits pyval.splits)
qed

text \<open>The publish endpoint answers 204 exactly when it has published one event whose string
  payload fields and agent id are within the documented cap (plus the truncation mark); every
  400 leaves the broker as it was; and an exception only consumes an id.\<close>

theorem parse_and_publish_outcome:
  "case parse_and_publish_envelope clock d s of
     (Reply code err, t) \<Rightarrow>
       (code = 204 \<and> err = None \<and>
        (\<exists>env. es_accept s env t \<and>
           (\<forall>k v. dict_get (ev_payload env) k = Some (PStr v) \<longrightarrow>
              length v \<le> MAX_EVENT_PUBLISH_FIELD_BYTES + 14) \<and>
           (\<forall>a. ev_agent_id env = Some a \<longrightarrow> length a \<le> MAX_EVENT_PUBLISH_FIELD_BYTES + 14))) \<or>
       (code = 400 \<and> err \<noteq> None \<and> t = s)
   | (ReplyRaised x, t) \<Rightarrow> t = s\<lparr>es_next_id := Suc (es_next_id s)\<rparr>"
proof (cases rule: parse_and_publish_calls [of clock d s])
  case (rejected m)
  then show ?thesis by simp
next
  case (called ty p ag ver)
  let ?p = "map (\<lambda>(k, v). (k, cap_value v)) p"
  have capped: "length x \<le> MAX_EVENT_PUBLISH_FIELD_BYTES + 14"
    if "dict_get ?p k = Some (PStr x)" for k x
    using that by (auto simp: map_of_map dest: cap_value_string)
  show ?thesis
  proof (cases rule: publish_cases [of clock ty ?p ag ver s])
    case (published env)
    let ?t = "snd (publish clock ty ?p ag ver s)"
    have "publish clock ty ?p ag ver s = (Published env, ?t)" using published(1) by simp
    then have "es_accept s env ?t" unfolding es_accept_def by (intro exI)
    moreover have "ev_payload env = ?p" "ev_agent_id env = ag" using published(2) by simp_all
    ultimately show ?thesis
      using called capped published(1) by auto
  qed (simp_all add: called)
qed

theorem parse_and_publish_outcome_witness:
  "parse_and_publish_envelope (\<lambda>_. ''now'') (Some (PStr ''x'')) (init_event_stream 1 1) =
     (Reply 400 (Some ''payload must be a JSON object''), init_event_stream 1 1)"
  using parse_and_publish_outcome [where clock = "\<lambda>_. ''now''" and d = "Some (PStr ''x'')"
      and s = "init_event_stream 1 1"]
  by (simp add: parse_and_publish_envelope_def)

end
