(* ===== verification/Harness_Utils.thy ===== *)
theory Harness_Utils
  imports Prompt_Env
begin

text \<open>
  Model of \<open>harness/utils.py\<close>: durations, the \<open>consensus\<close> field, the front matter of the
  Markdown files that configure the runners, and the bounded file cache. \<open>yaml.safe_load\<close> is an
  argument (\<^const>\<open>None\<close> is a YAML error), as are the results of \<open>os.stat\<close> and of reading a file.
\<close>

section \<open>Durations\<close>

definition re_digit :: "char \<Rightarrow> bool" where
  "re_digit c = (let n = (of_char c :: nat) in 48 \<le> n \<and> n \<le> 57)"

text \<open>One optional group \<open>(?:(\d+)u)?\<close> of the duration pattern: the digits, if it took part in the
  match, and the rest.\<close>

definition duration_group :: "char \<Rightarrow> pystr \<Rightarrow> pystr option \<times> pystr" where
  "duration_group u s =
     (let ds = takeWhile re_digit s; rest = dropWhile re_digit s
      in if ds \<noteq> [] \<and> startswith rest [u] then (Some ds, drop 1 rest) else (None, s))"

definition group_int :: "pystr option \<Rightarrow> int" where
  "group_int g = (case g of None \<Rightarrow> 0 | Some ds \<Rightarrow> (case int_of_str ds of None \<Rightarrow> 0 | Some i \<Rightarrow> i))"

definition parse_duration :: "pystr \<Rightarrow> int option" where
  "parse_duration value =
     (case duration_group CHR ''h'' (strip value) of
        (h, r1) \<Rightarrow>
          (case duration_group CHR ''m'' r1 of
             (m, r2) \<Rightarrow>
               (case duration_group CHR ''s'' r2 of
                  (s, r3) \<Rightarrow>
                    if r3 \<noteq> [] \<or> (h = None \<and> m = None \<and> s = None) then None
                    else Some (group_int h * 3600 + group_int m * 60 + group_int s))))"

section \<open>Consensus entries\<close>

record consensus_entry =
  ce_backend :: pystr
  ce_model :: "pystr option"

definition parse_consensus_item :: "pyval \<Rightarrow> consensus_entry option" where
  "parse_consensus_item item =
     (case item of
        PDict d \<Rightarrow>
          if truthy (dict_get d ''backend'')
          then Some \<lparr>ce_backend = str_val (the (dict_get d ''backend'')),
                 ce_model = (if truthy (dict_get d ''model'') then Some (str_val (the (dict_get d ''model'')))
                             else None)\<rparr>
          else None
      | _ \<Rightarrow> None)"

definition parse_consensus :: "pyval \<Rightarrow> consensus_entry list" where
  "parse_consensus value =
     (case value of PList xs \<Rightarrow> List.map_filter parse_consensus_item xs | _ \<Rightarrow> [])"

section \<open>Front matter\<close>

text \<open>The position of the first occurrence of a substring.\<close>

fun find_sub :: "pystr \<Rightarrow> pystr \<Rightarrow> nat option" where
  "find_sub p [] = (if p = [] then Some 0 else None)"
| "find_sub p (c # s) = (if startswith (c # s) p then Some 0 else map_option Suc (find_sub p s))"

text \<open>\<open>^---\s*\n(.*?)\n---\s*\n?(.*)\<close>: the white space after the opening dashes must contain a
  line break, the search tries the last one first; the block ends at the first \<open>\n---\<close>. The
  second group is only used stripped, so the white space between is left to \<open>strip\<close>.\<close>

fun close_block :: "pystr \<Rightarrow> nat list \<Rightarrow> (pystr \<times> pystr) option" where
  "close_block rest [] = None"
| "close_block rest (i # is) =
     (if i < length rest \<and> rest ! i = CHR 0x0A
      then (case find_sub (CHR 0x0A # ''---'') (drop (Suc i) rest) of
              Some j \<Rightarrow> Some (take j (drop (Suc i) rest), drop (j + 4) (drop (Suc i) rest))
            | None \<Rightarrow> close_block rest is)
      else close_block rest is)"

definition frontmatter_match :: "pystr \<Rightarrow> (pystr \<times> pystr) option" where
  "frontmatter_match raw =
     (if startswith raw ''---''
      then (let rest = drop 3 raw
            in close_block rest (rev [0..<length (takeWhile py_isspace rest)]))
      else None)"

datatype fm_error = FrontmatterTooLarge | YAMLError

definition safe_load_bounded :: "int \<Rightarrow> (pystr \<Rightarrow> pyval option) \<Rightarrow> pystr \<Rightarrow> fm_error + pyval" where
  "safe_load_bounded max_yaml yaml text =
     (if int (length (utf8_encode text)) > max_yaml then Inl FrontmatterTooLarge
      else (case yaml text of None \<Rightarrow> Inl YAMLError | Some v \<Rightarrow> Inr v))"

definition parse_frontmatter_raw ::
  "int \<Rightarrow> (pystr \<Rightarrow> pyval option) \<Rightarrow> pystr \<Rightarrow> fm_error + ((pystr \<times> pyval) list \<times> pystr)" where
  "parse_frontmatter_raw max_yaml yaml raw =
     (case frontmatter_match raw of
        None \<Rightarrow> Inr ([], raw)
      | Some (block, rest) \<Rightarrow>
          (case safe_load_bounded max_yaml yaml block of
             Inl e \<Rightarrow> Inl e
           | Inr v \<Rightarrow> Inr (case v of PDict d \<Rightarrow> d | _ \<Rightarrow> [], strip rest)))"

definition field_text :: "pyval \<Rightarrow> pystr" where
  "field_text v = (case v of PNone \<Rightarrow> [] | _ \<Rightarrow> str_val v)"

definition parse_frontmatter ::
  "int \<Rightarrow> (pystr \<Rightarrow> pyval option) \<Rightarrow> pystr \<Rightarrow> fm_error + ((pystr \<times> pystr) list \<times> pystr)" where
  "parse_frontmatter max_yaml yaml raw =
     (case parse_frontmatter_raw max_yaml yaml raw of
        Inl e \<Rightarrow> Inl e
      | Inr (d, body) \<Rightarrow> Inr (map (\<lambda>(k, v). (k, field_text v)) d, body))"

section \<open>Fields of a front matter\<close>

text \<open>\<open>Path(path).stem\<close>: the last component without its last suffix; a leading or trailing dot is
  no suffix.\<close>

definition path_stem :: "pystr \<Rightarrow> pystr" where
  "path_stem p =
     (let name = basename p; suffix = takeWhile (\<lambda>c. c \<noteq> CHR ''.'') (rev name);
          i = length name - length suffix - 1
      in if CHR ''.'' \<in> set name \<and> 0 < i \<and> suffix \<noteq> [] then take i name else name)"

definition or_none :: "pystr option \<Rightarrow> pystr option" where
  "or_none v = (case v of Some (c # cs) \<Rightarrow> Some (c # cs) | _ \<Rightarrow> None)"

definition or_field :: "pystr option \<Rightarrow> pystr option \<Rightarrow> pystr option" where
  "or_field a b = (case a of Some (c # cs) \<Rightarrow> Some (c # cs) | _ \<Rightarrow> b)"

definition flag_field :: "(pystr \<times> pystr) list \<Rightarrow> pystr \<Rightarrow> pystr list \<Rightarrow> bool \<Rightarrow> bool" where
  "flag_field flds key falsy dflt =
     (case dict_get flds key of None \<Rightarrow> dflt | Some v \<Rightarrow> lower v \<notin> set falsy)"

definition at_least_one :: "pystr \<Rightarrow> int option" where
  "at_least_one s = map_option (max 1) (int_of_str s)"

text \<open>The \<open>max-tokens\<close> field every kind of item has.\<close>

definition max_tokens_field :: "(pystr \<times> pystr) list \<Rightarrow> int option" where
  "max_tokens_field flds =
     (case or_field (dict_get flds ''max-tokens'') (dict_get flds ''max_tokens'') of
        None \<Rightarrow> None | Some s \<Rightarrow> at_least_one s)"

text \<open>The \<open>enabled\<close> field, and the name an item takes from its file.\<close>

definition enabled_field :: "(pystr \<times> pystr) list \<Rightarrow> bool" where
  "enabled_field flds = flag_field flds ''enabled'' [''false'', ''no'', ''off'', ''n'', ''0'', []] True"

definition name_field :: "(pystr \<times> pystr) list \<Rightarrow> pystr \<Rightarrow> pystr" where
  "name_field flds path = (case or_none (dict_get flds ''name'') of Some n \<Rightarrow> n | None \<Rightarrow> path_stem path)"

text \<open>\<open>needle in haystack\<close>.\<close>

definition substring :: "pystr \<Rightarrow> pystr \<Rightarrow> bool" where
  "substring needle hay = (find_sub needle hay \<noteq> None)"

section \<open>The file cache\<close>

datatype stat_result = StatMissing | StatError | StatOk int int

text \<open>The cache maps a path to time stamp, size and text, least recently used first.\<close>

record md_cache =
  mc_entries :: "(pystr \<times> (int \<times> int \<times> pystr)) list"
  mc_evictions :: nat

definition move_to_end :: "'k \<Rightarrow> ('k \<times> 'v) list \<Rightarrow> ('k \<times> 'v) list" where
  "move_to_end k d = (case dict_get d k of None \<Rightarrow> d | Some v \<Rightarrow> dict_pop k d @ [(k, v)])"

definition evict_lru :: "int \<Rightarrow> md_cache \<Rightarrow> md_cache" where
  "evict_lru cache_max c =
     (if int (length (mc_entries c)) \<ge> cache_max
      then (case mc_entries c of
              [] \<Rightarrow> c
            | _ # es \<Rightarrow> c\<lparr>mc_entries := es, mc_evictions := Suc (mc_evictions c)\<rparr>)
      else c)"

text \<open>\<open>read_md_bounded\<close> past the cache: \<open>content\<close> is the text of the file, \<^const>\<open>None\<close> when
  it cannot be opened.\<close>

definition read_fresh ::
  "int \<Rightarrow> int \<Rightarrow> pystr \<Rightarrow> int \<Rightarrow> int \<Rightarrow> pystr option \<Rightarrow> md_cache \<Rightarrow> pystr option \<times> md_cache" where
  "read_fresh max_file cache_max path mtime sz content c =
     (case content of
        None \<Rightarrow> (None, c)
      | Some text \<Rightarrow>
          (let raw = take (nat (max_file + 1)) text in
           if int (length (utf8_encode raw)) > max_file
           then (None, c\<lparr>mc_entries := dict_pop path (mc_entries c)\<rparr>)
           else
             (let c1 = evict_lru cache_max c
              in (Some raw, c1\<lparr>mc_entries := dict_set path (mtime, sz, raw) (mc_entries c1)\<rparr>))))"

definition read_md_bounded ::
  "int \<Rightarrow> int \<Rightarrow> pystr \<Rightarrow> stat_result \<Rightarrow> pystr option \<Rightarrow> md_cache \<Rightarrow> pystr option \<times> md_cache" where
  "read_md_bounded max_file cache_max path st content c =
     (case st of
        StatMissing \<Rightarrow> (None, c\<lparr>mc_entries := dict_pop path (mc_entries c)\<rparr>)
      | StatError \<Rightarrow> (None, c)
      | StatOk mtime sz \<Rightarrow>
          if sz > max_file then (None, c\<lparr>mc_entries := dict_pop path (mc_entries c)\<rparr>)
          else
            (case dict_get (mc_entries c) path of
               Some (t, n, text) \<Rightarrow>
                 if t = mtime \<and> n = sz
                 then (Some text, c\<lparr>mc_entries := move_to_end path (mc_entries c)\<rparr>)
                 else read_fresh max_file cache_max path mtime sz content c
             | None \<Rightarrow> read_fresh max_file cache_max path mtime sz content c))"

section \<open>Lemmas\<close>

lemma str_of_nat_re_digit: "\<forall>c\<in>set (str_of_nat n). re_digit c"
proof -
  obtain ds where ds: "\<forall>d\<in>set ds. d < 10" "str_of_nat n = map digit_char ds"
    using str_of_nat_digits by blast
  have "re_digit (digit_char d)" if "d < 10" for d
    using that by (simp add: re_digit_def digit_char_def)
  with ds show ?thesis by auto
qed

lemma duration_group_hit:
  assumes "\<not> re_digit u"
  shows "duration_group u (str_of_nat n @ u # rest) = (Some (str_of_nat n), rest)"
  using assms str_of_nat_re_digit [of n]
  by (simp add: duration_group_def startswith_def takeWhile_append2 dropWhile_append2)

lemma duration_group_miss:
  assumes "\<not> re_digit v" "u \<noteq> v"
  shows "duration_group u (str_of_nat n @ v # rest) = (None, str_of_nat n @ v # rest)"
  using assms str_of_nat_re_digit [of n]
  by (simp add: duration_group_def startswith_def takeWhile_append2 dropWhile_append2)

lemma duration_group_Nil [simp]: "duration_group u [] = (None, [])"
  by (simp add: duration_group_def)

lemma group_int_str [simp]: "group_int (Some (str_of_nat n)) = int n" "group_int None = 0"
  by (simp_all add: group_int_def int_of_str_of_nat)

text \<open>The printed form of a duration with any subset of its three parts.\<close>

definition duration_text :: "nat option \<Rightarrow> nat option \<Rightarrow> nat option \<Rightarrow> pystr" where
  "duration_text h m s =
     (let part = (\<lambda>u x. case x of None \<Rightarrow> [] | Some n \<Rightarrow> str_of_nat n @ [u])
      in part CHR ''h'' h @ part CHR ''m'' m @ part CHR ''s'' s)"

lemma units_not_digit: "\<not> re_digit CHR ''h''" "\<not> re_digit CHR ''m''" "\<not> re_digit CHR ''s''"
  by (simp_all add: re_digit_def)

lemma strip_solid:
  assumes "s \<noteq> []" "\<not> py_isspace (hd s)" "\<not> py_isspace (last s)"
  shows "strip s = s"
proof -
  have "dropWhile py_isspace s = s" using assms(1,2) by (cases s) auto
  moreover have "dropWhile py_isspace (rev s) = rev s"
    using assms(1,3) by (cases "rev s") (auto simp: hd_rev dest: arg_cong [of _ _ hd])
  ultimately show ?thesis by (simp add: strip_def lstrip_by_def rstrip_by_def)
qed

lemma duration_text_solid:
  assumes "\<forall>c\<in>set s. re_digit c \<or> c \<in> {CHR ''h'', CHR ''m'', CHR ''s''}"
  shows "strip s = s"
proof (cases "s = []")
  case False
  have "\<not> py_isspace c" if "re_digit c \<or> c \<in> {CHR ''h'', CHR ''m'', CHR ''s''}" for c
    using that by (auto simp: re_digit_def py_isspace_def Let_def)
  with assms False show ?thesis by (intro strip_solid) auto
qed (simp add: strip_def lstrip_by_def rstrip_by_def)

lemma find_sub_first:
  assumes "find_sub p b = None" "p \<noteq> []" "\<And>k. k < length b \<Longrightarrow> \<not> startswith (drop k b @ p @ r) p"
  shows "find_sub p (b @ p @ r) = Some (length b)"
  using assms
proof (induction b)
  case Nil
  then show ?case by (cases p) (auto simp: startswith_def)
next
  case (Cons c b)
  have "\<not> startswith (c # b @ p @ r) p" using Cons.prems(3) [of 0] by simp
  moreover have "find_sub p b = None" using Cons.prems(1) by (simp split: if_splits)
  moreover have "\<not> startswith (drop k b @ p @ r) p" if "k < length b" for k
    using Cons.prems(3) [of "Suc k"] that by simp
  ultimately show ?case using Cons.IH Cons.prems(2) by simp
qed

text \<open>Runs of the cache over a file system in which time stamp and size determine the text.\<close>

inductive md_run :: "int \<Rightarrow> int \<Rightarrow> (pystr \<Rightarrow> int \<Rightarrow> int \<Rightarrow> pystr) \<Rightarrow> md_cache \<Rightarrow> bool" for max_file cache_max world where
  md_start: "md_run max_file cache_max world \<lparr>mc_entries = [], mc_evictions = 0\<rparr>"
| md_read: "md_run max_file cache_max world c \<Longrightarrow>
    (\<And>t n text. st = StatOk t n \<Longrightarrow> content = Some text \<Longrightarrow> text = world path t n) \<Longrightarrow>
    md_run max_file cache_max world (snd (read_md_bounded max_file cache_max path st content c))"

definition fresh_text :: "int \<Rightarrow> pystr \<Rightarrow> pystr option" where
  "fresh_text max_file text =
     (let raw = take (nat (max_file + 1)) text
      in if int (length (utf8_encode raw)) > max_file then None else Some raw)"

definition md_inv :: "int \<Rightarrow> int \<Rightarrow> (pystr \<Rightarrow> int \<Rightarrow> int \<Rightarrow> pystr) \<Rightarrow> md_cache \<Rightarrow> bool" where
  "md_inv max_file cache_max world c =
     (dict_wf (mc_entries c) \<and> int (length (mc_entries c)) \<le> max 1 cache_max \<and>
      (\<forall>path t n text. dict_get (mc_entries c) path = Some (t, n, text) \<longrightarrow>
         fresh_text max_file (world path t n) = Some text))"

lemma md_inv_pop: "md_inv mf cm w c \<Longrightarrow> md_inv mf cm w (c\<lparr>mc_entries := dict_pop p (mc_entries c)\<rparr>)"
  using length_dict_pop [of p "mc_entries c"]
  by (auto simp: md_inv_def dict_wf_pop)

lemma md_inv_move:
  assumes "md_inv mf cm w c"
  shows "md_inv mf cm w (c\<lparr>mc_entries := move_to_end p (mc_entries c)\<rparr>)"
proof (cases "dict_get (mc_entries c) p")
  case None
  with assms show ?thesis by (simp add: move_to_end_def)
next
  case (Some v)
  let ?d = "dict_pop p (mc_entries c)"
  have eq: "?d @ [(p, v)] = dict_set p v ?d" by (rule dict_set_fresh [symmetric]) (simp add: dict_has_def)
  have "dict_get (dict_set p v ?d) = dict_get (mc_entries c)" using Some by auto
  moreover have "length (dict_set p v ?d) \<le> length (mc_entries c)"
    using length_dict_pop_less [OF Some] by (simp add: eq [symmetric])
  ultimately show ?thesis
    using assms Some by (auto simp: md_inv_def move_to_end_def eq dict_wf_set dict_wf_pop)
qed

lemma evict_lru_inv:
  assumes "md_inv mf cm w c"
  shows "md_inv mf cm w (evict_lru cm c) \<and> int (length (mc_entries (evict_lru cm c))) + 1 \<le> max 1 cm"
proof (cases "int (length (mc_entries c)) \<ge> cm")
  case False
  with assms show ?thesis by (simp add: evict_lru_def)
next
  case True
  show ?thesis
  proof (cases "mc_entries c")
    case Nil
    with assms True show ?thesis by (simp add: evict_lru_def)
  next
    case (Cons e es)
    with assms True dict_get_tl [of "mc_entries c"] dict_wf_tl [of "mc_entries c"] show ?thesis
      by (auto simp: evict_lru_def md_inv_def)
  qed
qed

lemma read_fresh_inv:
  assumes "md_inv mf cm w c" and "\<And>text. content = Some text \<Longrightarrow> text = w path t n"
  shows "md_inv mf cm w (snd (read_fresh mf cm path t n content c))"
proof (cases content)
  case None
  with assms show ?thesis by (simp add: read_fresh_def)
next
  case (Some body)
  let ?raw = "take (nat (mf + 1)) body" and ?c = "evict_lru cm c"
  show ?thesis
  proof (cases "int (length (utf8_encode ?raw)) > mf")
    case True
    with Some assms(1) show ?thesis by (simp add: read_fresh_def Let_def md_inv_pop)
  next
    case False
    then have fresh: "fresh_text mf (w path t n) = Some ?raw"
      using assms(2) [OF Some] by (simp add: fresh_text_def Let_def)
    note ev = evict_lru_inv [OF assms(1)]
    have "int (length (dict_set path (t, n, ?raw) (mc_entries ?c))) \<le> max 1 cm"
      using ev by (auto simp: length_dict_set)
    with ev fresh False Some show ?thesis
      by (auto simp: read_fresh_def Let_def md_inv_def dict_wf_set)
  qed
qed

lemma md_run_inv: "md_run mf cm w c \<Longrightarrow> md_inv mf cm w c"
proof (induction rule: md_run.induct)
  case md_start
  then show ?case by (simp add: md_inv_def dict_wf_def dict_keys_def)
next
  case (md_read c st content path)
  show ?case
  proof (cases st)
    case (StatOk t n)
    then have "md_inv mf cm w (snd (read_fresh mf cm path t n content c))"
      using md_read by (intro read_fresh_inv) auto
    then show ?thesis using md_read.IH StatOk
      by (auto simp: read_md_bounded_def md_inv_pop md_inv_move split: option.split)
  qed (use md_read.IH in \<open>simp_all add: read_md_bounded_def md_inv_pop\<close>)
qed

section \<open>Properties\<close>

text \<open>Durations round-trip: any non-empty combination of hours, minutes and seconds, printed in that
  order, parses to the number of seconds it stands for.\<close>

theorem parse_duration_roundtrip:
  assumes "h \<noteq> None \<or> m \<noteq> None \<or> s \<noteq> None"
  shows "parse_duration (duration_text h m s) =
    Some (int (case h of None \<Rightarrow> 0 | Some n \<Rightarrow> n) * 3600 + int (case m of None \<Rightarrow> 0 | Some n \<Rightarrow> n) * 60 +
      int (case s of None \<Rightarrow> 0 | Some n \<Rightarrow> n))"
proof -
  have "strip (duration_text h m s) = duration_text h m s"
    using str_of_nat_re_digit by (intro duration_text_solid) (auto simp: duration_text_def Let_def split: option.splits)
  with assms show ?thesis
    by (cases h; cases m; cases s)
      (simp_all add: parse_duration_def duration_text_def Let_def duration_group_hit duration_group_miss units_not_digit)
qed

theorem parse_duration_roundtrip_witness:
  "parse_duration (duration_text (Some 1) None (Some 30)) = Some 3630"
  using parse_duration_roundtrip [of "Some 1" None "Some 30"] by simp

text \<open>The file cache is transparent and bounded: as long as time stamp and size determine a file's
  text, a read returns after any history exactly what an uncached bounded read returns, and the
  cache never holds more than its maximum.\<close>

theorem md_cache_transparent:
  assumes "md_run max_file cache_max world c" and "n \<le> max_file"
  shows "fst (read_md_bounded max_file cache_max path (StatOk t n) (Some (world path t n)) c) =
      fresh_text max_file (world path t n) \<and>
    int (length (mc_entries c)) \<le> max 1 cache_max"
proof -
  have fresh: "fst (read_fresh max_file cache_max path t n (Some (world path t n)) c) =
      fresh_text max_file (world path t n)"
    by (simp add: read_fresh_def fresh_text_def Let_def)
  show ?thesis
    using md_run_inv [OF assms(1)] assms(2) fresh
    by (auto simp: read_md_bounded_def md_inv_def split: option.split)
qed

theorem md_cache_transparent_witness:
  "fst (read_md_bounded 10 2 ''a.md'' (StatOk 7 3) (Some ''abc'') \<lparr>mc_entries = [], mc_evictions = 0\<rparr>) =
    fresh_text 10 ''abc''"
  using md_cache_transparent [OF md_start [of 10 2 "\<lambda>_ _ _. ''abc''"], of 3 "''a.md''" 7] by simp

end
