(* ===== verification/Message_Bus.thy ===== *)
theory Message_Bus
  imports Event_Stream Harness_Utils
begin

text \<open>
  Model of \<open>harness/bus.py\<close> and of the bus worker loop of \<open>harness/main.py\<close>. The message bus is a
  state machine: an operation that awaits is cut at its await points, so \<open>send\<close> is the step that
  marks the kind and creates the future, the step that puts the message once there is room, and
  the ways it can end; the worker takes a message and later finishes it. The hook-decision side
  channel is a listener registry with a bounded queue and its dispatcher.
\<close>

section \<open>Messages and the bus\<close>

record message =
  msg_prompt :: pystr
  msg_session_id :: "pystr option"
  msg_kind :: pystr
  msg_model :: "pystr option"
  msg_backend_id :: "pystr option"
  msg_consensus :: "consensus_entry list"
  msg_max_tokens :: "int option"
  msg_enqueued_at :: int
  msg_result :: "nat option"
  msg_metadata :: payload
  msg_trace_context :: "pystr option"

text \<open>The constructor, with the defaults of the fields no caller sets.\<close>

definition make_message ::
  "pystr \<Rightarrow> pystr option \<Rightarrow> pystr \<Rightarrow> pystr option \<Rightarrow> pystr option \<Rightarrow> consensus_entry list \<Rightarrow> int option \<Rightarrow> pystr option
   \<Rightarrow> message" where
  "make_message prompt session_id kind model backend_id consensus max_tokens trace_context =
     \<lparr>msg_prompt = prompt, msg_session_id = session_id, msg_kind = kind, msg_model = model,
      msg_backend_id = backend_id, msg_consensus = consensus, msg_max_tokens = max_tokens,
      msg_enqueued_at = 0, msg_result = None, msg_metadata = [], msg_trace_context = trace_context\<rparr>"

text \<open>Futures are numbered; \<open>bus_done\<close> holds the resolved or cancelled ones. \<open>bus_putting\<close> are
  the senders waiting for room, \<open>bus_awaiting\<close> those waiting for their result,
  \<open>bus_processing\<close> what the worker has taken and not finished.\<close>

record bus =
  bus_queue :: "message aqueue"
  bus_pending_kinds :: "pystr list"
  bus_next_future :: nat
  bus_done :: "nat list"
  bus_putting :: "message list"
  bus_awaiting :: "message list"
  bus_processing :: "message list"
  bus_dedup_total :: nat

definition init_bus :: "int \<Rightarrow> bus" where
  "init_bus depth =
     \<lparr>bus_queue = new_queue depth, bus_pending_kinds = [], bus_next_future = 0, bus_done = [],
      bus_putting = [], bus_awaiting = [], bus_processing = [], bus_dedup_total = 0\<rparr>"

definition pending_add :: "pystr \<Rightarrow> bus \<Rightarrow> bus" where
  "pending_add k b =
     b\<lparr>bus_pending_kinds := (if k \<in> set (bus_pending_kinds b) then bus_pending_kinds b
        else k # bus_pending_kinds b)\<rparr>"

definition release_pending :: "pystr \<Rightarrow> bus \<Rightarrow> bus" where
  "release_pending k b = b\<lparr>bus_pending_kinds := removeAll k (bus_pending_kinds b)\<rparr>"

text \<open>A reused message gets a new future when it has none or its old one is resolved.\<close>

definition mint_future :: "message \<Rightarrow> bus \<Rightarrow> message \<times> bus" where
  "mint_future m b =
     (case msg_result m of
        Some f \<Rightarrow>
          if f \<in> set (bus_done b)
          then (m\<lparr>msg_result := Some (bus_next_future b)\<rparr>, b\<lparr>bus_next_future := Suc (bus_next_future b)\<rparr>)
          else (m, b)
      | None \<Rightarrow>
          (m\<lparr>msg_result := Some (bus_next_future b)\<rparr>, b\<lparr>bus_next_future := Suc (bus_next_future b)\<rparr>))"

text \<open>\<open>send\<close> up to its first await, the completion of \<open>queue.put\<close>, and the cleanup that every
  exception takes (queue full after the timeout, cancellation, failure of the worker).\<close>

definition send_start :: "int \<Rightarrow> message \<Rightarrow> bus \<Rightarrow> bus" where
  "send_start now m b =
     (case mint_future m b of
        (m1, b1) \<Rightarrow>
          (let b2 = pending_add (msg_kind m1) b1
           in b2\<lparr>bus_putting := bus_putting b2 @ [m1\<lparr>msg_enqueued_at := now\<rparr>]\<rparr>))"

definition send_put :: "message \<Rightarrow> bus \<Rightarrow> bus option" where
  "send_put m b =
     (case put_nowait m (bus_queue b) of
        None \<Rightarrow> None
      | Some q \<Rightarrow> Some (b\<lparr>bus_queue := q, bus_putting := remove1 m (bus_putting b),
                        bus_awaiting := bus_awaiting b @ [m]\<rparr>))"

definition send_put_failed :: "message \<Rightarrow> bus \<Rightarrow> bus" where
  "send_put_failed m b = release_pending (msg_kind m) (b\<lparr>bus_putting := remove1 m (bus_putting b)\<rparr>)"

definition send_result_failed :: "message \<Rightarrow> bus \<Rightarrow> bus" where
  "send_result_failed m b = release_pending (msg_kind m) (b\<lparr>bus_awaiting := remove1 m (bus_awaiting b)\<rparr>)"

definition send_returned :: "message \<Rightarrow> bus \<Rightarrow> bus" where
  "send_returned m b = b\<lparr>bus_awaiting := remove1 m (bus_awaiting b)\<rparr>"

definition try_send :: "int \<Rightarrow> message \<Rightarrow> bus \<Rightarrow> bool \<times> bus" where
  "try_send now m b =
     (if msg_kind m \<in> set (bus_pending_kinds b)
      then (False, b\<lparr>bus_dedup_total := Suc (bus_dedup_total b)\<rparr>)
      else
        (case mint_future m b of
           (m1, b1) \<Rightarrow>
             (let b2 = pending_add (msg_kind m1) b1
              in case put_nowait (m1\<lparr>msg_enqueued_at := now\<rparr>) (bus_queue b2) of
                   None \<Rightarrow> (False, release_pending (msg_kind m1) b2)
                 | Some q \<Rightarrow> (True, b2\<lparr>bus_queue := q\<rparr>))))"

definition receive :: "bus \<Rightarrow> (message \<times> bus) option" where
  "receive b =
     (case get_nowait (bus_queue b) of
        None \<Rightarrow> None
      | Some (m, q) \<Rightarrow> Some (m, b\<lparr>bus_queue := q\<rparr>))"

text \<open>One turn of the worker: take a message; after \<open>process_bus\<close> (whether it returned or
  raised) resolve its future if nobody has, and release the kind.\<close>

definition worker_take :: "bus \<Rightarrow> bus option" where
  "worker_take b =
     (case receive b of
        None \<Rightarrow> None
      | Some (m, b1) \<Rightarrow> Some (b1\<lparr>bus_processing := bus_processing b1 @ [m]\<rparr>))"

definition worker_finish :: "message \<Rightarrow> bus \<Rightarrow> bus" where
  "worker_finish m b =
     (let b1 = (case msg_result m of
                  Some f \<Rightarrow> if f \<in> set (bus_done b) then b else b\<lparr>bus_done := f # bus_done b\<rparr>
                | None \<Rightarrow> b)
      in release_pending (msg_kind m) (b1\<lparr>bus_processing := remove1 m (bus_processing b1)\<rparr>))"

text \<open>The runs of the bus. \<open>sendable\<close> says which messages clients pass to \<open>send\<close>.\<close>

inductive bus_step :: "(message \<Rightarrow> bool) \<Rightarrow> bus \<Rightarrow> bus \<Rightarrow> bool" for sendable where
  bs_send_start: "sendable m \<Longrightarrow> bus_step sendable b (send_start now m b)"
| bs_send_put: "m \<in> set (bus_putting b) \<Longrightarrow> send_put m b = Some b' \<Longrightarrow> bus_step sendable b b'"
| bs_put_failed: "m \<in> set (bus_putting b) \<Longrightarrow> bus_step sendable b (send_put_failed m b)"
| bs_result_failed: "m \<in> set (bus_awaiting b) \<Longrightarrow> bus_step sendable b (send_result_failed m b)"
| bs_returned: "m \<in> set (bus_awaiting b) \<Longrightarrow> bus_step sendable b (send_returned m b)"
| bs_try_send: "bus_step sendable b (snd (try_send now m b))"
| bs_take: "worker_take b = Some b' \<Longrightarrow> bus_step sendable b b'"
| bs_finish: "m \<in> set (bus_processing b) \<Longrightarrow> bus_step sendable b (worker_finish m b)"

inductive_cases bus_stepE: "bus_step sendable b b'"

section \<open>The hook-decision side channel\<close>

record hook_decision_event =
  hd_agent :: pystr
  hd_session_id :: pystr
  hd_tool :: pystr
  hd_decision :: pystr
  hd_rule_name :: pystr
  hd_reason :: pystr
  hd_source :: pystr
  hd_traceparent :: "pystr option"

definition HOOK_DECISION_QUEUE_MAX :: int where
  "HOOK_DECISION_QUEUE_MAX = 1024"

text \<open>Listeners are named by their object identity; a call either returns or raises, as the argument
  \<open>raises\<close> says. \<open>hk_log\<close> records the calls made, \<open>hk_errors\<close> those that raised.\<close>

record hook_channel =
  hk_listeners :: "nat list"
  hk_listener_ids :: "nat list"
  hk_queue :: "hook_decision_event aqueue option"
  hk_dropped :: nat
  hk_log :: "(nat \<times> hook_decision_event) list"
  hk_errors :: nat
  hk_dup_rejects :: nat

definition init_hook_channel :: hook_channel where
  "init_hook_channel = \<lparr>hk_listeners = [], hk_listener_ids = [], hk_queue = None, hk_dropped = 0,
     hk_log = [], hk_errors = 0, hk_dup_rejects = 0\<rparr>"

definition subscribe_hook_decision :: "nat \<Rightarrow> hook_channel \<Rightarrow> hook_channel" where
  "subscribe_hook_decision l h =
     (if l \<in> set (hk_listener_ids h) then h\<lparr>hk_dup_rejects := Suc (hk_dup_rejects h)\<rparr>
      else h\<lparr>hk_listener_ids := l # hk_listener_ids h, hk_listeners := hk_listeners h @ [l]\<rparr>)"

definition unsubscribe_hook_decision :: "nat \<Rightarrow> hook_channel \<Rightarrow> hook_channel" where
  "unsubscribe_hook_decision l h =
     h\<lparr>hk_listeners := remove1 l (hk_listeners h), hk_listener_ids := removeAll l (hk_listener_ids h)\<rparr>"

definition start_hook_decision_dispatcher :: "hook_channel \<Rightarrow> hook_channel" where
  "start_hook_decision_dispatcher h = h\<lparr>hk_queue := Some (new_queue HOOK_DECISION_QUEUE_MAX)\<rparr>"

definition call_listeners ::
  "(nat \<Rightarrow> hook_decision_event \<Rightarrow> bool) \<Rightarrow> hook_decision_event \<Rightarrow> hook_channel \<Rightarrow> hook_channel" where
  "call_listeners raises e h =
     fold (\<lambda>l h. h\<lparr>hk_log := hk_log h @ [(l, e)],
                   hk_errors := hk_errors h + (if raises l e then 1 else 0)\<rparr>) (hk_listeners h) h"

definition publish_hook_decision ::
  "(nat \<Rightarrow> hook_decision_event \<Rightarrow> bool) \<Rightarrow> hook_decision_event \<Rightarrow> hook_channel \<Rightarrow> hook_channel" where
  "publish_hook_decision raises e h =
     (case hk_queue h of
        Some q \<Rightarrow>
          (case put_nowait e q of
             Some q' \<Rightarrow> h\<lparr>hk_queue := Some q'\<rparr>
           | None \<Rightarrow> h\<lparr>hk_dropped := Suc (hk_dropped h)\<rparr>)
      | None \<Rightarrow> call_listeners raises e h)"

text \<open>One turn of the dispatcher loop; \<^const>\<open>None\<close> while it waits on the empty queue.\<close>

definition dispatch_one ::
  "(nat \<Rightarrow> hook_decision_event \<Rightarrow> bool) \<Rightarrow> hook_channel \<Rightarrow> hook_channel option" where
  "dispatch_one raises h =
     (case hk_queue h of
        None \<Rightarrow> None
      | Some q \<Rightarrow>
          (case get_nowait q of
             None \<Rightarrow> None
           | Some (e, q') \<Rightarrow> Some (call_listeners raises e (h\<lparr>hk_queue := Some q'\<rparr>))))"

definition hook_payload :: "(pystr \<Rightarrow> pystr) \<Rightarrow> hook_decision_event \<Rightarrow> payload" where
  "hook_payload sha e =
     (let sid_hash = take 12 (sha (hd_session_id e))
      in [(''backend'', PStr (hd_agent e)),
          (''session_id_hash'', PStr (if sid_hash = [] then replicate 12 CHR ''0'' else sid_hash)),
          (''tool'', PStr (hd_tool e)), (''decision'', PStr (hd_decision e))] @
         (if hd_rule_name e = [] then [] else [(''rule_id'', PStr (hd_rule_name e))]) @
         (if hd_reason e = [] then [] else [(''reason'', PStr (hd_reason e))]))"

text \<open>\<open>_emit_hook_decision_event_stream\<close>; \<open>agent_name\<close> is \<open>AGENT_NAME\<close> or its default.\<close>

definition emit_hook_decision ::
  "(pystr \<Rightarrow> pystr) \<Rightarrow> (nat \<Rightarrow> pystr) \<Rightarrow> pystr \<Rightarrow> hook_decision_event \<Rightarrow> event_stream \<Rightarrow> event_stream" where
  "emit_hook_decision sha clock agent_name e s =
     (if hd_agent e \<notin> {''claude'', ''openai'', ''codex'', ''gemini''} then s
      else if hd_decision e \<notin> {''allow'', ''deny'', ''warn''} then s
      else snd (publish clock ''hook.decision'' (hook_payload sha e) (Some agent_name) 1 s))"

section \<open>Lemmas on the bus\<close>

definition of_kind :: "pystr \<Rightarrow> message list \<Rightarrow> nat" where
  "of_kind k ms = length (filter (\<lambda>m. msg_kind m = k) ms)"

text \<open>The messages of a kind that are queued or being processed.\<close>

definition in_flight :: "pystr \<Rightarrow> bus \<Rightarrow> nat" where
  "in_flight k b = of_kind k (aq_items (bus_queue b)) + of_kind k (bus_processing b)"

definition kind_inv :: "pystr \<Rightarrow> bus \<Rightarrow> bool" where
  "kind_inv k b =
     (of_kind k (bus_putting b) = 0 \<and> of_kind k (bus_awaiting b) = 0 \<and>
      in_flight k b = (if k \<in> set (bus_pending_kinds b) then 1 else 0))"

lemma of_kind_simps [simp]:
  "of_kind k [] = 0" "of_kind k (m # ms) = (if msg_kind m = k then 1 else 0) + of_kind k ms"
  "of_kind k (ms @ ns) = of_kind k ms + of_kind k ns"
  by (simp_all add: of_kind_def)

lemma of_kind_remove1:
  "m \<in> set ms \<Longrightarrow> of_kind k ms = of_kind k (remove1 m ms) + (if msg_kind m = k then 1 else 0)"
  by (induction ms) auto

lemma of_kind_zero: "of_kind k ms = 0 \<Longrightarrow> m \<in> set ms \<Longrightarrow> msg_kind m \<noteq> k"
  by (auto simp: of_kind_def filter_empty_conv)

lemma mint_future_frame:
  "mint_future m b = (m1, b1) \<Longrightarrow> msg_kind m1 = msg_kind m \<and> bus_queue b1 = bus_queue b \<and>
     bus_pending_kinds b1 = bus_pending_kinds b \<and> bus_putting b1 = bus_putting b \<and>
     bus_awaiting b1 = bus_awaiting b \<and> bus_processing b1 = bus_processing b"
  by (auto simp: mint_future_def split: option.splits if_splits)

lemma pending_ops [simp]:
  "set (bus_pending_kinds (pending_add k b)) = insert k (set (bus_pending_kinds b))"
  "set (bus_pending_kinds (release_pending k b)) = set (bus_pending_kinds b) - {k}"
  "bus_queue (pending_add k b) = bus_queue b" "bus_queue (release_pending k b) = bus_queue b"
  "bus_putting (pending_add k b) = bus_putting b" "bus_putting (release_pending k b) = bus_putting b"
  "bus_awaiting (pending_add k b) = bus_awaiting b" "bus_awaiting (release_pending k b) = bus_awaiting b"
  "bus_processing (pending_add k b) = bus_processing b" "bus_processing (release_pending k b) = bus_processing b"
  by (auto simp: pending_add_def release_pending_def)

lemma put_nowait_items: "put_nowait m q = Some q' \<Longrightarrow> aq_items q' = aq_items q @ [m] \<and> aq_maxsize q' = aq_maxsize q"
  by (auto dest!: aq.put_items)

lemma try_send_kind_inv:
  assumes "kind_inv k b"
  shows "kind_inv k (snd (try_send now m b))"
proof (cases "msg_kind m \<in> set (bus_pending_kinds b)")
  case True
  with assms show ?thesis by (simp add: try_send_def kind_inv_def in_flight_def)
next
  case False
  obtain m1 b1 where mint: "mint_future m b = (m1, b1)" by (rule prod.exhaust)
  note fr = mint_future_frame [OF mint]
  show ?thesis
  proof (cases "put_nowait (m1\<lparr>msg_enqueued_at := now\<rparr>) (bus_queue b)")
    case None
    with False mint fr assms show ?thesis
      by (auto simp: try_send_def kind_inv_def in_flight_def)
  next
    case (Some q)
    with False mint fr assms put_nowait_items [OF Some] show ?thesis
      by (auto simp: try_send_def kind_inv_def in_flight_def)
  qed
qed

lemma send_start_kind_inv:
  assumes "kind_inv k b" "msg_kind m \<noteq> k"
  shows "kind_inv k (send_start now m b)"
proof -
  obtain m1 b1 where mint: "mint_future m b = (m1, b1)" by (rule prod.exhaust)
  with mint_future_frame [OF mint] assms show ?thesis
    by (auto simp: send_start_def kind_inv_def in_flight_def)
qed

lemma worker_finish_kind_inv:
  assumes "kind_inv k b" "m \<in> set (bus_processing b)"
  shows "kind_inv k (worker_finish m b)"
proof -
  let ?d = "case msg_result m of Some f \<Rightarrow> if f \<in> set (bus_done b) then b else b\<lparr>bus_done := f # bus_done b\<rparr>
    | None \<Rightarrow> b"
  have d: "bus_queue ?d = bus_queue b" "bus_pending_kinds ?d = bus_pending_kinds b"
    "bus_putting ?d = bus_putting b" "bus_awaiting ?d = bus_awaiting b" "bus_processing ?d = bus_processing b"
    by (simp_all split: option.split)
  show ?thesis
    using assms of_kind_remove1 [OF assms(2), of k]
    by (auto simp: worker_finish_def Let_def d kind_inv_def in_flight_def split: if_splits)
qed

lemma bus_step_kind_inv:
  assumes "bus_step (\<lambda>m. msg_kind m \<noteq> k) b b'" "kind_inv k b"
  shows "kind_inv k b'"
  using assms
proof cases
  case (bs_send_put m)
  then have m: "msg_kind m \<noteq> k" using assms(2) of_kind_zero by (auto simp: kind_inv_def)
  from bs_send_put obtain q where q: "put_nowait m (bus_queue b) = Some q"
    "b' = b\<lparr>bus_queue := q, bus_putting := remove1 m (bus_putting b), bus_awaiting := bus_awaiting b @ [m]\<rparr>"
    by (auto simp: send_put_def split: option.splits)
  with put_nowait_items [OF q(1)] of_kind_remove1 [OF bs_send_put(1), of k] assms(2) m show ?thesis
    by (auto simp: kind_inv_def in_flight_def)
next
  case (bs_put_failed m)
  with of_kind_zero [of k "bus_putting b" m] of_kind_remove1 [of m "bus_putting b" k] assms(2) show ?thesis
    by (auto simp: send_put_failed_def kind_inv_def in_flight_def)
next
  case (bs_result_failed m)
  with of_kind_zero [of k "bus_awaiting b" m] of_kind_remove1 [of m "bus_awaiting b" k] assms(2) show ?thesis
    by (auto simp: send_result_failed_def kind_inv_def in_flight_def)
next
  case (bs_returned m)
  with of_kind_remove1 [of m "bus_awaiting b" k] assms(2) show ?thesis
    by (auto simp: send_returned_def kind_inv_def in_flight_def)
next
  case bs_take
  then obtain m q where "get_nowait (bus_queue b) = Some (m, q)"
    "b' = b\<lparr>bus_queue := q, bus_processing := bus_processing b @ [m]\<rparr>"
    by (auto simp: worker_take_def receive_def split: option.splits)
  with assms(2) show ?thesis
    by (auto simp: kind_inv_def in_flight_def get_nowait_def split: list.splits if_splits)
qed (use assms(2) in \<open>auto intro: send_start_kind_inv try_send_kind_inv worker_finish_kind_inv\<close>)

lemma bus_step_queue:
  assumes "bus_step sendable b b'" "queue_wf (bus_queue b)"
  shows "queue_wf (bus_queue b') \<and> aq_maxsize (bus_queue b') = aq_maxsize (bus_queue b)"
  using assms
proof cases
  case (bs_send_start m now)
  with assms show ?thesis
    by (auto simp: send_start_def dest: mint_future_frame split: prod.splits)
next
  case (bs_send_put m)
  then obtain q where "put_nowait m (bus_queue b) = Some q" "bus_queue b' = q"
    by (auto simp: send_put_def split: option.splits)
  with assms(2) show ?thesis by (auto dest: put_nowait_wf put_nowait_items)
next
  case (bs_try_send now m)
  obtain m1 b1 where mint: "mint_future m b = (m1, b1)" by (rule prod.exhaust)
  with assms(2) bs_try_send mint_future_frame [OF mint] show ?thesis
    by (auto simp: try_send_def Let_def dest: put_nowait_wf put_nowait_items split: option.split)
next
  case bs_take
  then obtain m q where q: "get_nowait (bus_queue b) = Some (m, q)" "bus_queue b' = q"
    by (auto simp: worker_take_def receive_def split: option.splits)
  have "aq_maxsize q = aq_maxsize (bus_queue b)" using q(1) by (auto simp: get_nowait_def split: list.splits)
  with get_nowait_wf [OF assms(2) q(1)] q(2) show ?thesis by simp
qed (use assms(2) in \<open>auto simp: send_put_failed_def send_result_failed_def send_returned_def
    worker_finish_def Let_def split: option.split\<close>)

lemma bus_reachable_inv:
  assumes "(bus_step (\<lambda>m. msg_kind m \<noteq> k))\<^sup>*\<^sup>* (init_bus d) b"
  shows "kind_inv k b \<and> queue_wf (bus_queue b) \<and> aq_maxsize (bus_queue b) = d"
  using assms
proof (induction rule: rtranclp_induct)
  case base
  then show ?case by (simp add: init_bus_def kind_inv_def in_flight_def)
next
  case (step b b')
  with bus_step_kind_inv [OF step.hyps(2)] bus_step_queue [OF step.hyps(2)] show ?case by simp
qed

lemma bus_step_mono: "bus_step P b b' \<Longrightarrow> (\<And>m. P m \<Longrightarrow> Q m) \<Longrightarrow> bus_step Q b b'"
  by (induction rule: bus_step.induct) (auto intro: bus_step.intros)

lemma try_send_iff:
  assumes "kind_inv (msg_kind m) b" "queue_wf (bus_queue b)"
  shows "fst (try_send now m b) \<longleftrightarrow> in_flight (msg_kind m) b = 0 \<and> \<not> queue_full (bus_queue b)"
proof -
  obtain m1 b1 where mint: "mint_future m b = (m1, b1)" by (rule prod.exhaust)
  have put: "put_nowait x (bus_queue b) = None \<longleftrightarrow> queue_full (bus_queue b)" for x by (simp add: put_nowait_def)
  have "fst (try_send now m b) \<longleftrightarrow> msg_kind m \<notin> set (bus_pending_kinds b) \<and> \<not> queue_full (bus_queue b)"
    using mint mint_future_frame [OF mint] put by (auto simp: try_send_def Let_def split: option.split)
  then show ?thesis using assms by (auto simp: kind_inv_def)
qed

section \<open>Lemmas on the side channel\<close>

lemma call_listeners_eq:
  "call_listeners raises e h = h\<lparr>hk_log := hk_log h @ map (\<lambda>l. (l, e)) (hk_listeners h),
     hk_errors := hk_errors h + length (filter (\<lambda>l. raises l e) (hk_listeners h))\<rparr>"
proof -
  have "fold (\<lambda>l h. h\<lparr>hk_log := hk_log h @ [(l, e)], hk_errors := hk_errors h + (if raises l e then 1 else 0)\<rparr>) ls h =
    h\<lparr>hk_log := hk_log h @ map (\<lambda>l. (l, e)) ls,
      hk_errors := hk_errors h + length (filter (\<lambda>l. raises l e) ls)\<rparr>" for ls
    by (induction ls arbitrary: h) simp_all
  then show ?thesis by (simp add: call_listeners_def)
qed

text \<open>Runs of the started channel, with the events published and dispatched so far.\<close>

inductive hook_run ::
  "(nat \<Rightarrow> hook_decision_event \<Rightarrow> bool) \<Rightarrow> hook_channel \<Rightarrow> hook_decision_event list
   \<Rightarrow> hook_decision_event list \<Rightarrow> bool" for raises where
  hr_start: "hook_run raises (start_hook_decision_dispatcher init_hook_channel) [] []"
| hr_subscribe: "hook_run raises h pub disp \<Longrightarrow> hook_run raises (subscribe_hook_decision l h) pub disp"
| hr_unsubscribe: "hook_run raises h pub disp \<Longrightarrow> hook_run raises (unsubscribe_hook_decision l h) pub disp"
| hr_publish: "hook_run raises h pub disp \<Longrightarrow> hook_run raises (publish_hook_decision raises e h) (pub @ [e]) disp"
| hr_dispatch: "hook_run raises h pub disp \<Longrightarrow> hk_queue h = Some q \<Longrightarrow> aq_items q = e # es \<Longrightarrow>
    dispatch_one raises h = Some h' \<Longrightarrow> hook_run raises h' pub (disp @ [e])"

definition hook_run_inv :: "hook_channel \<Rightarrow> hook_decision_event list \<Rightarrow> hook_decision_event list \<Rightarrow> bool" where
  "hook_run_inv h pub disp =
     (\<exists>q. hk_queue h = Some q \<and> queue_wf q \<and> aq_maxsize q = HOOK_DECISION_QUEUE_MAX \<and>
        subseq (disp @ aq_items q) pub \<and> length pub = length disp + qsize q + hk_dropped h \<and>
        distinct (hk_listeners h) \<and> set (hk_listeners h) = set (hk_listener_ids h))"

lemma hook_run_invariant: "hook_run raises h pub disp \<Longrightarrow> hook_run_inv h pub disp"
proof (induction rule: hook_run.induct)
  case hr_start
  then show ?case by (simp add: hook_run_inv_def start_hook_decision_dispatcher_def init_hook_channel_def qsize_def)
next
  case (hr_subscribe h pub disp l)
  then show ?case by (auto simp: hook_run_inv_def subscribe_hook_decision_def)
next
  case (hr_unsubscribe h pub disp l)
  then show ?case by (auto simp: hook_run_inv_def unsubscribe_hook_decision_def set_remove1_eq)
next
  case (hr_publish h pub disp e)
  then obtain q where q: "hk_queue h = Some q" "queue_wf q" "aq_maxsize q = HOOK_DECISION_QUEUE_MAX"
    "subseq (disp @ aq_items q) pub" "length pub = length disp + qsize q + hk_dropped h"
    "distinct (hk_listeners h)" "set (hk_listeners h) = set (hk_listener_ids h)"
    by (auto simp: hook_run_inv_def)
  have sub: "subseq (disp @ aq_items q) (pub @ [e])" "subseq (disp @ aq_items q @ [e]) (pub @ [e])"
    using q(4) subseq_append_iff list_emb_append_mono [OF q(4), of "[e]" "[e]"]
    by (auto intro: subseq_append_le_same_iff subseq_order.trans [OF q(4)])
  show ?case
  proof (cases "put_nowait e q")
    case None
    with q sub show ?thesis by (simp add: hook_run_inv_def publish_hook_decision_def)
  next
    case (Some q')
    with q sub put_nowait_wf [OF q(2) Some] put_nowait_items [OF Some] show ?thesis
      by (simp add: hook_run_inv_def publish_hook_decision_def qsize_def)
  qed
next
  case (hr_dispatch h pub disp q e es h')
  then have "queue_wf q" by (auto simp: hook_run_inv_def)
  then have "queue_wf (q\<lparr>aq_items := es\<rparr>)" using get_nowait_wf [of q e "q\<lparr>aq_items := es\<rparr>"] hr_dispatch
    by (simp add: get_nowait_def)
  with hr_dispatch show ?case
    by (auto simp: hook_run_inv_def dispatch_one_def get_nowait_def call_listeners_eq qsize_def)
qed

lemma hook_payload_valid:
  assumes "hd_agent e \<in> {''claude'', ''openai'', ''codex'', ''gemini''}" "hd_decision e \<in> {''allow'', ''deny'', ''warn''}"
    and "ts \<noteq> []"
  shows "validate_envelope (to_dict \<lparr>ev_type = ''hook.decision'', ev_version = 1, ev_id = str_of_nat n,
    ev_ts = ts, ev_agent_id = ag, ev_payload = hook_payload sha e\<rparr>) = VOk"
proof -
  have "validate_hook_decision (hook_payload sha e) = VOk"
    using assms(1,2)
    by (cases "hd_rule_name e = []"; cases "hd_reason e = []")
      (auto simp: hook_payload_def Let_def validate_hook_decision_def validate_with_def dict_has_def
        in_str_set_def hashable_def HOOK_BACKENDS_def HOOK_DECISIONS_def is_nonempty_str_def is_str_def)
  with assms(3) show ?thesis
    by (cases ag) (simp_all add: to_dict_def validate_envelope_def ENVELOPE_KEYS_def dict_has_def
      VALIDATORS_def positive_int_def is_nonempty_str_def str_or_none_def)
qed

definition demo_message :: "pystr \<Rightarrow> pystr \<Rightarrow> message" where
  "demo_message kind prompt = \<lparr>msg_prompt = prompt, msg_session_id = None, msg_kind = kind, msg_model = None,
     msg_backend_id = None, msg_consensus = [], msg_max_tokens = None, msg_enqueued_at = 0, msg_result = None,
     msg_metadata = [], msg_trace_context = None\<rparr>"

definition demo_event :: hook_decision_event where
  "demo_event = \<lparr>hd_agent = ''claude'', hd_session_id = ''s'', hd_tool = ''Bash'', hd_decision = ''deny'',
     hd_rule_name = ''r'', hd_reason = [], hd_source = ''baseline'', hd_traceparent = None\<rparr>"

section \<open>Properties\<close>

text \<open>C4: Single flight: a kind that is only ever submitted through \<open>try_send\<close> (the heartbeat) has at
  most one message queued or running, in every run of senders, scheduler and worker; a further
  \<open>try_send\<close> succeeds exactly when none is in flight and the queue has room; and the queue never
  exceeds its depth.\<close>

theorem bus_single_flight:
  assumes "(bus_step (\<lambda>m. msg_kind m \<noteq> k))\<^sup>*\<^sup>* (init_bus depth) b" and "msg_kind m = k"
  shows "in_flight k b \<le> 1 \<and>
    (fst (try_send now m b) \<longleftrightarrow> in_flight k b = 0 \<and> \<not> queue_full (bus_queue b)) \<and>
    (depth > 0 \<longrightarrow> int (qsize (bus_queue b)) \<le> depth)"
proof -
  note inv = bus_reachable_inv [OF assms(1)]
  then show ?thesis using try_send_iff [of m b now] assms(2) by (auto simp: kind_inv_def queue_wf_def)
qed

theorem bus_single_flight_witness:
  "in_flight ''heartbeat'' (snd (try_send 5 (demo_message ''heartbeat'' ''p'') (init_bus 1))) \<le> 1"
proof -
  have "(bus_step (\<lambda>m. msg_kind m \<noteq> ''heartbeat''))\<^sup>*\<^sup>* (init_bus 1)
      (snd (try_send 5 (demo_message ''heartbeat'' ''p'') (init_bus 1)))"
    by (rule r_into_rtranclp, rule bs_try_send)
  from bus_single_flight [OF this, of "demo_message ''heartbeat'' ''q''"] show ?thesis
    by (simp add: demo_message_def)
qed

text \<open>The guarantee needs that restriction: once a kind is also used with \<open>send\<close>, a sender that
  gives up clears the mark of a message of that kind the worker is still processing, and
  \<open>try_send\<close> then admits a second one.\<close>

theorem bus_dedup_lost_by_send:
  "\<exists>b. (bus_step (\<lambda>_. True))\<^sup>*\<^sup>* (init_bus 1) b \<and> in_flight ''job:x'' b = 1 \<and>
     fst (try_send 9 (demo_message ''job:x'' ''again'') b) \<and>
     in_flight ''job:x'' (snd (try_send 9 (demo_message ''job:x'' ''again'') b)) = 2"
proof -
  let ?k = "''job:x''"
  let ?a = "(demo_message ?k ''a'')\<lparr>msg_result := Some 0, msg_enqueued_at := 1\<rparr>"
  let ?c = "(demo_message ?k ''c'')\<lparr>msg_result := Some 1, msg_enqueued_at := 2\<rparr>"
  let ?bb = "\<lambda>q ks n put aw pr. \<lparr>bus_queue = \<lparr>aq_items = q, aq_maxsize = 1\<rparr>, bus_pending_kinds = ks,
     bus_next_future = n, bus_done = [], bus_putting = put, bus_awaiting = aw, bus_processing = pr,
     bus_dedup_total = 0\<rparr>"
  note defs = send_start_def send_put_def send_put_failed_def worker_take_def receive_def mint_future_def
    pending_add_def release_pending_def put_nowait_def get_nowait_def queue_full_def qsize_def
    init_bus_def new_queue_def demo_message_def Let_def
  have 1: "bus_step (\<lambda>_. True) (init_bus 1) (?bb [] [?k] 1 [?a] [] [])"
    using bs_send_start [of "\<lambda>_. True" "demo_message ?k ''a''" "init_bus 1" 1] by (simp add: defs)
  have 2: "bus_step (\<lambda>_. True) (?bb [] [?k] 1 [?a] [] []) (?bb [?a] [?k] 1 [] [?a] [])"
    by (rule bs_send_put [of ?a]) (simp_all add: defs)
  have 3: "bus_step (\<lambda>_. True) (?bb [?a] [?k] 1 [] [?a] []) (?bb [] [?k] 1 [] [?a] [?a])"
    by (rule bs_take) (simp add: defs)
  have 4: "bus_step (\<lambda>_. True) (?bb [] [?k] 1 [] [?a] [?a]) (?bb [] [?k] 2 [?c] [?a] [?a])"
    using bs_send_start [of "\<lambda>_. True" "demo_message ?k ''c''" "?bb [] [?k] 1 [] [?a] [?a]" 2]
    by (simp add: defs numeral_2_eq_2)
  have 5: "bus_step (\<lambda>_. True) (?bb [] [?k] 2 [?c] [?a] [?a]) (?bb [] [] 2 [] [?a] [?a])"
    using bs_put_failed [of ?c "?bb [] [?k] 2 [?c] [?a] [?a]" "\<lambda>_. True"] by (simp add: defs)
  have reach: "(bus_step (\<lambda>_. True))\<^sup>*\<^sup>* (init_bus 1) (?bb [] [] 2 [] [?a] [?a])"
    using 1 2 3 4 5 by (meson rtranclp.rtrancl_into_rtrancl rtranclp.rtrancl_refl)
  have flight: "in_flight ?k (?bb [] [] 2 [] [?a] [?a]) = 1 \<and>
     fst (try_send 9 (demo_message ?k ''again'') (?bb [] [] 2 [] [?a] [?a])) \<and>
     in_flight ?k (snd (try_send 9 (demo_message ?k ''again'') (?bb [] [] 2 [] [?a] [?a]))) = 2"
    by (simp add: try_send_def in_flight_def defs)
  show ?thesis by (rule exI, rule conjI, rule reach, rule flight)
qed

text \<open>The hook-decision channel loses nothing silently: in every run, the events dispatched and
  still queued are the published ones in order, less exactly as many as the drop counter says;
  the queue stays within its bound and no listener is registered twice.\<close>

theorem hook_channel_accounting:
  assumes "hook_run raises h pub disp"
  shows "\<exists>q. hk_queue h = Some q \<and> int (qsize q) \<le> HOOK_DECISION_QUEUE_MAX \<and>
    subseq (disp @ aq_items q) pub \<and> length pub = length disp + qsize q + hk_dropped h \<and>
    distinct (hk_listeners h)"
  using hook_run_invariant [OF assms]
  by (auto simp: hook_run_inv_def queue_wf_def HOOK_DECISION_QUEUE_MAX_def)

theorem hook_channel_accounting_witness:
  "\<exists>q. hk_queue (publish_hook_decision (\<lambda>_ _. True) demo_event
       (start_hook_decision_dispatcher init_hook_channel)) = Some q \<and> subseq (aq_items q) [demo_event]"
  using hook_channel_accounting [OF hr_publish [OF hr_start], of "\<lambda>_ _. True" demo_event] by auto

text \<open>One listener that raises never keeps the others from the event: a dispatch calls every
  registered listener once, in order of registration, and counts the failures.\<close>

theorem dispatch_reaches_all:
  assumes "hk_queue h = Some q" and "aq_items q = e # es"
  shows "\<exists>h'. dispatch_one raises h = Some h' \<and>
    hk_log h' = hk_log h @ map (\<lambda>l. (l, e)) (hk_listeners h) \<and>
    hk_errors h' = hk_errors h + length (filter (\<lambda>l. raises l e) (hk_listeners h)) \<and>
    hk_queue h' = Some (q\<lparr>aq_items := es\<rparr>)"
  using assms by (simp add: dispatch_one_def get_nowait_def call_listeners_eq)

theorem dispatch_reaches_all_witness:
  "\<exists>h'. dispatch_one (\<lambda>l _. l = 1) (init_hook_channel\<lparr>hk_listeners := [1, 2],
       hk_queue := Some \<lparr>aq_items = [demo_event], aq_maxsize = 1024\<rparr>\<rparr>) = Some h' \<and>
     hk_log h' = [(1, demo_event), (2, demo_event)]"
  using dispatch_reaches_all [of "init_hook_channel\<lparr>hk_listeners := [1, 2],
       hk_queue := Some \<lparr>aq_items = [demo_event], aq_maxsize = 1024\<rparr>\<rparr>" _ demo_event "[]" "\<lambda>l _. l = 1"]
  by (auto simp: init_hook_channel_def)

text \<open>Re-emission on the event stream: a decision of a known backend with a known outcome always
  becomes an accepted \<open>hook.decision\<close> event that carries it unchanged; any other leaves the
  stream exactly as it was.\<close>

theorem hook_decision_emitted:
  assumes "clock 0 \<noteq> []"
  shows "if hd_agent e \<in> {''claude'', ''openai'', ''codex'', ''gemini''} \<and> hd_decision e \<in> {''allow'', ''deny'', ''warn''}
    then \<exists>env. es_accept s env (emit_hook_decision sha clock agent_name e s) \<and> ev_type env = ''hook.decision'' \<and>
      dict_get (ev_payload env) ''decision'' = Some (PStr (hd_decision e)) \<and>
      dict_get (ev_payload env) ''backend'' = Some (PStr (hd_agent e))
    else emit_hook_decision sha clock agent_name e s = s"
proof (cases "hd_agent e \<in> {''claude'', ''openai'', ''codex'', ''gemini''} \<and> hd_decision e \<in> {''allow'', ''deny'', ''warn''}")
  case True
  let ?env = "\<lparr>ev_type = ''hook.decision'', ev_version = 1, ev_id = str_of_nat (Suc (es_next_id s)),
    ev_ts = clock 0, ev_agent_id = Some agent_name, ev_payload = hook_payload sha e\<rparr>"
  have "validate_envelope (to_dict ?env) = VOk" using hook_payload_valid True assms by blast
  then obtain t where pub: "publish clock ''hook.decision'' (hook_payload sha e) (Some agent_name) 1 s = (Published ?env, t)"
    by (simp add: publish_def Let_def)
  then have "es_accept s ?env t" unfolding es_accept_def by blast
  moreover have "emit_hook_decision sha clock agent_name e s = t" using True pub by (auto simp: emit_hook_decision_def)
  moreover have "dict_get (hook_payload sha e) ''decision'' = Some (PStr (hd_decision e))"
    "dict_get (hook_payload sha e) ''backend'' = Some (PStr (hd_agent e))"
    by (simp_all add: hook_payload_def Let_def)
  ultimately show ?thesis unfolding if_P [OF True] by (intro exI [of _ ?env]) simp
qed (auto simp: emit_hook_decision_def)

theorem hook_decision_emitted_witness:
  "\<exists>env. es_accept (init_event_stream 1 1) env
     (emit_hook_decision (\<lambda>x. x) (\<lambda>_. ''now'') ''iris'' demo_event (init_event_stream 1 1)) \<and>
     dict_get (ev_payload env) ''decision'' = Some (PStr ''deny'')"
  using hook_decision_emitted [where clock = "\<lambda>_. ''now''" and e = demo_event and s = "init_event_stream 1 1"
      and sha = "\<lambda>x. x" and agent_name = "''iris''"]
  by (auto simp: demo_event_def)

end
