(* ===== verification/Dir_Watcher.thy ===== *)
theory Dir_Watcher
  imports Harness_Utils
begin

text \<open>
  Model of \<open>run_awatch_loop\<close> of \<open>harness/utils.py\<close>, the loop by which every runner of the harness keeps
  its registry in step with a directory of markdown files, and of the \<open>_scan\<close> methods it calls. One
  turn of the loop lists the directory and registers every file, then opens the watch, then handles
  the changes the watch reports; when the watch ends, the registry is emptied and the loop starts
  again. The file system changes on its own between any two of these steps.

  The runner is a parameter: the operations it hands to the loop and the laws it promises are the
  interface \<open>file_registry\<close>, which each runner interprets on its own \<open>_register\<close> and \<open>_unregister\<close>.
\<close>

section \<open>State and steps\<close>

text \<open>Before the scan (or after the watch has ended), in the scan with the files still to be read, or
  watching. The watch exists only in the last phase: \<open>awatch\<close> is an asynchronous generator, which
  starts when the loop first asks it for changes, after the scan has been awaited.\<close>

datatype watch_phase = Idle | Scanning "pystr list" | Watching

record 's watcher =
  wt_fs :: "(pystr \<times> pystr) list"
  wt_phase :: watch_phase
  wt_pending :: "pystr list"
  wt_state :: 's

definition FILE_SUFFIX :: pystr where
  "FILE_SUFFIX = ''.md''"

definition md_file :: "pystr \<Rightarrow> bool" where
  "md_file path = endswith path FILE_SUFFIX"

definition init_watcher :: "(pystr \<times> pystr) list \<Rightarrow> 's \<Rightarrow> 's watcher" where
  "init_watcher fs s = \<lparr>wt_fs = fs, wt_phase = Idle, wt_pending = [], wt_state = s\<rparr>"

text \<open>The scan lists the directory once and then registers the listed markdown files one by one, each with
  the contents it has when its turn comes.\<close>

definition begin_scan :: "'s watcher \<Rightarrow> 's watcher" where
  "begin_scan w = w\<lparr>wt_phase := Scanning (filter md_file (dict_keys (wt_fs w)))\<rparr>"

definition scan_one :: "(pystr \<Rightarrow> pystr option \<Rightarrow> 's \<Rightarrow> 's) \<Rightarrow> 's watcher \<Rightarrow> 's watcher" where
  "scan_one register w =
     (case wt_phase w of
        Scanning (p # ps) \<Rightarrow>
          w\<lparr>wt_phase := Scanning ps, wt_state := register p (dict_get (wt_fs w) p) (wt_state w)\<rparr>
      | _ \<Rightarrow> w)"

definition begin_watch :: "'s watcher \<Rightarrow> 's watcher" where
  "begin_watch w = w\<lparr>wt_phase := Watching\<rparr>"

text \<open>A change of a file reaches the loop when the watch is open.\<close>

definition fs_update :: "pystr \<Rightarrow> pystr option \<Rightarrow> (pystr \<times> pystr) list \<Rightarrow> (pystr \<times> pystr) list" where
  "fs_update p c fs = (case c of None \<Rightarrow> dict_pop p fs | Some t \<Rightarrow> dict_set p t fs)"

definition fs_change :: "pystr \<Rightarrow> pystr option \<Rightarrow> 's watcher \<Rightarrow> 's watcher" where
  "fs_change p c w =
     w\<lparr>wt_fs := fs_update p c (wt_fs w),
       wt_pending := (if wt_phase w = Watching then p # wt_pending w else wt_pending w)\<rparr>"

definition handle_change ::
  "(pystr \<Rightarrow> pystr option \<Rightarrow> 's \<Rightarrow> 's) \<Rightarrow> (pystr \<Rightarrow> 's \<Rightarrow> 's) \<Rightarrow> pystr \<Rightarrow> 's watcher \<Rightarrow> 's watcher" where
  "handle_change register unregister p w =
     (let w1 = w\<lparr>wt_pending := removeAll p (wt_pending w)\<rparr> in
      if \<not> md_file p then w1
      else if dict_has (wt_fs w) p then w1\<lparr>wt_state := register p (dict_get (wt_fs w) p) (wt_state w)\<rparr>
      else w1\<lparr>wt_state := unregister p (wt_state w)\<rparr>)"

text \<open>The watch ends: the cleanup callback unregisters every path.\<close>

definition watch_exit :: "(pystr \<Rightarrow> 's \<Rightarrow> 's) \<Rightarrow> ('s \<Rightarrow> pystr list) \<Rightarrow> 's watcher \<Rightarrow> 's watcher" where
  "watch_exit unregister paths w =
     w\<lparr>wt_phase := Idle, wt_pending := [], wt_state := fold unregister (paths (wt_state w)) (wt_state w)\<rparr>"

section \<open>Runs\<close>

text \<open>The files that changed behind the scan's back: after the scan has passed them, or was listed without
  them, and before the watch was open.\<close>

definition unseen :: "pystr \<Rightarrow> 's watcher \<Rightarrow> bool" where
  "unseen p w = (case wt_phase w of Scanning todo \<Rightarrow> p \<notin> set todo | _ \<Rightarrow> False)"

inductive watch_run ::
  "(pystr \<Rightarrow> pystr option \<Rightarrow> 's \<Rightarrow> 's) \<Rightarrow> (pystr \<Rightarrow> 's \<Rightarrow> 's) \<Rightarrow> ('s \<Rightarrow> pystr list) \<Rightarrow> 's \<Rightarrow> 's watcher \<Rightarrow> pystr list \<Rightarrow> bool"
  for register unregister paths s0 where
  watch_start: "dict_wf fs \<Longrightarrow> watch_run register unregister paths s0 (init_watcher fs s0) []"
| watch_scan: "watch_run register unregister paths s0 w missed \<Longrightarrow> wt_phase w = Idle \<Longrightarrow>
    watch_run register unregister paths s0 (begin_scan w) []"
| watch_scan_one: "watch_run register unregister paths s0 w missed \<Longrightarrow> wt_phase w = Scanning (p # ps) \<Longrightarrow>
    watch_run register unregister paths s0 (scan_one register w) missed"
| watch_open: "watch_run register unregister paths s0 w missed \<Longrightarrow> wt_phase w = Scanning [] \<Longrightarrow>
    watch_run register unregister paths s0 (begin_watch w) missed"
| watch_fs: "watch_run register unregister paths s0 w missed \<Longrightarrow>
    watch_run register unregister paths s0 (fs_change p c w) (if unseen p w then p # missed else missed)"
| watch_handle: "watch_run register unregister paths s0 w missed \<Longrightarrow> wt_phase w = Watching \<Longrightarrow> p \<in> set (wt_pending w) \<Longrightarrow>
    watch_run register unregister paths s0 (handle_change register unregister p w) (removeAll p missed)"
| watch_end: "watch_run register unregister paths s0 w missed \<Longrightarrow> wt_phase w = Watching \<Longrightarrow>
    watch_run register unregister paths s0 (watch_exit unregister paths w) []"

section \<open>The interface of a runner\<close>

text \<open>What the registry should hold for a path, given the contents of the file: nothing when there is no
  file, what the file parses to when it does; of a file that does not parse nothing is asked, the last
  good registration may stay.\<close>

definition in_sync :: "(pystr \<Rightarrow> pystr option \<Rightarrow> 'i option) \<Rightarrow> pystr \<Rightarrow> pystr option \<Rightarrow> 'i option \<Rightarrow> bool" where
  "in_sync parse p contents entry =
     (case contents of
        None \<Rightarrow> entry = None
      | Some c \<Rightarrow> (case parse p (Some c) of None \<Rightarrow> True | Some i \<Rightarrow> entry = Some i))"

locale file_registry =
  fixes lookup :: "'s \<Rightarrow> pystr \<Rightarrow> 'i option" and parse :: "pystr \<Rightarrow> pystr option \<Rightarrow> 'i option"
    and register :: "pystr \<Rightarrow> pystr option \<Rightarrow> 's \<Rightarrow> 's" and unregister :: "pystr \<Rightarrow> 's \<Rightarrow> 's"
    and paths :: "'s \<Rightarrow> pystr list" and s0 :: 's
  assumes lookup_init: "lookup s0 = Map.empty"
    and lookup_register: "lookup (register p c s) = (case parse p c of None \<Rightarrow> lookup s | Some i \<Rightarrow> (lookup s)(p \<mapsto> i))"
    and lookup_unregister: "lookup (unregister p s) = (lookup s)(p := None)"
    and paths_lookup: "set (paths s) = dom (lookup s)"
    and parse_unreadable: "parse p None = None"
begin

text \<open>Which paths may be out of step, in each phase.\<close>

definition watch_inv :: "'s watcher \<Rightarrow> pystr list \<Rightarrow> bool" where
  "watch_inv w missed =
     (dict_wf (wt_fs w) \<and> (case wt_phase w of
        Idle \<Rightarrow> lookup (wt_state w) = Map.empty
      | Scanning todo \<Rightarrow> distinct todo \<and>
          (\<forall>p. md_file p \<longrightarrow> p \<in> set todo \<longrightarrow> p \<notin> set missed \<longrightarrow> lookup (wt_state w) p = None) \<and>
          (\<forall>p. md_file p \<longrightarrow> p \<notin> set todo \<longrightarrow> p \<notin> set missed \<longrightarrow>
             in_sync parse p (dict_get (wt_fs w) p) (lookup (wt_state w) p))
      | Watching \<Rightarrow>
          (\<forall>p. md_file p \<longrightarrow> p \<notin> set (wt_pending w) \<longrightarrow> p \<notin> set missed \<longrightarrow>
             in_sync parse p (dict_get (wt_fs w) p) (lookup (wt_state w) p))))"

lemma lookup_cleanup: "lookup (fold unregister ps s) p = (if p \<in> set ps then None else lookup s p)"
  by (induction ps arbitrary: s) (auto simp: lookup_unregister)

lemma get_update: "dict_get (fs_update p c fs) q = (if q = p then c else dict_get fs q)"
  by (auto simp: fs_update_def split: option.split)

lemma lookup_register_same: "lookup s p = None \<Longrightarrow> lookup (register p c s) p = parse p c"
  by (simp add: lookup_register split: option.split)

lemma lookup_register_other: "q \<noteq> p \<Longrightarrow> lookup (register p c s) q = lookup s q"
  by (simp add: lookup_register split: option.split)

text \<open>Registering a path with the contents of its file brings it into step.\<close>

lemma registered_in_sync: "lookup s p = None \<Longrightarrow> in_sync parse p c (lookup (register p c s) p)"
  by (simp add: in_sync_def lookup_register_same parse_unreadable split: option.split)

lemma reregistered_in_sync: "in_sync parse p (Some c) (lookup (register p (Some c) s) p)"
  by (simp add: in_sync_def lookup_register split: option.split)

lemma in_sync_absent: "in_sync parse p None None"
  by (simp add: in_sync_def)

lemma watch_run_inv: "watch_run register unregister paths s0 w missed \<Longrightarrow> watch_inv w missed"
proof (induction rule: watch_run.induct)
  case (watch_start fs)
  then show ?case by (simp add: watch_inv_def init_watcher_def lookup_init)
next
  case (watch_scan w missed)
  then have "lookup (wt_state w) = Map.empty" "dict_wf (wt_fs w)" by (simp_all add: watch_inv_def)
  moreover have "dict_get (wt_fs w) p = None" if "p \<notin> set (dict_keys (wt_fs w))" for p
    using that dict_has_keys [of "wt_fs w" p] by (simp add: dict_has_def)
  ultimately show ?case by (simp add: watch_inv_def begin_scan_def in_sync_def dict_wf_def)
next
  case (watch_scan_one w missed p ps)
  let ?w = "scan_one register w"
  have inv: "dict_wf (wt_fs w)" "distinct (p # ps)"
    "\<And>q. md_file q \<Longrightarrow> q \<in> set (p # ps) \<Longrightarrow> q \<notin> set missed \<Longrightarrow> lookup (wt_state w) q = None"
    "\<And>q. md_file q \<Longrightarrow> q \<notin> set (p # ps) \<Longrightarrow> q \<notin> set missed \<Longrightarrow>
      in_sync parse q (dict_get (wt_fs w) q) (lookup (wt_state w) q)"
    using watch_scan_one.IH unfolding watch_inv_def watch_scan_one.hyps(2) watch_phase.case by blast+
  have w: "wt_phase ?w = Scanning ps" "wt_fs ?w = wt_fs w"
    "wt_state ?w = register p (dict_get (wt_fs w) p) (wt_state w)"
    using watch_scan_one.hyps(2) by (simp_all add: scan_one_def)
  have "lookup (wt_state ?w) q = None" if "md_file q" "q \<in> set ps" "q \<notin> set missed" for q
    using that inv(2) inv(3) [of q] unfolding w(3) by (subst lookup_register_other) auto
  moreover have "in_sync parse q (dict_get (wt_fs w) q) (lookup (wt_state ?w) q)"
    if "md_file q" "q \<notin> set ps" "q \<notin> set missed" for q
  proof (cases "q = p")
    case True
    with that inv(3) [of p] show ?thesis unfolding w(3) by (simp add: registered_in_sync)
  next
    case False
    with that inv(4) [of q] show ?thesis unfolding w(3) by (simp add: lookup_register_other)
  qed
  ultimately show ?case using inv(1,2) by (simp add: watch_inv_def w(1,2))
next
  case (watch_open w missed)
  then show ?case by (simp add: watch_inv_def begin_watch_def)
next
  case (watch_fs w missed p c)
  then show ?case
    by (cases "wt_phase w")
      (auto simp: watch_inv_def fs_change_def unseen_def get_update fs_update_def dict_wf_set dict_wf_pop split: option.split)
next
  case (watch_handle w missed p)
  have rest: "in_sync parse q (dict_get (wt_fs w) q) (lookup (wt_state w) q)"
    if "md_file q" "q \<notin> set (wt_pending w)" "q \<notin> set missed" for q
    using watch_handle.IH watch_handle.hyps(2) that by (simp add: watch_inv_def)
  have "wt_phase (handle_change register unregister p w) = Watching" "dict_wf (wt_fs (handle_change register unregister p w))"
    using watch_handle.hyps(2) watch_handle.IH by (simp_all add: handle_change_def Let_def watch_inv_def)
  moreover have "in_sync parse q (dict_get (wt_fs (handle_change register unregister p w)) q)
      (lookup (wt_state (handle_change register unregister p w)) q)"
    if "md_file q" "q \<notin> set (wt_pending (handle_change register unregister p w))" "q \<notin> set (removeAll p missed)" for q
  proof (cases "q = p")
    case True
    then show ?thesis
      using that(1) reregistered_in_sync [of p _ "wt_state w"]
      by (cases "dict_get (wt_fs w) p") (simp_all add: handle_change_def Let_def lookup_unregister dict_has_def in_sync_absent)
  next
    case False
    then show ?thesis
      using that rest [of q] by (auto simp: handle_change_def Let_def lookup_unregister lookup_register_other split: if_splits)
  qed
  ultimately show ?case by (simp add: watch_inv_def)
next
  case (watch_end w missed)
  then show ?case by (auto simp: watch_inv_def watch_exit_def lookup_cleanup paths_lookup fun_eq_iff)
qed

text \<open>When the loop is watching and every reported change has been handled, the registry mirrors the
  directory, but for the files that changed behind the scan's back and not since.\<close>

lemma watcher_in_sync:
  assumes "watch_run register unregister paths s0 w missed" "wt_phase w = Watching" "wt_pending w = []"
    and "md_file p" "p \<notin> set missed"
  shows "in_sync parse p (dict_get (wt_fs w) p) (lookup (wt_state w) p)"
  using watch_run_inv [OF assms(1)] assms(2-) by (simp add: watch_inv_def)

lemma idle_is_empty:
  assumes "watch_run register unregister paths s0 w missed" "wt_phase w = Idle"
  shows "lookup (wt_state w) = Map.empty"
  using watch_run_inv [OF assms(1)] assms(2) by (simp add: watch_inv_def)

end

end
