(* ===== verification/Task_Pool.thy ===== *)
theory Task_Pool
  imports Prelude
begin

text \<open>
  Background tasks as the runners of the harness track them: a set of all live tasks, used for the
  global cap and for draining at shutdown, and the same tasks by the name of the item they belong
  to, used for the cap of the item. A task is added to both when it is created and removed from both
  by its done callback. The interface below is what a runner promises about these two operations;
  that the two views never come apart is proved from it once.
\<close>

definition tasks_of :: "(pystr \<times> nat list) list \<Rightarrow> pystr \<Rightarrow> nat list" where
  "tasks_of by_name name = (case dict_get by_name name of None \<Rightarrow> [] | Some ts \<Rightarrow> ts)"

text \<open>The done callback on the per-name table: an entry goes when it is drained.\<close>

definition untrack_name :: "nat \<Rightarrow> pystr \<Rightarrow> (pystr \<times> nat list) list \<Rightarrow> (pystr \<times> nat list) list" where
  "untrack_name t name by_name =
     (case dict_get by_name name of
        None \<Rightarrow> by_name
      | Some ts \<Rightarrow>
          (let ts' = removeAll t ts
           in if ts' = [] then dict_pop name by_name else dict_set name ts' by_name))"

lemma tasks_of_set: "tasks_of (dict_set n v d) = (tasks_of d)(n := v)"
  by (auto simp: tasks_of_def fun_eq_iff)

lemma tasks_of_untrack: "tasks_of (untrack_name t n d) = (tasks_of d)(n := removeAll t (tasks_of d n))"
  by (auto simp: tasks_of_def untrack_name_def Let_def fun_eq_iff split: option.splits)

text \<open>The live tasks are exactly the tracked ones, each under one name.\<close>

definition pool_ok :: "nat \<Rightarrow> nat list \<Rightarrow> (pystr \<Rightarrow> nat list) \<Rightarrow> bool" where
  "pool_ok nxt active tasks =
     (distinct active \<and> (\<forall>t\<in>set active. t < nxt) \<and> (\<forall>n. distinct (tasks n)) \<and>
      (\<forall>t. t \<in> set active \<longleftrightarrow> (\<exists>n. t \<in> set (tasks n))) \<and>
      (\<forall>n m t. t \<in> set (tasks n) \<longrightarrow> t \<in> set (tasks m) \<longrightarrow> n = m))"

lemma pool_okD:
  assumes "pool_ok nxt active tasks"
  shows "distinct active" "t \<in> set active \<Longrightarrow> t < nxt" "distinct (tasks n)"
    "t \<in> set active \<longleftrightarrow> (\<exists>n. t \<in> set (tasks n))"
    "t \<in> set (tasks n) \<Longrightarrow> t \<in> set (tasks m) \<Longrightarrow> n = m"
  using assms unfolding pool_ok_def by blast+

locale task_pool =
  fixes nxt :: "'s \<Rightarrow> nat" and active :: "'s \<Rightarrow> nat list" and tasks :: "'s \<Rightarrow> pystr \<Rightarrow> nat list"
    and track :: "pystr \<Rightarrow> 's \<Rightarrow> 's" and untrack :: "nat \<Rightarrow> pystr \<Rightarrow> 's \<Rightarrow> 's"
  assumes nxt_track: "nxt (track n s) = Suc (nxt s)"
    and active_track: "active (track n s) = nxt s # active s"
    and tasks_track: "tasks (track n s) = (tasks s)(n := nxt s # tasks s n)"
    and nxt_untrack: "nxt (untrack t n s) = nxt s"
    and active_untrack: "active (untrack t n s) = removeAll t (active s)"
    and tasks_untrack: "tasks (untrack t n s) = (tasks s)(n := removeAll t (tasks s n))"
begin

lemma track_ok:
  assumes ok: "pool_ok (nxt s) (active s) (tasks s)"
  shows "pool_ok (nxt (track n s)) (active (track n s)) (tasks (track n s))"
proof -
  note inv = pool_okD [OF ok]
  have new: "nxt s \<notin> set (active s)" using inv(2) by blast
  then have newt: "nxt s \<notin> set (tasks s m)" for m using inv(4) by blast
  have mem: "x \<in> set (tasks (track n s) m) \<longleftrightarrow> x \<in> set (tasks s m) \<or> (x = nxt s \<and> m = n)" for x m
    by (auto simp: tasks_track)
  have "\<forall>m. distinct (tasks (track n s) m)" using inv(3) newt by (simp add: tasks_track)
  moreover have "x \<in> set (active (track n s)) \<longleftrightarrow> (\<exists>m. x \<in> set (tasks (track n s) m))" for x
    using inv(4) [of x] by (auto simp: active_track mem)
  moreover have "m = k" if "x \<in> set (tasks (track n s) m)" "x \<in> set (tasks (track n s) k)" for m k x
    using that inv(5) [of x m k] newt by (auto simp: mem)
  moreover have "\<forall>t\<in>set (active (track n s)). t < nxt (track n s)"
    using inv(2) by (force simp: active_track nxt_track)
  ultimately show ?thesis using inv(1) new unfolding pool_ok_def active_track by simp
qed

lemma untrack_ok:
  assumes ok: "pool_ok (nxt s) (active s) (tasks s)" and t: "t \<in> set (tasks s n)"
  shows "pool_ok (nxt (untrack t n s)) (active (untrack t n s)) (tasks (untrack t n s))"
proof -
  note inv = pool_okD [OF ok]
  have mem: "x \<in> set (tasks (untrack t n s) m) \<longleftrightarrow> x \<in> set (tasks s m) \<and> x \<noteq> t" for x m
    using inv(5) [OF t, of m] by (auto simp: tasks_untrack)
  have "x \<in> set (active (untrack t n s)) \<longleftrightarrow> (\<exists>m. x \<in> set (tasks (untrack t n s) m))" for x
    using inv(4) [of x] by (auto simp: mem active_untrack)
  moreover have "\<forall>m. distinct (tasks (untrack t n s) m)" using inv(3) by (simp add: tasks_untrack distinct_removeAll)
  moreover have "m = k" if "x \<in> set (tasks (untrack t n s) m)" "x \<in> set (tasks (untrack t n s) k)" for m k x
    using that inv(5) by (auto simp: mem)
  moreover have "\<forall>u\<in>set (active (untrack t n s)). u < nxt (untrack t n s)"
    using inv(2) by (auto simp: active_untrack nxt_untrack)
  ultimately show ?thesis using inv(1) unfolding pool_ok_def by (simp add: active_untrack distinct_removeAll)
qed

lemma untrack_length: "length (active (untrack t n s)) \<le> length (active s)"
  by (simp add: active_untrack length_removeAll_less_eq)

text \<open>When every task of a name is done, the name holds no task; when all are done, no name does.\<close>

lemma drained:
  assumes "pool_ok (nxt s) (active s) (tasks s)" "active s = []"
  shows "tasks s n = []"
proof -
  have "x \<notin> set (tasks s n)" for x using pool_okD(4) [OF assms(1), of x] assms(2) by auto
  then show ?thesis by (metis equals0I set_empty)
qed

end

end
