(* ===== verification/Continuations.thy ===== *)
theory Continuations
  imports Dir_Watcher Message_Bus Task_Pool
begin

text \<open>
  Model of \<open>harness/continuations.py\<close>: parsing of continuation files, the registry of the runner,
  the fan-in state with its time-to-live, the two concurrency caps and the event each fire emits.
  \<open>fnmatch\<close> and \<open>yaml.safe_load\<close> are arguments; tasks are numbered. \<open>notify\<close> is the whole
  handler, its loop over the registered items included; a task's done callback is \<open>fire_done\<close>.
\<close>

section \<open>Items and their files\<close>

record continuation_item =
  ci_path :: pystr
  ci_name :: pystr
  ci_continues_after :: "pystr list"
  ci_content :: pystr
  ci_on_success :: bool
  ci_on_error :: bool
  ci_trigger_when :: "pystr option"
  ci_delay :: "int option"
  ci_session_id :: "pystr option"
  ci_model :: "pystr option"
  ci_backend_id :: "pystr option"
  ci_description :: "pystr option"
  ci_consensus :: "consensus_entry list"
  ci_max_tokens :: "int option"
  ci_max_concurrent_fires :: int
  ci_enabled :: bool
  ci_last_fire :: "int option"
  ci_last_success :: "int option"

record cont_config =
  cc_max_fires :: int
  cc_max_fires_global :: int
  cc_fanin_ttl :: int
  cc_max_yaml :: int

definition parse_continues_after :: "pyval \<Rightarrow> pystr list" where
  "parse_continues_after v =
     (case v of
        PList xs \<Rightarrow> filter (\<lambda>p. p \<noteq> []) (map (\<lambda>p. strip (str_val p)) xs)
      | _ \<Rightarrow>
          (let body = strip (case v of PNone \<Rightarrow> [] | _ \<Rightarrow> str_val v)
           in if body = [] then [] else filter (\<lambda>p. p \<noteq> []) (map strip (split_char CHR '','' body))))"

datatype parse_result = Parsed continuation_item | Disabled | ParseFailed

text \<open>\<open>parse_continuation_file\<close>; \<open>contents\<close> is \<^const>\<open>None\<close> when the file cannot be read.\<close>

definition parse_continuation_file ::
  "cont_config \<Rightarrow> (pystr \<Rightarrow> pyval option) \<Rightarrow> pystr \<Rightarrow> pystr option \<Rightarrow> parse_result" where
  "parse_continuation_file cfg yaml path contents =
     (case contents of
        None \<Rightarrow> ParseFailed
      | Some raw \<Rightarrow>
          (case (parse_frontmatter (cc_max_yaml cfg) yaml raw, parse_frontmatter_raw (cc_max_yaml cfg) yaml raw) of
             (Inr (flds, content), Inr (raw_flds, _)) \<Rightarrow>
               (let enabled = flag_field flds ''enabled'' [''false'', ''no'', ''off'', ''n'', ''0'', []] True;
                    after = parse_continues_after (get_or_none raw_flds ''continues-after'')
                in if after = [] \<and> enabled then ParseFailed
                   else Parsed
                     \<lparr>ci_path = path,
                      ci_name = (case or_none (dict_get flds ''name'') of Some n \<Rightarrow> n | None \<Rightarrow> path_stem path),
                      ci_continues_after = after,
                      ci_content = content,
                      ci_on_success = flag_field flds ''on-success'' [''false'', []] True,
                      ci_on_error = flag_field flds ''on-error'' [''false'', []] False,
                      ci_trigger_when = or_none (dict_get flds ''trigger-when''),
                      ci_delay = (case or_none (dict_get flds ''delay'') of
                          None \<Rightarrow> None | Some d \<Rightarrow> parse_duration d),
                      ci_session_id = or_none (dict_get flds ''session''),
                      ci_model = or_none (dict_get flds ''model''),
                      ci_backend_id = or_none (dict_get flds ''agent''),
                      ci_description = or_none (dict_get flds ''description''),
                      ci_consensus = parse_consensus (get_or_none raw_flds ''consensus''),
                      ci_max_tokens =
                        (case or_field (dict_get flds ''max-tokens'') (dict_get flds ''max_tokens'') of
                           None \<Rightarrow> None | Some s \<Rightarrow> at_least_one s),
                      ci_max_concurrent_fires =
                        (case or_field (dict_get flds ''max-concurrent-fires'')
                                       (dict_get flds ''max_concurrent_fires'') of
                           None \<Rightarrow> cc_max_fires cfg
                         | Some s \<Rightarrow> (case at_least_one s of None \<Rightarrow> cc_max_fires cfg | Some n \<Rightarrow> n)),
                      ci_enabled = enabled, ci_last_fire = None, ci_last_success = None\<rparr>)
           | _ \<Rightarrow> ParseFailed))"

section \<open>The runner\<close>

type_synonym fanin_key = "pystr \<times> pystr"

record runner =
  cr_items :: "(pystr \<times> continuation_item) list"
  cr_active_fires :: "nat list"
  cr_fires_by_name :: "(pystr \<times> nat list) list"
  cr_fanin_state :: "(fanin_key \<times> (int \<times> pystr list)) list"
  cr_next_task :: nat

definition init_runner :: runner where
  "init_runner = \<lparr>cr_items = [], cr_active_fires = [], cr_fires_by_name = [], cr_fanin_state = [],
     cr_next_task = 0\<rparr>"

definition cont_unregister :: "pystr \<Rightarrow> runner \<Rightarrow> runner" where
  "cont_unregister path r =
     (case dict_get (cr_items r) path of
        None \<Rightarrow> r
      | Some _ \<Rightarrow>
          r\<lparr>cr_items := dict_pop path (cr_items r),
            cr_fanin_state := filter (\<lambda>((p, _), _). p \<noteq> path) (cr_fanin_state r)\<rparr>)"

definition cont_register :: "pystr \<Rightarrow> parse_result \<Rightarrow> runner \<Rightarrow> runner" where
  "cont_register path res r =
     (case res of
        Disabled \<Rightarrow> cont_unregister path r
      | ParseFailed \<Rightarrow> r
      | Parsed item \<Rightarrow>
          (let r1 = cont_unregister path r
           in r1\<lparr>cr_items := dict_set path item (cr_items r1)\<rparr>))"

text \<open>The whole of \<open>_register\<close>, the file read included; what the watcher's cleanup walks over.\<close>

definition cont_register_file ::
  "cont_config \<Rightarrow> (pystr \<Rightarrow> pyval option) \<Rightarrow> pystr \<Rightarrow> pystr option \<Rightarrow> runner \<Rightarrow> runner" where
  "cont_register_file cfg yaml path contents r = cont_register path (parse_continuation_file cfg yaml path contents) r"

definition cont_paths :: "runner \<Rightarrow> pystr list" where
  "cont_paths r = dict_keys (cr_items r)"

definition evict_stale_fanin :: "cont_config \<Rightarrow> int \<Rightarrow> runner \<Rightarrow> nat \<times> runner" where
  "evict_stale_fanin cfg now r =
     (if cc_fanin_ttl cfg \<le> 0 then (0, r)
      else
        (let cutoff = now - cc_fanin_ttl cfg;
             keep = filter (\<lambda>(_, ts, _). \<not> ts < cutoff) (cr_fanin_state r)
         in (length (cr_fanin_state r) - length keep, r\<lparr>cr_fanin_state := keep\<rparr>)))"

definition pattern_hit :: "(pystr \<Rightarrow> pystr \<Rightarrow> bool) \<Rightarrow> pystr \<Rightarrow> pystr \<Rightarrow> bool" where
  "pattern_hit fnm kind p = (p = ''*'' \<or> fnm kind p)"

record upstream =
  up_kind :: pystr
  up_session :: pystr
  up_success :: bool
  up_response :: pystr

definition item_matches :: "(pystr \<Rightarrow> pystr \<Rightarrow> bool) \<Rightarrow> upstream \<Rightarrow> continuation_item \<Rightarrow> bool" where
  "item_matches fnm up item =
     (ci_enabled item \<and>
      ((up_success up \<and> ci_on_success item) \<or> (\<not> up_success up \<and> ci_on_error item)) \<and>
      (case ci_trigger_when item of None \<Rightarrow> True | Some w \<Rightarrow> substring w (up_response up)) \<and>
      list_ex (pattern_hit fnm (up_kind up)) (ci_continues_after item))"

text \<open>The fan-in bookkeeping of one event: the entry with the kind added; its time stamp moves only
  when the entry is new or the kind is.\<close>

definition fanin_entry :: "int \<Rightarrow> pystr \<Rightarrow> (int \<times> pystr list) option \<Rightarrow> int \<times> pystr list" where
  "fanin_entry now kind entry =
     (case entry of
        None \<Rightarrow> (now, [kind])
      | Some (ts, seen) \<Rightarrow> if kind \<in> set seen then (ts, seen) else (now, kind # seen))"

definition fanin_ready :: "(pystr \<Rightarrow> pystr \<Rightarrow> bool) \<Rightarrow> pystr list \<Rightarrow> pystr list \<Rightarrow> bool" where
  "fanin_ready fnm patterns seen = list_all (\<lambda>p. list_ex (\<lambda>k. pattern_hit fnm k p) seen) patterns"

definition fires_of :: "runner \<Rightarrow> pystr \<Rightarrow> nat list" where
  "fires_of r name = tasks_of (cr_fires_by_name r) name"

text \<open>A new task enters both tables.\<close>

definition track_fire :: "pystr \<Rightarrow> runner \<Rightarrow> runner" where
  "track_fire name r =
     (let t = cr_next_task r
      in r\<lparr>cr_next_task := Suc t, cr_active_fires := t # cr_active_fires r,
           cr_fires_by_name := dict_set name (t # fires_of r name) (cr_fires_by_name r)\<rparr>)"

text \<open>What follows readiness: the global cap, the cap of the item, then the new task; \<open>key\<close> is the
  fan-in entry to clear when the fire is scheduled. The result is the task, if one is.\<close>

definition schedule_fire ::
  "cont_config \<Rightarrow> continuation_item \<Rightarrow> fanin_key option \<Rightarrow> runner \<Rightarrow> nat option \<times> runner" where
  "schedule_fire cfg item key r =
     (if cc_max_fires_global cfg > 0 \<and> int (length (cr_active_fires r)) \<ge> cc_max_fires_global cfg
      then (None, r)
      else
        (let fires = fires_of r (ci_name item);
             r1 = r\<lparr>cr_fires_by_name := dict_set (ci_name item) fires (cr_fires_by_name r)\<rparr>
         in if int (length fires) \<ge> ci_max_concurrent_fires item then (None, r1)
            else
              (Some (cr_next_task r1),
               track_fire (ci_name item)
                 (r1\<lparr>cr_fanin_state := (case key of None \<Rightarrow> cr_fanin_state r1
                                                  | Some k \<Rightarrow> dict_pop k (cr_fanin_state r1))\<rparr>))))"

definition notify_item ::
  "cont_config \<Rightarrow> (pystr \<Rightarrow> pystr \<Rightarrow> bool) \<Rightarrow> int \<Rightarrow> upstream \<Rightarrow> continuation_item \<Rightarrow> runner
   \<Rightarrow> nat option \<times> runner" where
  "notify_item cfg fnm now up item r =
     (if \<not> item_matches fnm up item then (None, r)
      else if length (ci_continues_after item) = 1 then schedule_fire cfg item None r
      else
        (let key = (ci_path item, up_session up);
             entry = fanin_entry now (up_kind up) (dict_get (cr_fanin_state r) key);
             r1 = r\<lparr>cr_fanin_state := dict_set key entry (cr_fanin_state r)\<rparr>
         in if fanin_ready fnm (ci_continues_after item) (snd entry)
            then schedule_fire cfg item (Some key) r1 else (None, r1)))"

fun notify_items ::
  "cont_config \<Rightarrow> (pystr \<Rightarrow> pystr \<Rightarrow> bool) \<Rightarrow> int \<Rightarrow> upstream \<Rightarrow> continuation_item list \<Rightarrow> runner
   \<Rightarrow> (nat \<times> continuation_item) list \<times> runner" where
  "notify_items cfg fnm now up [] r = ([], r)"
| "notify_items cfg fnm now up (item # items) r =
     (case notify_item cfg fnm now up item r of
        (t, r1) \<Rightarrow>
          (case notify_items cfg fnm now up items r1 of
             (fires, r2) \<Rightarrow> ((case t of None \<Rightarrow> fires | Some n \<Rightarrow> (n, item) # fires), r2)))"

definition notify ::
  "cont_config \<Rightarrow> (pystr \<Rightarrow> pystr \<Rightarrow> bool) \<Rightarrow> int \<Rightarrow> upstream \<Rightarrow> runner
   \<Rightarrow> (nat \<times> continuation_item) list \<times> runner" where
  "notify cfg fnm now up r =
     (let r1 = snd (evict_stale_fanin cfg now r)
      in notify_items cfg fnm now up (map snd (cr_items r1)) r1)"

text \<open>The done callback of a task: the per-name entry goes when it is drained.\<close>

definition fire_done :: "nat \<Rightarrow> pystr \<Rightarrow> runner \<Rightarrow> runner" where
  "fire_done t name r =
     r\<lparr>cr_active_fires := removeAll t (cr_active_fires r),
       cr_fires_by_name := untrack_name t name (cr_fires_by_name r)\<rparr>"

definition active_fires :: "runner \<Rightarrow> continuation_item \<Rightarrow> nat" where
  "active_fires r item = length (fires_of r (ci_name item))"

section \<open>One fire\<close>

definition UPSTREAM_KINDS :: "pystr list" where
  "UPSTREAM_KINDS = [''job'', ''task'', ''trigger'', ''a2a'', ''continuation'']"

definition upstream_label :: "pystr \<Rightarrow> pystr \<Rightarrow> pystr \<times> pystr" where
  "upstream_label label resolved_session =
     (let dflt = (''continuation'', take 32 resolved_session) in
      if label \<noteq> [] \<and> CHR '':'' \<in> set label then
        (case partition_char CHR '':'' label of
           (base, rest) \<Rightarrow>
             if base \<in> set UPSTREAM_KINDS then (base, if rest = [] then snd dflt else rest) else dflt)
      else if label \<in> set UPSTREAM_KINDS then (label, snd dflt)
      else dflt)"

definition resolved_session :: "continuation_item \<Rightarrow> pystr \<Rightarrow> pystr" where
  "resolved_session item session_id =
     (case or_none (ci_session_id item) of Some s \<Rightarrow> s | None \<Rightarrow> session_id)"

definition fire_message ::
  "(pystr \<Rightarrow> pystr \<Rightarrow> bool) \<Rightarrow> int \<Rightarrow> (pystr \<rightharpoonup> pystr) \<Rightarrow> continuation_item \<Rightarrow> pystr \<Rightarrow> pystr option
   \<Rightarrow> prompt_state \<Rightarrow> message \<times> prompt_state" where
  "fire_message fnm rearm env item session_id trace_context st =
     (case resolve_prompt_env fnm rearm env
             (''Continuation: '' @ ci_name item @ [CHR 0x0A, CHR 0x0A] @ ci_content item) st of
        (prompt, st') \<Rightarrow>
          (make_message prompt (Some (resolved_session item session_id)) (''continuation:'' @ ci_name item)
             (ci_model item) (ci_backend_id item) (ci_consensus item) (ci_max_tokens item) trace_context, st'))"

text \<open>The event a fire publishes when it ends; \<open>err\<close> is the printed exception of a failed one.\<close>

definition fired_payload :: "continuation_item \<Rightarrow> pystr \<Rightarrow> pystr \<Rightarrow> int \<Rightarrow> pystr option \<Rightarrow> payload" where
  "fired_payload item label session_id duration_ms err =
     (case upstream_label label (resolved_session item session_id) of
        (kind, name) \<Rightarrow>
          [(''name'', PStr (ci_name item)), (''upstream_kind'', PStr kind), (''upstream_name'', PStr name),
           (''duration_ms'', PInt duration_ms)] @
          (case err of
             None \<Rightarrow> [(''outcome'', PStr ''success'')]
           | Some e \<Rightarrow> [(''outcome'', PStr ''error''), (''error'', PStr (take 512 e))]))"

definition fire_finished ::
  "(nat \<Rightarrow> pystr) \<Rightarrow> pystr \<Rightarrow> continuation_item \<Rightarrow> pystr \<Rightarrow> pystr \<Rightarrow> int \<Rightarrow> pystr option \<Rightarrow> event_stream
   \<Rightarrow> publish_result \<times> event_stream" where
  "fire_finished clock agent_name item label session_id duration_ms err s =
     publish clock ''continuation.fired'' (fired_payload item label session_id duration_ms err)
       (Some agent_name) 1 s"

section \<open>Runs\<close>

text \<open>The runs of a runner, with the upstream events notified so far.\<close>

inductive cont_run ::
  "cont_config \<Rightarrow> (pystr \<Rightarrow> pystr \<Rightarrow> bool) \<Rightarrow> (pystr \<Rightarrow> pyval option) \<Rightarrow> runner \<Rightarrow> (pystr \<times> pystr) list \<Rightarrow> bool"
  for cfg fnm yaml where
  crun_start: "cont_run cfg fnm yaml init_runner []"
| crun_register: "cont_run cfg fnm yaml r hist \<Longrightarrow>
    cont_run cfg fnm yaml (cont_register path (parse_continuation_file cfg yaml path contents) r) hist"
| crun_unregister: "cont_run cfg fnm yaml r hist \<Longrightarrow> cont_run cfg fnm yaml (cont_unregister path r) hist"
| crun_notify: "cont_run cfg fnm yaml r hist \<Longrightarrow>
    cont_run cfg fnm yaml (snd (notify cfg fnm now up r)) (hist @ [(up_session up, up_kind up)])"
| crun_done: "cont_run cfg fnm yaml r hist \<Longrightarrow> t \<in> set (fires_of r name) \<Longrightarrow>
    cont_run cfg fnm yaml (fire_done t name r) hist"

text \<open>A continuation file never yields the sentinel for a disabled item.\<close>

lemma parse_never_disabled: "parse_continuation_file cfg yaml path contents \<noteq> Disabled"
  by (simp add: parse_continuation_file_def Let_def split: option.split sum.split prod.split)

section \<open>The tasks\<close>

lemma fires_of_set [simp]:
  "fires_of (r\<lparr>cr_fires_by_name := dict_set n v (cr_fires_by_name r)\<rparr>) m = (if m = n then v else fires_of r m)"
  by (simp add: fires_of_def tasks_of_set)

lemma fires_of_other [simp]:
  "fires_of (r\<lparr>cr_active_fires := a\<rparr>) = fires_of r"
  "fires_of (r\<lparr>cr_next_task := k\<rparr>) = fires_of r"
  "fires_of (r\<lparr>cr_fanin_state := fs\<rparr>) = fires_of r"
  "fires_of (r\<lparr>cr_items := it\<rparr>) = fires_of r"
  by (simp_all add: fires_of_def fun_eq_iff)

lemma fires_of_track: "fires_of (track_fire n r) = (fires_of r)(n := cr_next_task r # fires_of r n)"
  by (simp add: track_fire_def Let_def fires_of_def fun_eq_iff tasks_of_set)

lemma track_fire_frame [simp]:
  "cr_fanin_state (track_fire n r) = cr_fanin_state r" "cr_items (track_fire n r) = cr_items r"
  by (simp_all add: track_fire_def Let_def)

lemma fires_of_done: "fires_of (fire_done t n r) = (fires_of r)(n := removeAll t (fires_of r n))"
  by (simp add: fire_done_def fires_of_def fun_eq_iff tasks_of_untrack)

interpretation fire_pool: task_pool cr_next_task cr_active_fires fires_of track_fire fire_done
  by unfold_locales (simp_all add: fires_of_track fires_of_done, simp_all add: track_fire_def fire_done_def Let_def)

definition fires_inv :: "cont_config \<Rightarrow> runner \<Rightarrow> bool" where
  "fires_inv cfg r =
     (pool_ok (cr_next_task r) (cr_active_fires r) (fires_of r) \<and>
      (cc_max_fires_global cfg > 0 \<longrightarrow> int (length (cr_active_fires r)) \<le> cc_max_fires_global cfg))"

text \<open>What scheduling does, in the three cases.\<close>

definition admitted :: "cont_config \<Rightarrow> continuation_item \<Rightarrow> runner \<Rightarrow> bool" where
  "admitted cfg item r =
     (\<not> (cc_max_fires_global cfg > 0 \<and> int (length (cr_active_fires r)) \<ge> cc_max_fires_global cfg) \<and>
      int (length (fires_of r (ci_name item))) < ci_max_concurrent_fires item)"

lemma schedule_fire_shed:
  assumes "\<not> admitted cfg item r" "schedule_fire cfg item key r = (t, r')"
  shows "t = None \<and> cr_items r' = cr_items r \<and> cr_fanin_state r' = cr_fanin_state r \<and>
    cr_active_fires r' = cr_active_fires r \<and> cr_next_task r' = cr_next_task r \<and> fires_of r' = fires_of r"
  using assms by (auto simp: schedule_fire_def admitted_def Let_def fun_eq_iff split: if_splits)

lemma schedule_fire_admitted:
  assumes "admitted cfg item r" "schedule_fire cfg item key r = (t, r')"
  shows "t = Some (cr_next_task r) \<and> cr_items r' = cr_items r \<and> cr_next_task r' = Suc (cr_next_task r) \<and>
    cr_fanin_state r' = (case key of None \<Rightarrow> cr_fanin_state r | Some k \<Rightarrow> dict_pop k (cr_fanin_state r)) \<and>
    cr_active_fires r' = cr_next_task r # cr_active_fires r \<and>
    fires_of r' = (fires_of r)(ci_name item := cr_next_task r # fires_of r (ci_name item))"
proof -
  have "r' = track_fire (ci_name item)
      (r\<lparr>cr_fires_by_name := dict_set (ci_name item) (fires_of r (ci_name item)) (cr_fires_by_name r),
        cr_fanin_state := (case key of None \<Rightarrow> cr_fanin_state r | Some k \<Rightarrow> dict_pop k (cr_fanin_state r))\<rparr>)"
    and t: "t = Some (cr_next_task r)"
    using assms by (cases key; auto simp: schedule_fire_def admitted_def Let_def split: if_splits)+
  then show ?thesis
    by (simp add: fires_of_track fun_eq_iff) (simp add: track_fire_def Let_def)
qed

lemma fires_inv_cong:
  assumes "fires_inv cfg r" "cr_active_fires r' = cr_active_fires r" "cr_next_task r' = cr_next_task r"
    "fires_of r' = fires_of r"
  shows "fires_inv cfg r'"
  using assms unfolding fires_inv_def by simp

lemma fires_inv_add:
  assumes inv: "fires_inv cfg r" and adm: "admitted cfg item r"
    and act: "cr_active_fires r' = cr_next_task r # cr_active_fires r" and nxt: "cr_next_task r' = Suc (cr_next_task r)"
    and fires: "fires_of r' = (fires_of r)(ci_name item := cr_next_task r # fires_of r (ci_name item))"
  shows "fires_inv cfg r'"
proof -
  have "pool_ok (cr_next_task r') (cr_active_fires r') (fires_of r')"
    using fire_pool.track_ok [of r "ci_name item"] inv
    by (simp add: fires_inv_def act nxt fires fire_pool.nxt_track fire_pool.active_track fire_pool.tasks_track)
  with adm show ?thesis by (auto simp: fires_inv_def admitted_def act)
qed

lemma schedule_fire_inv:
  assumes "fires_inv cfg r"
  shows "fires_inv cfg (snd (schedule_fire cfg item key r))"
proof -
  obtain t r' where s: "schedule_fire cfg item key r = (t, r')" by (rule prod.exhaust)
  show ?thesis
  proof (cases "admitted cfg item r")
    case True
    with schedule_fire_admitted [OF True s] assms s show ?thesis by (auto intro: fires_inv_add)
  next
    case False
    with schedule_fire_shed [OF False s] assms s show ?thesis by (auto intro: fires_inv_cong)
  qed
qed

lemma fires_inv_fanin: "fires_inv cfg (r\<lparr>cr_fanin_state := fs\<rparr>) = fires_inv cfg r"
  by (simp add: fires_inv_def)

lemma notify_item_inv: "fires_inv cfg r \<Longrightarrow> fires_inv cfg (snd (notify_item cfg fnm now up item r))"
  by (simp add: notify_item_def Let_def schedule_fire_inv fires_inv_fanin)

lemma notify_items_inv: "fires_inv cfg r \<Longrightarrow> fires_inv cfg (snd (notify_items cfg fnm now up items r))"
proof (induction items arbitrary: r)
  case (Cons item items)
  show ?case using Cons.IH [OF notify_item_inv [OF Cons.prems, of fnm now up item]]
    by (simp add: split_def)
qed simp

lemma evict_fires: "fires_inv cfg (snd (evict_stale_fanin cfg now r)) = fires_inv cfg r"
  by (simp add: evict_stale_fanin_def Let_def fires_inv_fanin)

lemma notify_inv: "fires_inv cfg r \<Longrightarrow> fires_inv cfg (snd (notify cfg fnm now up r))"
  by (simp add: notify_def Let_def notify_items_inv evict_fires)

lemma cont_unregister_fires [simp]: "fires_inv cfg (cont_unregister path r) = fires_inv cfg r"
  by (auto simp: cont_unregister_def fires_inv_def split: option.split)

lemma cont_register_fires [simp]: "fires_inv cfg (cont_register path res r) = fires_inv cfg r"
proof -
  have "fires_inv cfg (r\<lparr>cr_items := it\<rparr>) = fires_inv cfg r" for r it by (simp add: fires_inv_def)
  then show ?thesis by (simp add: cont_register_def Let_def split: parse_result.split)
qed

lemma fire_done_frame [simp]:
  "cr_fanin_state (fire_done t name r) = cr_fanin_state r" "cr_items (fire_done t name r) = cr_items r"
  by (simp_all add: fire_done_def)

lemma fire_done_inv:
  assumes "fires_inv cfg r" "t \<in> set (fires_of r name)"
  shows "fires_inv cfg (fire_done t name r)"
  using fire_pool.untrack_ok [of r t name] fire_pool.untrack_length [of t name r] assms
  by (auto simp: fires_inv_def)

lemma cont_run_fires: "cont_run cfg fnm yaml r hist \<Longrightarrow> fires_inv cfg r"
proof (induction rule: cont_run.induct)
  case crun_start
  then show ?case by (simp add: fires_inv_def pool_ok_def init_runner_def fires_of_def tasks_of_def)
qed (auto intro: notify_inv fire_done_inv)

section \<open>The fan-in state\<close>

text \<open>Every recorded kind was notified for that session, and every entry belongs to a registered
  item.\<close>

definition fanin_inv :: "runner \<Rightarrow> (pystr \<times> pystr) list \<Rightarrow> bool" where
  "fanin_inv r hist =
     (dict_wf (cr_items r) \<and> (\<forall>p item. dict_get (cr_items r) p = Some item \<longrightarrow> ci_path item = p) \<and>
      (\<forall>((p, sid), ts, seen)\<in>set (cr_fanin_state r).
         dict_has (cr_items r) p \<and> (\<forall>k\<in>set seen. (sid, k) \<in> set hist)))"

lemma fanin_inv_mono: "fanin_inv r hist \<Longrightarrow> set hist \<subseteq> set hist' \<Longrightarrow> fanin_inv r hist'"
  by (fastforce simp: fanin_inv_def)

lemma fanin_inv_sub:
  "fanin_inv r hist \<Longrightarrow> cr_items r' = cr_items r \<Longrightarrow> set (cr_fanin_state r') \<subseteq> set (cr_fanin_state r) \<Longrightarrow>
   fanin_inv r' hist"
  by (fastforce simp: fanin_inv_def)

lemma schedule_fire_frame:
  "cr_items (snd (schedule_fire cfg item key r)) = cr_items r"
  "set (cr_fanin_state (snd (schedule_fire cfg item key r))) \<subseteq> set (cr_fanin_state r)"
  by (auto simp: schedule_fire_def Let_def dest!: subsetD [OF set_dict_pop] split: option.splits)

lemma fanin_entry_seen:
  "k \<in> set (snd (fanin_entry now kind e)) \<longleftrightarrow> k = kind \<or> (\<exists>ts seen. e = Some (ts, seen) \<and> k \<in> set seen)"
  by (auto simp: fanin_entry_def split: option.splits prod.splits if_splits)

lemma notify_item_fanin:
  assumes "fanin_inv r hist" "(up_session up, up_kind up) \<in> set hist" "dict_has (cr_items r) (ci_path item)"
  shows "fanin_inv (snd (notify_item cfg fnm now up item r)) hist \<and>
    cr_items (snd (notify_item cfg fnm now up item r)) = cr_items r"
proof -
  let ?key = "(ci_path item, up_session up)"
  let ?e = "fanin_entry now (up_kind up) (dict_get (cr_fanin_state r) ?key)"
  let ?r = "r\<lparr>cr_fanin_state := dict_set ?key ?e (cr_fanin_state r)\<rparr>"
  have seen: "(up_session up, k) \<in> set hist" if "k \<in> set (snd ?e)" for k
    using that assms(1,2) by (auto simp: fanin_entry_seen fanin_inv_def dest!: map_of_SomeD)
  have "fanin_inv ?r hist"
    unfolding fanin_inv_def
  proof (intro conjI ballI)
    fix x
    assume "x \<in> set (cr_fanin_state ?r)"
    then consider "x = (?key, ?e)" | "x \<in> set (cr_fanin_state r)"
      using set_dict_set [of ?key ?e "cr_fanin_state r"] by auto
    then show "case x of (k, e) \<Rightarrow> (case k of (p, sid) \<Rightarrow> \<lambda>(ts, seen).
        dict_has (cr_items ?r) p \<and> (\<forall>k\<in>set seen. (sid, k) \<in> set hist)) e"
    proof cases
      case 1
      with seen assms(3) show ?thesis by (auto split: prod.splits)
    next
      case 2
      with assms(1) show ?thesis by (auto simp: fanin_inv_def split: prod.splits)
    qed
  qed (use assms(1) in \<open>auto simp: fanin_inv_def\<close>)
  moreover have "fanin_inv (snd (schedule_fire cfg item key q)) hist" if "fanin_inv q hist" for key q
    using fanin_inv_sub [OF that schedule_fire_frame] .
  ultimately show ?thesis
    using assms(1) by (simp add: notify_item_def Let_def schedule_fire_frame)
qed

lemma notify_items_fanin:
  assumes "fanin_inv r hist" "(up_session up, up_kind up) \<in> set hist"
    "\<forall>item\<in>set items. dict_has (cr_items r) (ci_path item)"
  shows "fanin_inv (snd (notify_items cfg fnm now up items r)) hist"
  using assms
proof (induction items arbitrary: r)
  case (Cons item items)
  let ?r = "snd (notify_item cfg fnm now up item r)"
  have r: "fanin_inv ?r hist" "cr_items ?r = cr_items r"
    using notify_item_fanin [OF Cons.prems(1,2), of item cfg fnm now] Cons.prems(3) by simp_all
  have "fanin_inv (snd (notify_items cfg fnm now up items ?r)) hist"
    using Cons.prems(3) by (intro Cons.IH [OF r(1) Cons.prems(2)]) (simp add: r(2))
  then show ?case by (simp add: split_def)
qed simp

lemma evict_sub:
  "cr_items (snd (evict_stale_fanin cfg now r)) = cr_items r"
  "set (cr_fanin_state (snd (evict_stale_fanin cfg now r))) \<subseteq> set (cr_fanin_state r)"
  by (auto simp: evict_stale_fanin_def Let_def)

lemma items_registered:
  assumes "fanin_inv r hist" "item \<in> set (map snd (cr_items r))"
  shows "dict_has (cr_items r) (ci_path item)"
proof -
  obtain p where "(p, item) \<in> set (cr_items r)" using assms(2) by auto
  then have "dict_get (cr_items r) p = Some item"
    using assms(1) by (simp add: fanin_inv_def dict_wf_def dict_keys_def)
  with assms(1) show ?thesis by (auto simp: fanin_inv_def dict_has_def)
qed

lemma notify_fanin:
  assumes "fanin_inv r hist"
  shows "fanin_inv (snd (notify cfg fnm now up r)) (hist @ [(up_session up, up_kind up)])"
proof -
  let ?r = "snd (evict_stale_fanin cfg now r)"
  have "fanin_inv ?r hist" using fanin_inv_sub [OF assms evict_sub] .
  then have inv: "fanin_inv ?r (hist @ [(up_session up, up_kind up)])" by (rule fanin_inv_mono) auto
  with items_registered [OF inv] show ?thesis
    by (auto simp: notify_def Let_def intro!: notify_items_fanin)
qed

lemma cont_unregister_fanin:
  assumes "fanin_inv r hist"
  shows "fanin_inv (cont_unregister path r) hist \<and> \<not> dict_has (cr_items (cont_unregister path r)) path"
  using assms
  by (auto simp: cont_unregister_def fanin_inv_def dict_has_def dict_wf_pop split: option.splits prod.splits)

lemma cont_register_fanin:
  assumes "fanin_inv r hist" "\<And>item. res = Parsed item \<Longrightarrow> ci_path item = path"
  shows "fanin_inv (cont_register path res r) hist"
proof (cases res)
  case (Parsed item)
  let ?r = "cont_unregister path r"
  have "fanin_inv ?r hist" using cont_unregister_fanin [OF assms(1)] by blast
  with Parsed assms(2) [OF Parsed] show ?thesis
    by (auto simp: cont_register_def fanin_inv_def dict_has_def dict_wf_set Let_def split: prod.splits)
qed (use assms cont_unregister_fanin in \<open>auto simp: cont_register_def\<close>)

lemma parse_path: "parse_continuation_file cfg yaml path contents = Parsed item \<Longrightarrow> ci_path item = path"
  by (auto simp: parse_continuation_file_def Let_def split: option.splits sum.splits prod.splits if_splits)

lemma cont_run_fanin: "cont_run cfg fnm yaml r hist \<Longrightarrow> fanin_inv r hist"
proof (induction rule: cont_run.induct)
  case crun_start
  then show ?case by (simp add: fanin_inv_def init_runner_def dict_wf_def dict_keys_def)
next
  case (crun_register r hist path contents)
  then show ?case using parse_path by (blast intro: cont_register_fanin)
next
  case (crun_unregister r hist path)
  then show ?case using cont_unregister_fanin by blast
next
  case (crun_notify r hist now up)
  then show ?case by (blast intro: notify_fanin)
next
  case (crun_done r hist t name)
  then show ?case
    by (intro fanin_inv_sub [OF crun_done.IH]) simp_all
qed

text \<open>A concrete runner: one continuation waiting for two jobs, and its two upstream events.\<close>

definition demo_cont_cfg :: cont_config where
  "demo_cont_cfg = \<lparr>cc_max_fires = 5, cc_max_fires_global = 25, cc_fanin_ttl = 3600, cc_max_yaml = 65536\<rparr>"

definition demo_yaml :: "pystr \<Rightarrow> pyval option" where
  "demo_yaml s = Some (PDict [(''name'', PStr ''join''), (''continues-after'', PStr ''job:a, job:b'')])"

definition demo_item :: continuation_item where
  "demo_item = \<lparr>ci_path = ''/c/join.md'', ci_name = ''join'', ci_continues_after = [''job:a'', ''job:b''],
     ci_content = ''go'', ci_on_success = True, ci_on_error = False, ci_trigger_when = None, ci_delay = None,
     ci_session_id = None, ci_model = None, ci_backend_id = None, ci_description = None, ci_consensus = [],
     ci_max_tokens = None, ci_max_concurrent_fires = 5, ci_enabled = True, ci_last_fire = None,
     ci_last_success = None\<rparr>"

definition demo_upstream :: "pystr \<Rightarrow> upstream" where
  "demo_upstream kind = \<lparr>up_kind = kind, up_session = ''s'', up_success = True, up_response = ''ok''\<rparr>"

definition demo_file :: pystr where
  "demo_file = ''---'' @ [CHR 0x0A] @ ''x'' @ [CHR 0x0A] @ ''---'' @ [CHR 0x0A] @ ''go''"

abbreviation demo_runner :: runner where
  "demo_runner \<equiv> cont_register ''/c/join.md''
     (parse_continuation_file demo_cont_cfg demo_yaml ''/c/join.md'' (Some demo_file)) init_runner"

lemma demo_parse: "parse_continuation_file demo_cont_cfg demo_yaml ''/c/join.md'' (Some demo_file) = Parsed demo_item"
  by code_simp

lemma demo_run:
  "cont_run demo_cont_cfg (=) demo_yaml
     (snd (notify demo_cont_cfg (=) 10 (demo_upstream ''job:a'') demo_runner)) [(''s'', ''job:a'')]"
  using crun_notify [OF crun_register [OF crun_start], of demo_cont_cfg "(=)" demo_yaml 10 "demo_upstream ''job:a''"
      "''/c/join.md''" "Some demo_file"]
  by (simp add: demo_upstream_def)

lemma demo_after_a:
  "snd (notify demo_cont_cfg (=) 10 (demo_upstream ''job:a'') demo_runner) =
   \<lparr>cr_items = [(''/c/join.md'', demo_item)], cr_active_fires = [], cr_fires_by_name = [],
    cr_fanin_state = [((''/c/join.md'', ''s''), (10, [''job:a'']))], cr_next_task = 0\<rparr>"
  unfolding demo_parse by code_simp

section \<open>Properties\<close>

text \<open>C3: The tasks of the runner are accounted for in every run of file changes, upstream events and
  completions: the number in flight never exceeds the global cap, every one of them is counted
  under exactly one continuation, and partial fan-in state exists for registered continuations
  only.\<close>

theorem continuations_reachable:
  assumes "cont_run cfg fnm yaml r hist"
  shows "(cc_max_fires_global cfg > 0 \<longrightarrow> int (length (cr_active_fires r)) \<le> cc_max_fires_global cfg) \<and>
    distinct (cr_active_fires r) \<and>
    (\<forall>t\<in>set (cr_active_fires r). \<exists>!n. t \<in> set (fires_of r n)) \<and>
    (\<forall>n. set (fires_of r n) \<subseteq> set (cr_active_fires r)) \<and>
    (\<forall>((p, sid), e)\<in>set (cr_fanin_state r). dict_has (cr_items r) p)"
proof -
  note f = cont_run_fires [OF assms] and g = cont_run_fanin [OF assms]
  have own: "\<exists>!n. t \<in> set (fires_of r n)" if "t \<in> set (cr_active_fires r)" for t
    using that f unfolding fires_inv_def pool_ok_def by blast
  moreover have "set (fires_of r n) \<subseteq> set (cr_active_fires r)" for n
    using f unfolding fires_inv_def pool_ok_def by blast
  moreover have "\<forall>((p, sid), e)\<in>set (cr_fanin_state r). dict_has (cr_items r) p"
    using g unfolding fanin_inv_def by (auto split: prod.splits)
  ultimately show ?thesis using f unfolding fires_inv_def pool_ok_def by blast
qed

theorem continuations_reachable_witness:
  "int (length (cr_active_fires (snd (notify demo_cont_cfg (=) 10 (demo_upstream ''job:a'') demo_runner)))) \<le> 25"
  using continuations_reachable [OF demo_run] by (simp add: demo_cont_cfg_def)

text \<open>When an upstream event fires a continuation: exactly if the item matches, every pattern of a
  fan-in has been seen with this event, and both caps have room. The accumulated fan-in state is
  cleared by the fire and kept by a throttled one; a fire never exceeds the item's own cap.\<close>

theorem notify_item_spec:
  fixes r item up now
  assumes "notify_item cfg fnm now up item r = (t, r')"
  defines "entry \<equiv> fanin_entry now (up_kind up) (dict_get (cr_fanin_state r) (ci_path item, up_session up))"
  shows "(t \<noteq> None \<longleftrightarrow> item_matches fnm up item \<and> admitted cfg item r \<and>
      (length (ci_continues_after item) = 1 \<or> fanin_ready fnm (ci_continues_after item) (snd entry))) \<and>
    (item_matches fnm up item \<and> length (ci_continues_after item) \<noteq> 1 \<longrightarrow>
       dict_get (cr_fanin_state r') (ci_path item, up_session up) = (if t \<noteq> None then None else Some entry)) \<and>
    (t \<noteq> None \<longrightarrow> int (active_fires r' item) \<le> ci_max_concurrent_fires item)"
proof -
  let ?key = "(ci_path item, up_session up)"
  let ?r = "r\<lparr>cr_fanin_state := dict_set ?key entry (cr_fanin_state r)\<rparr>"
  have adm: "admitted cfg item ?r = admitted cfg item r" by (simp add: admitted_def)
  have cap: "int (active_fires q' item) \<le> ci_max_concurrent_fires item"
    if "admitted cfg item q" "schedule_fire cfg item key q = (u, q')" for key q u q'
    using schedule_fire_admitted [OF that] that(1) by (simp add: active_fires_def admitted_def)
  have sched: "(u \<noteq> None \<longleftrightarrow> admitted cfg item q) \<and>
      cr_fanin_state q' = (if admitted cfg item q then (case key of None \<Rightarrow> cr_fanin_state q
         | Some k \<Rightarrow> dict_pop k (cr_fanin_state q)) else cr_fanin_state q)"
    if "schedule_fire cfg item key q = (u, q')" for key q u q'
    using schedule_fire_admitted [OF _ that] schedule_fire_shed [OF _ that] by auto
  consider (no) "\<not> item_matches fnm up item" | (single) "item_matches fnm up item" "length (ci_continues_after item) = 1"
    | (wait) "item_matches fnm up item" "length (ci_continues_after item) \<noteq> 1"
        "\<not> fanin_ready fnm (ci_continues_after item) (snd entry)"
    | (ready) "item_matches fnm up item" "length (ci_continues_after item) \<noteq> 1"
        "fanin_ready fnm (ci_continues_after item) (snd entry)" by blast
  then show ?thesis
  proof cases
    case no
    with assms show ?thesis by (simp add: notify_item_def)
  next
    case single
    then have s: "schedule_fire cfg item None r = (t, r')" using assms(1) by (simp add: notify_item_def)
    from sched [OF s] cap [OF _ s] single show ?thesis by blast
  next
    case wait
    then have "t = None" "r' = ?r" using assms(1) by (simp_all add: notify_item_def Let_def entry_def [symmetric])
    with wait show ?thesis by simp
  next
    case ready
    then have s: "schedule_fire cfg item (Some ?key) ?r = (t, r')"
      using assms(1) by (simp add: notify_item_def Let_def entry_def [symmetric])
    from sched [OF s] cap [OF _ s] ready adm show ?thesis by auto
  qed
qed

theorem notify_item_spec_witness:
  "fst (notify_item demo_cont_cfg (=) 20 (demo_upstream ''job:b'') demo_item
     \<lparr>cr_items = [(''/c/join.md'', demo_item)], cr_active_fires = [], cr_fires_by_name = [],
      cr_fanin_state = [((''/c/join.md'', ''s''), (10, [''job:a'']))], cr_next_task = 0\<rparr>) \<noteq> None"
proof -
  let ?r = "\<lparr>cr_items = [(''/c/join.md'', demo_item)], cr_active_fires = [], cr_fires_by_name = [],
      cr_fanin_state = [((''/c/join.md'', ''s''), (10, [''job:a'']))], cr_next_task = 0\<rparr>"
  have "item_matches (=) (demo_upstream ''job:b'') demo_item" by code_simp
  moreover have "admitted demo_cont_cfg demo_item ?r"
    by (simp add: admitted_def demo_cont_cfg_def demo_item_def fires_of_def tasks_of_def)
  moreover have "fanin_ready (=) (ci_continues_after demo_item)
      (snd (fanin_entry 20 (up_kind (demo_upstream ''job:b''))
         (dict_get (cr_fanin_state ?r) (ci_path demo_item, up_session (demo_upstream ''job:b'')))))"
    by code_simp
  ultimately show ?thesis
    using notify_item_spec [OF surjective_pairing, of demo_cont_cfg "(=)" 20 "demo_upstream ''job:b''" demo_item ?r]
    by blast
qed

text \<open>Fan-in soundness: a continuation with several upstream patterns fires for a session only if
  each of its patterns is matched by a kind that was really notified for that session, this
  event included.\<close>

theorem fanin_sound:
  assumes "cont_run cfg fnm yaml r hist"
    and "notify_item cfg fnm now up item r = (Some t, r')" and "length (ci_continues_after item) \<noteq> 1"
  shows "\<forall>p\<in>set (ci_continues_after item). \<exists>k. pattern_hit fnm k p \<and>
    (up_session up, k) \<in> set (hist @ [(up_session up, up_kind up)])"
proof
  fix p
  assume p: "p \<in> set (ci_continues_after item)"
  let ?key = "(ci_path item, up_session up)"
  let ?e = "fanin_entry now (up_kind up) (dict_get (cr_fanin_state r) ?key)"
  have "fanin_ready fnm (ci_continues_after item) (snd ?e)"
    using assms(2,3) by (auto simp: notify_item_def Let_def split: if_splits)
  then obtain k where k: "k \<in> set (snd ?e)" "pattern_hit fnm k p"
    using p by (auto simp: fanin_ready_def list_all_iff list_ex_iff)
  have "(up_session up, k) \<in> set hist" if "dict_get (cr_fanin_state r) ?key = Some (ts, seen)" "k \<in> set seen" for ts seen
    using cont_run_fanin [OF assms(1)] map_of_SomeD [OF that(1)] that(2) unfolding fanin_inv_def by blast
  with k show "\<exists>k. pattern_hit fnm k p \<and> (up_session up, k) \<in> set (hist @ [(up_session up, up_kind up)])"
    by (auto simp: fanin_entry_seen)
qed

theorem fanin_sound_witness:
  "\<exists>k. pattern_hit (=) k ''job:a'' \<and> (''s'', k) \<in> set [(''s'', ''job:a''), (''s'', ''job:b'')]"
proof -
  let ?r = "snd (notify demo_cont_cfg (=) 10 (demo_upstream ''job:a'') demo_runner)"
  obtain t r' where "notify_item demo_cont_cfg (=) 20 (demo_upstream ''job:b'') demo_item ?r = (Some t, r')"
    unfolding demo_after_a by (simp add: notify_item_def item_matches_def demo_item_def demo_upstream_def
        pattern_hit_def fanin_entry_def fanin_ready_def schedule_fire_def fires_of_def tasks_of_def demo_cont_cfg_def Let_def)
  from fanin_sound [OF demo_run this] show ?thesis by (simp add: demo_item_def demo_upstream_def)
qed

text \<open>Partial fan-in state cannot outlive its time-to-live: after an event at time \<open>now\<close> every entry
  is newer than \<open>now - ttl\<close>, and a repeated upstream does not renew an entry.\<close>

theorem fanin_ttl:
  assumes "cc_fanin_ttl cfg > 0"
  shows "(\<forall>(key, ts, seen)\<in>set (cr_fanin_state (snd (notify cfg fnm now up r))). ts \<ge> now - cc_fanin_ttl cfg) \<and>
    (kind \<in> set seen \<longrightarrow> fanin_entry now kind (Some (t0, seen)) = (t0, seen))"
proof -
  let ?ok = "\<lambda>q. \<forall>x\<in>set (cr_fanin_state q). fst (snd x) \<ge> now - cc_fanin_ttl cfg"
  have start: "?ok (snd (evict_stale_fanin cfg now r))"
    using assms by (auto simp: evict_stale_fanin_def Let_def)
  have sched: "?ok (snd (schedule_fire cfg item key q))" if "?ok q" for item key q
    using that subsetD [OF schedule_fire_frame(2) [of cfg item key q]] by auto
  have item: "?ok (snd (notify_item cfg fnm now up item q))" if q: "?ok q" for item q
  proof -
    let ?key = "(ci_path item, up_session up)"
    let ?e = "fanin_entry now (up_kind up) (dict_get (cr_fanin_state q) ?key)"
    have "fst ?e \<ge> now - cc_fanin_ttl cfg"
    proof (cases "dict_get (cr_fanin_state q) ?key")
      case None
      with assms show ?thesis by (simp add: fanin_entry_def)
    next
      case (Some a)
      have "fst a \<ge> now - cc_fanin_ttl cfg" using bspec [OF q map_of_SomeD [OF Some]] by simp
      with Some assms show ?thesis by (simp add: fanin_entry_def split_def)
    qed
    then have "\<forall>x\<in>insert (?key, ?e) (set (cr_fanin_state q)). fst (snd x) \<ge> now - cc_fanin_ttl cfg"
      using q by simp
    then have ok: "?ok (q\<lparr>cr_fanin_state := dict_set ?key ?e (cr_fanin_state q)\<rparr>)"
      using set_dict_set [of ?key ?e "cr_fanin_state q"] by auto
    let ?n = "snd (notify_item cfg fnm now up item q)" and ?q = "q\<lparr>cr_fanin_state := dict_set ?key ?e (cr_fanin_state q)\<rparr>"
    have "?n = q \<or> ?n = ?q \<or> ?n = snd (schedule_fire cfg item None q) \<or>
        ?n = snd (schedule_fire cfg item (Some ?key) ?q)"
      by (simp add: notify_item_def Let_def)
    then show ?thesis
      using q ok sched [OF q, of item None] sched [OF ok, of item "Some ?key"] by (elim disjE) (simp_all only:)
  qed
  have items: "?ok (snd (notify_items cfg fnm now up is q))" if "?ok q" for "is" q
    using that
  proof (induction "is" arbitrary: q)
    case (Cons i "is")
    then show ?case using Cons.IH [OF item [OF Cons.prems, of i]] by (simp add: split_def)
  qed simp
  show ?thesis using items [OF start] by (simp add: notify_def Let_def fanin_entry_def split_def)
qed

theorem fanin_ttl_witness:
  "list_all (\<lambda>(key, ts, seen). ts \<ge> 10 - 3600)
     (cr_fanin_state (snd (notify demo_cont_cfg (=) 10 (demo_upstream ''job:a'') demo_runner))) \<and>
   fanin_entry 10 ''job:a'' (Some (3, [''job:a''])) = (3, [''job:a''])"
  using fanin_ttl [of demo_cont_cfg "(=)" 10 "demo_upstream ''job:a''" demo_runner "''job:a''" "[''job:a'']" 3]
  by (simp add: demo_cont_cfg_def list_all_iff)

lemma fired_valid:
  assumes "ci_name item \<noteq> []" "duration_ms \<ge> 0"
  shows "validate_continuation_fired (fired_payload item label session_id duration_ms err) = VOk"
proof -
  obtain kind name where up: "upstream_label label (resolved_session item session_id) = (kind, name)"
    by (rule prod.exhaust)
  then have "kind \<in> set CONTINUATION_KINDS"
    by (auto simp: upstream_label_def UPSTREAM_KINDS_def CONTINUATION_KINDS_def Let_def
        split: if_splits prod.splits)
  with assms up show ?thesis
    by (cases err) (simp_all add: fired_payload_def validate_continuation_fired_def validate_with_def dict_has_def
      in_str_set_def hashable_def OUTCOMES_def is_nonempty_str_def is_nonneg_int_def is_str_def)
qed

text \<open>The event a finished fire reports is always accepted by the event stream, success or error,
  whatever upstream label it was given.\<close>

theorem fired_event_accepted:
  assumes "ci_name item \<noteq> []" and "duration_ms \<ge> 0" and "clock 0 \<noteq> []"
  shows "\<exists>env t. fire_finished clock agent_name item label session_id duration_ms err s = (Published env, t) \<and>
    ev_type env = ''continuation.fired'' \<and>
    dict_get (ev_payload env) ''outcome'' = Some (PStr (if err = None then ''success'' else ''error''))"
proof -
  let ?p = "fired_payload item label session_id duration_ms err"
  let ?env = "\<lparr>ev_type = ''continuation.fired'', ev_version = 1, ev_id = str_of_nat (Suc (es_next_id s)),
    ev_ts = clock 0, ev_agent_id = Some agent_name, ev_payload = ?p\<rparr>"
  have "dict_get VALIDATORS ''continuation.fired'' = Some validate_continuation_fired" by (simp add: VALIDATORS_def)
  from publish_accepts [where clock = clock and p = ?p and ag = "Some agent_name" and s = s, OF this fired_valid [OF assms(1,2)] assms(3)]
  obtain t where "fire_finished clock agent_name item label session_id duration_ms err s = (Published ?env, t)"
    unfolding fire_finished_def by (metis prod.collapse)
  moreover have "dict_get ?p ''outcome'' = Some (PStr (if err = None then ''success'' else ''error''))"
    by (cases err) (simp_all add: fired_payload_def split_def)
  ultimately show ?thesis by (intro exI [of _ ?env] exI [of _ t]) simp
qed

theorem fired_event_accepted_witness:
  "\<exists>env t. fire_finished (\<lambda>_. ''now'') ''iris'' demo_item ''job:daily'' ''s'' 12 None (init_event_stream 1 1) =
     (Published env, t) \<and> dict_get (ev_payload env) ''outcome'' = Some (PStr ''success'')"
  using fired_event_accepted [of demo_item 12 "\<lambda>_. ''now''" "''iris''" "''job:daily''" "''s''" None "init_event_stream 1 1"]
  by (auto simp: demo_item_def)

section \<open>The registry and the directory\<close>

definition parsed_item :: "parse_result \<Rightarrow> continuation_item option" where
  "parsed_item res = (case res of Parsed item \<Rightarrow> Some item | _ \<Rightarrow> None)"

lemma items_unregister: "dict_get (cr_items (cont_unregister p r)) = (dict_get (cr_items r))(p := None)"
  by (auto simp: cont_unregister_def fun_eq_iff split: option.split)

interpretation cont_files: file_registry "\<lambda>r. dict_get (cr_items r)" "\<lambda>p c. parsed_item (parse_continuation_file cfg yaml p c)"
    "cont_register_file cfg yaml" cont_unregister cont_paths init_runner
  for cfg yaml
proof unfold_locales
  fix p c and r :: runner
  show "dict_get (cr_items (cont_register_file cfg yaml p c r)) =
      (case parsed_item (parse_continuation_file cfg yaml p c) of None \<Rightarrow> dict_get (cr_items r)
       | Some i \<Rightarrow> (dict_get (cr_items r))(p \<mapsto> i))"
    using parse_never_disabled [of cfg yaml p c]
    by (cases "parse_continuation_file cfg yaml p c")
      (simp_all add: cont_register_file_def cont_register_def parsed_item_def Let_def items_unregister fun_eq_iff)
  show "set (cont_paths r) = dom (dict_get (cr_items r))"
    by (simp add: cont_paths_def dict_keys_def dom_map_of_conv_image_fst)
qed (simp_all add: init_runner_def items_unregister parsed_item_def parse_continuation_file_def fun_eq_iff)

text \<open>The continuations of a watched directory are those its files describe.\<close>

lemma continuations_mirror_directory:
  assumes "watch_run (cont_register_file cfg yaml) cont_unregister cont_paths init_runner w missed"
    and "wt_phase w = Watching" "wt_pending w = []" "md_file p" "p \<notin> set missed"
  shows "in_sync (\<lambda>p c. parsed_item (parse_continuation_file cfg yaml p c)) p (dict_get (wt_fs w) p)
    (dict_get (cr_items (wt_state w)) p)"
  using assms by (rule cont_files.watcher_in_sync)

end
