(* ===== verification/Url_Guard.thy ===== *)
theory Url_Guard
  imports Py_Text
begin

text \<open>
  Model of the URL checks of \<open>harness/webhooks.py\<close> (\<open>_host_is_private\<close>, \<open>_validate_url\<close>), which
  keep outbound webhooks away from internal addresses, with the parts of the standard library they
  use: \<open>urllib.parse.urlsplit\<close> (scheme, host name, port) and \<open>ipaddress.ip_address\<close> with its
  predicates, both as in CPython 3.11, the interpreter of the harness image. DNS is an argument.
  The Unicode check of \<open>urlsplit\<close> on non-ASCII host parts never rejects in the modelled range of
  characters, since no character up to U+00FF has a compatibility form with a delimiter in it.
\<close>

section \<open>IP addresses\<close>

datatype ip = V4 nat | V6 nat

definition parse_octet :: "pystr \<Rightarrow> nat option" where
  "parse_octet s =
     (if s = [] \<or> \<not> list_all (\<lambda>c. digit_val c \<noteq> None) s \<or> length s > 3 then None
      else if s \<noteq> ''0'' \<and> hd s = CHR ''0'' then None
      else (case nat_literal s of None \<Rightarrow> None | Some n \<Rightarrow> if n > 255 then None else Some n))"

definition ipv4_of_string :: "pystr \<Rightarrow> nat option" where
  "ipv4_of_string s =
     (case map parse_octet (split_char CHR ''.'' s) of
        [Some a, Some b, Some c, Some d] \<Rightarrow> Some (((a * 256 + b) * 256 + c) * 256 + d)
      | _ \<Rightarrow> None)"

definition parse_hextet :: "pystr \<Rightarrow> nat option" where
  "parse_hextet s =
     (if s = [] \<or> length s > 4 then None
      else fold (\<lambda>c acc. case (acc, hex_val c) of (Some n, Some d) \<Rightarrow> Some (n * 16 + d) | _ \<Rightarrow> None) s (Some 0))"

fun hextets_value :: "nat \<Rightarrow> pystr list \<Rightarrow> nat option" where
  "hextets_value acc [] = Some acc"
| "hextets_value acc (p # ps) =
     (case parse_hextet p of None \<Rightarrow> None | Some h \<Rightarrow> hextets_value (acc * 65536 + h) ps)"

text \<open>The address with its IPv4-style suffix turned into two more groups. The groups are kept as
  text, as the code does, so the suffix is printed in hexadecimal.\<close>

fun hex_of_nat :: "nat \<Rightarrow> pystr" where
  "hex_of_nat n = (if n < 16 then [hex_digit n] else hex_of_nat (n div 16) @ [hex_digit (n mod 16)])"

declare hex_of_nat.simps [simp del]

definition ipv6_parts :: "pystr \<Rightarrow> pystr list option" where
  "ipv6_parts s =
     (let parts = split_char CHR '':'' s in
      if length parts < 3 then None
      else if CHR ''.'' \<in> set (last parts) then
        (case ipv4_of_string (last parts) of
           None \<Rightarrow> None
         | Some n \<Rightarrow> Some (butlast parts @ [hex_of_nat (n div 65536), hex_of_nat (n mod 65536)]))
      else Some parts)"

text \<open>The positions strictly between the ends where a group is empty.\<close>

definition skip_indices :: "pystr list \<Rightarrow> nat list" where
  "skip_indices parts = filter (\<lambda>i. parts ! i = []) [1..<length parts - 1]"

definition ipv6_of_parts :: "pystr list \<Rightarrow> nat option" where
  "ipv6_of_parts parts =
     (if length parts > 9 then None
      else
        (case skip_indices parts of
           [] \<Rightarrow>
             if length parts \<noteq> 8 \<or> hd parts = [] \<or> last parts = [] then None
             else hextets_value 0 parts
         | [i] \<Rightarrow>
             (let hi = (if hd parts = [] then i - 1 else i);
                  lo = (if last parts = [] then length parts - i - 2 else length parts - i - 1)
              in if (hd parts = [] \<and> hi \<noteq> 0) \<or> (last parts = [] \<and> lo \<noteq> 0) \<or> hi + lo > 7 then None
                 else (case hextets_value 0 (take hi parts) of
                         None \<Rightarrow> None
                       | Some h \<Rightarrow> hextets_value (h * 65536 ^ (8 - (hi + lo))) (drop (length parts - lo) parts)))
         | _ \<Rightarrow> None))"

definition ipv6_of_string :: "pystr \<Rightarrow> nat option" where
  "ipv6_of_string s =
     (let (addr, scope) = partition_char CHR ''%'' s in
      if CHR ''%'' \<in> set s \<and> (scope = [] \<or> CHR ''%'' \<in> set scope) then None
      else if CHR ''/'' \<in> set s then None
      else (case ipv6_parts addr of None \<Rightarrow> None | Some parts \<Rightarrow> ipv6_of_parts parts))"

definition ip_address :: "pystr \<Rightarrow> ip option" where
  "ip_address s =
     (case ipv4_of_string s of
        Some n \<Rightarrow> Some (V4 n)
      | None \<Rightarrow> map_option V6 (ipv6_of_string s))"

text \<open>Membership in a network, given by an address in it and the length of its prefix.\<close>

definition in_net :: "nat \<Rightarrow> nat \<times> nat \<Rightarrow> nat \<Rightarrow> bool" where
  "in_net width net a = (a div 2 ^ (width - snd net) = fst net div 2 ^ (width - snd net))"

definition quad :: "nat \<Rightarrow> nat \<Rightarrow> nat \<Rightarrow> nat \<Rightarrow> nat" where
  "quad a b c d = ((a * 256 + b) * 256 + c) * 256 + d"

definition V4_PRIVATE :: "(nat \<times> nat) list" where
  "V4_PRIVATE =
     [(quad 0 0 0 0, 8), (quad 10 0 0 0, 8), (quad 127 0 0 0, 8), (quad 169 254 0 0, 16),
      (quad 172 16 0 0, 12), (quad 192 0 0 0, 24), (quad 192 0 0 170, 31), (quad 192 0 2 0, 24),
      (quad 192 168 0 0, 16), (quad 198 18 0 0, 15), (quad 198 51 100 0, 24), (quad 203 0 113 0, 24),
      (quad 240 0 0 0, 4), (quad 255 255 255 255, 32)]"

definition V4_PRIVATE_EXCEPTIONS :: "(nat \<times> nat) list" where
  "V4_PRIVATE_EXCEPTIONS = [(quad 192 0 0 9, 32), (quad 192 0 0 10, 32)]"

definition v4_private :: "nat \<Rightarrow> bool" where
  "v4_private n =
     (list_ex (\<lambda>net. in_net 32 net n) V4_PRIVATE \<and> \<not> list_ex (\<lambda>net. in_net 32 net n) V4_PRIVATE_EXCEPTIONS)"

text \<open>An IPv6 prefix is given by its first groups.\<close>

fun groups :: "nat \<Rightarrow> nat list \<Rightarrow> nat" where
  "groups k [] = 0"
| "groups k (g # gs) = g * 65536 ^ (k - 1) + groups (k - 1) gs"

definition V6_PRIVATE :: "(nat \<times> nat) list" where
  "V6_PRIVATE =
     [(1, 128), (0, 128), (65535 * 2 ^ 32, 96), (groups 8 [0x64, 0xff9b, 1], 48), (groups 8 [0x100], 64),
      (groups 8 [0x2001], 23), (groups 8 [0x2001, 0xdb8], 32), (groups 8 [0x2002], 16),
      (groups 8 [0xfc00], 7), (groups 8 [0xfe80], 10)]"

definition V6_PRIVATE_EXCEPTIONS :: "(nat \<times> nat) list" where
  "V6_PRIVATE_EXCEPTIONS =
     [(groups 8 [0x2001, 1, 0, 0, 0, 0, 0, 1], 128), (groups 8 [0x2001, 1, 0, 0, 0, 0, 0, 2], 128),
      (groups 8 [0x2001, 3], 32), (groups 8 [0x2001, 4, 0x112], 48), (groups 8 [0x2001, 0x20], 28),
      (groups 8 [0x2001, 0x30], 28)]"

definition V6_RESERVED :: "(nat \<times> nat) list" where
  "V6_RESERVED =
     [(0, 8), (groups 8 [0x100], 8), (groups 8 [0x200], 7), (groups 8 [0x400], 6), (groups 8 [0x800], 5),
      (groups 8 [0x1000], 4), (groups 8 [0x4000], 3), (groups 8 [0x6000], 3), (groups 8 [0x8000], 3),
      (groups 8 [0xA000], 3), (groups 8 [0xC000], 3), (groups 8 [0xE000], 4), (groups 8 [0xF000], 5),
      (groups 8 [0xF800], 6), (groups 8 [0xFE00], 9)]"

definition v6_private :: "nat \<Rightarrow> bool" where
  "v6_private n =
     (if n div 2 ^ 32 = 65535 then v4_private (n mod 2 ^ 32)
      else list_ex (\<lambda>net. in_net 128 net n) V6_PRIVATE \<and> \<not> list_ex (\<lambda>net. in_net 128 net n) V6_PRIVATE_EXCEPTIONS)"

definition ip_is_private :: "ip \<Rightarrow> bool" where
  "ip_is_private a =
     (case a of
        V4 n \<Rightarrow>
          in_net 32 (quad 127 0 0 0, 8) n \<or> in_net 32 (quad 169 254 0 0, 16) n \<or> v4_private n \<or>
          in_net 32 (quad 240 0 0 0, 4) n \<or> in_net 32 (quad 224 0 0 0, 4) n \<or> n = 0
      | V6 n \<Rightarrow>
          n = 1 \<or> in_net 128 (groups 8 [0xfe80], 10) n \<or> v6_private n \<or>
          list_ex (\<lambda>net. in_net 128 net n) V6_RESERVED \<or> in_net 128 (groups 8 [0xff00], 8) n \<or> n = 0)"

definition host_is_private :: "pystr \<Rightarrow> bool" where
  "host_is_private host = (case ip_address host of None \<Rightarrow> False | Some a \<Rightarrow> ip_is_private a)"

section \<open>Splitting a URL\<close>

text \<open>The components the checks read. The attributes \<open>hostname\<close> and \<open>port\<close> are computed from the
  network location; reading \<open>port\<close> may raise \<open>ValueError\<close>.\<close>

record url_parts =
  up_scheme :: pystr
  up_netloc :: pystr

definition is_alpha_ascii :: "char \<Rightarrow> bool" where
  "is_alpha_ascii c =
     (let n = (of_char c :: nat) in (65 \<le> n \<and> n \<le> 90) \<or> (97 \<le> n \<and> n \<le> 122))"

definition scheme_char :: "char \<Rightarrow> bool" where
  "scheme_char c = (is_alpha_ascii c \<or> digit_val c \<noteq> None \<or> c \<in> set ''+-.'')"

definition url_clean :: "pystr \<Rightarrow> pystr" where
  "url_clean url =
     filter (\<lambda>c. c \<notin> {CHR 0x09, CHR 0x0A, CHR 0x0D}) (lstrip_by (\<lambda>c. (of_char c :: nat) \<le> 32) url)"

definition split_scheme :: "pystr \<Rightarrow> pystr \<times> pystr" where
  "split_scheme url =
     (let (pre, post) = partition_char CHR '':'' url in
      if CHR '':'' \<in> set url \<and> pre \<noteq> [] \<and> is_alpha_ascii (hd pre) \<and> list_all scheme_char pre
      then (lower pre, post) else ([], url))"

definition netloc_char :: "char \<Rightarrow> bool" where
  "netloc_char c = (c \<notin> set ''/?#'')"

text \<open>\<open>_check_bracketed_host\<close>: an address of a future version, or an IPv6 address. In the first
  pattern the dot stands for any character but a line break.\<close>

definition bracketed_host_ok :: "pystr \<Rightarrow> bool" where
  "bracketed_host_ok h =
     (if startswith h ''v''
      then (let digits = takeWhile (\<lambda>c. hex_val c \<noteq> None) (tl h);
                rest = dropWhile (\<lambda>c. hex_val c \<noteq> None) (tl h)
            in digits \<noteq> [] \<and> startswith rest ''.'' \<and> tl rest \<noteq> [] \<and> CHR 0x0A \<notin> set (tl rest))
      else (case ip_address h of Some (V6 n) \<Rightarrow> True | _ \<Rightarrow> False))"

text \<open>\<^const>\<open>None\<close> is the \<open>ValueError\<close>.\<close>

definition urlsplit :: "pystr \<Rightarrow> url_parts option" where
  "urlsplit url =
     (case split_scheme (url_clean url) of
        (scheme, rest) \<Rightarrow>
          (let netloc = (if startswith rest ''//'' then takeWhile netloc_char (drop 2 rest) else [])
           in if (CHR ''['' \<in> set netloc) \<noteq> (CHR '']'' \<in> set netloc) then None
              else if CHR ''['' \<in> set netloc \<and>
                \<not> bracketed_host_ok (fst (partition_char CHR '']'' (snd (partition_char CHR ''['' netloc)))) then None
              else Some \<lparr>up_scheme = scheme, up_netloc = netloc\<rparr>))"

definition hostinfo :: "pystr \<Rightarrow> pystr \<times> pystr option" where
  "hostinfo netloc =
     (let info = rpartition_last CHR ''@'' netloc;
          (host, port) =
            (if CHR ''['' \<in> set info
             then (let (h, p) = partition_char CHR '']'' (snd (partition_char CHR ''['' info))
                   in (h, snd (partition_char CHR '':'' p)))
             else partition_char CHR '':'' info)
      in (host, if port = [] then None else Some port))"

text \<open>\<open>parts.hostname or ""\<close>: a zone identifier keeps its case.\<close>

definition url_hostname :: "url_parts \<Rightarrow> pystr" where
  "url_hostname parts =
     (let host = fst (hostinfo (up_netloc parts));
          (name, zone) = partition_char CHR ''%'' host
      in lower name @ (if CHR ''%'' \<in> set host then CHR ''%'' # zone else []))"

datatype port_result = PortNone | PortNumber nat | PortError

definition url_port :: "url_parts \<Rightarrow> port_result" where
  "url_port parts =
     (case snd (hostinfo (up_netloc parts)) of
        None \<Rightarrow> PortNone
      | Some p \<Rightarrow>
          if list_all (\<lambda>c. digit_val c \<noteq> None) p
          then (case nat_literal p of
                  Some n \<Rightarrow> if n \<le> 65535 then PortNumber n else PortError
                | None \<Rightarrow> PortError)
          else PortError)"

section \<open>The check\<close>

definition URL_ALLOWED_SCHEMES :: "pystr list" where
  "URL_ALLOWED_SCHEMES = [''http'', ''https'']"

definition LOOPBACK_HOST_ALIASES :: "pystr list" where
  "LOOPBACK_HOST_ALIASES = [''localhost'', ''localhost.localdomain'', ''ip6-localhost'', ''ip6-loopback'']"

text \<open>The configuration: the operator's host list and whether it also lifts the check of the
  resolved addresses.\<close>

record url_config =
  uc_allowed_hosts :: "pystr list"
  uc_allow_loopback :: bool

definition url_config_of :: "pystr \<Rightarrow> pystr \<Rightarrow> url_config" where
  "url_config_of hosts loopback =
     \<lparr>uc_allowed_hosts = map (\<lambda>h. lower (strip h)) (filter (\<lambda>h. strip h \<noteq> []) (split_char CHR '','' hosts)),
      uc_allow_loopback = (lower (strip loopback) \<in> {''1'', ''true'', ''yes''})\<rparr>"

text \<open>What \<open>getaddrinfo\<close> does: addresses, \<open>gaierror\<close>, or another exception (a host name the IDNA
  codec refuses raises \<open>UnicodeError\<close>).\<close>

datatype dns_answer = DnsAddrs "pystr list" | DnsFailed | DnsRaises

datatype url_check =
    UrlOk
  | EmptyUrl
  | UnparseableUrl
  | SchemeNotAllowed pystr
  | NoHost
  | LoopbackAlias pystr
  | PrivateHost pystr
  | DnsResolutionFailed pystr
  | ResolvesPrivate pystr pystr
  | UrlCheckRaises

fun check_addrs :: "pystr \<Rightarrow> pystr list \<Rightarrow> pystr list \<Rightarrow> url_check" where
  "check_addrs host seen [] = UrlOk"
| "check_addrs host seen (a # as) =
     (if a = [] \<or> a \<in> set seen then check_addrs host seen as
      else if host_is_private a then ResolvesPrivate host a
      else check_addrs host (a # seen) as)"

definition host_port :: "pystr \<Rightarrow> port_result \<Rightarrow> pystr" where
  "host_port host port = (case port of PortNumber n \<Rightarrow> host @ '':'' @ str_of_nat n | _ \<Rightarrow> host)"

definition allowlisted :: "url_config \<Rightarrow> pystr \<Rightarrow> port_result \<Rightarrow> bool" where
  "allowlisted cfg host port =
     (host \<in> set (uc_allowed_hosts cfg) \<or> host_port host port \<in> set (uc_allowed_hosts cfg))"

definition validate_url :: "url_config \<Rightarrow> (pystr \<Rightarrow> dns_answer) \<Rightarrow> pystr \<Rightarrow> url_check" where
  "validate_url cfg dns url =
     (if url = [] then EmptyUrl
      else case urlsplit url of
        None \<Rightarrow> UnparseableUrl
      | Some parts \<Rightarrow>
          (let scheme = lower (up_scheme parts); host = lower (url_hostname parts); port = url_port parts
           in if scheme \<notin> set URL_ALLOWED_SCHEMES then SchemeNotAllowed scheme
              else if host = [] then NoHost
              else if port = PortError then UrlCheckRaises
              else if allowlisted cfg host port \<and> uc_allow_loopback cfg then UrlOk
              else if \<not> allowlisted cfg host port \<and> host \<in> set LOOPBACK_HOST_ALIASES then LoopbackAlias host
              else if \<not> allowlisted cfg host port \<and> host_is_private host then PrivateHost host
              else (case dns host of
                      DnsFailed \<Rightarrow> DnsResolutionFailed host
                    | DnsRaises \<Rightarrow> UrlCheckRaises
                    | DnsAddrs as \<Rightarrow> check_addrs host [] as)))"

section \<open>Lemmas\<close>

definition dotted :: "nat \<Rightarrow> nat \<Rightarrow> nat \<Rightarrow> nat \<Rightarrow> pystr" where
  "dotted a b c d = join ''.'' (map str_of_nat [a, b, c, d])"

lemma str_of_nat_octet:
  assumes "n \<le> 255"
  shows "length (str_of_nat n) \<le> 3 \<and> (hd (str_of_nat n) = CHR ''0'' \<longrightarrow> n = 0)"
proof -
  have zero: "digit_char d = CHR ''0'' \<longleftrightarrow> d = 0" if "d < 10" for d
  proof
    assume "digit_char d = CHR ''0''"
    then have "digit_val (CHR ''0'') = Some d" using digit_val_digit_char [OF that] by simp
    then show "d = 0" by (simp add: digit_val_def)
  next
    assume "d = 0"
    moreover have "char_of (48 :: nat) = CHR ''0''" by code_simp
    ultimately show "digit_char d = CHR ''0''" by (simp add: digit_char_def)
  qed
  consider "n < 10" | "10 \<le> n" "n div 10 < 10" | "10 \<le> n" "10 \<le> n div 10" "n div 10 div 10 < 10"
    using assms by linarith
  then show ?thesis
  proof cases
    case 1
    then show ?thesis using zero [of n] by (simp add: str_of_nat.simps [of n])
  next
    case 2
    then show ?thesis using zero [of "n div 10"]
      by (simp add: str_of_nat.simps [of n] str_of_nat.simps [of "n div 10"])
  next
    case 3
    then show ?thesis using zero [of "n div 10 div 10"]
      by (simp add: str_of_nat.simps [of n] str_of_nat.simps [of "n div 10"] str_of_nat.simps [of "n div 10 div 10"])
  qed
qed

lemma str_of_nat_all_digits: "list_all (\<lambda>c. digit_val c \<noteq> None) (str_of_nat n)"
  using str_of_nat_digits [of n] by (force simp: list_all_iff)

lemma parse_octet_str:
  assumes "n \<le> 255"
  shows "parse_octet (str_of_nat n) = Some n"
proof -
  have "str_of_nat 0 = ''0''" by code_simp
  then have "\<not> (str_of_nat n \<noteq> ''0'' \<and> hd (str_of_nat n) = CHR ''0'')"
    using str_of_nat_octet [OF assms] by auto
  moreover have "\<not> (str_of_nat n = [] \<or> \<not> list_all (\<lambda>c. digit_val c \<noteq> None) (str_of_nat n) \<or> length (str_of_nat n) > 3)"
    using str_of_nat_octet [OF assms] str_of_nat_all_digits [of n] by simp
  ultimately show ?thesis
    unfolding parse_octet_def using assms by (simp only: if_False nat_literal_str_of_nat option.case not_less [symmetric])
qed

lemma dot_not_digit: "CHR ''.'' \<notin> set (str_of_nat n)"
proof -
  have "digit_char d \<noteq> CHR ''.''" if "d < 10" for d
  proof
    assume "digit_char d = CHR ''.''"
    then have "digit_val (CHR ''.'') = Some d" using digit_val_digit_char [OF that] by simp
    then show False by (simp add: digit_val_def)
  qed
  then show ?thesis using str_of_nat_digits [of n] by force
qed

lemma in_net_div: "in_net w (a, p) n \<longleftrightarrow> n div 2 ^ (w - p) = a div 2 ^ (w - p)"
  by (simp add: in_net_def)

text \<open>The loop over the resolved addresses looks at every one of them.\<close>

lemma check_addrs_ok:
  "check_addrs host seen as = UrlOk \<longleftrightarrow> (\<forall>a\<in>set as. a \<noteq> [] \<and> a \<notin> set seen \<longrightarrow> \<not> host_is_private a)"
  by (induction host seen as rule: check_addrs.induct) auto

lemma check_addrs_cases: "check_addrs host seen as = UrlOk \<or> (\<exists>a. check_addrs host seen as = ResolvesPrivate host a)"
  by (induction host seen as rule: check_addrs.induct) auto

lemma empty_not_ip: "\<not> host_is_private []"
  by (simp add: host_is_private_def ip_address_def ipv4_of_string_def parse_octet_def ipv6_of_string_def
      partition_char_def ipv6_parts_def)

text \<open>A prefix of at most 16 bits is a condition on the first group of an IPv6 address.\<close>

definition v6_top :: "nat \<Rightarrow> nat" where
  "v6_top n = n div 2 ^ 112"

lemma in_net_top:
  assumes "p \<le> 16"
  shows "in_net 128 (groups 8 [g], p) n \<longleftrightarrow> v6_top n div 2 ^ (16 - p) = g div 2 ^ (16 - p)"
proof -
  have e: "(2 :: nat) ^ (128 - p) = 2 ^ 112 * 2 ^ (16 - p)"
    using assms by (simp only: power_add [symmetric]) simp
  have "groups 8 [g] = g * 2 ^ 112" by simp
  then have "groups 8 [g] div 2 ^ (128 - p) = g div 2 ^ (16 - p)"
    unfolding e by (simp only: div_mult2_eq) simp
  then show ?thesis unfolding in_net_div e v6_top_def by (simp only: div_mult2_eq)
qed

lemma v4_ranges:
  assumes "n < 2 ^ 32"
  shows "ip_is_private (V4 n) \<longleftrightarrow>
    n < quad 1 0 0 0 \<or> (quad 10 0 0 0 \<le> n \<and> n < quad 11 0 0 0) \<or>
    (quad 127 0 0 0 \<le> n \<and> n < quad 128 0 0 0) \<or> (quad 169 254 0 0 \<le> n \<and> n < quad 169 255 0 0) \<or>
    (quad 172 16 0 0 \<le> n \<and> n < quad 172 32 0 0) \<or>
    (quad 192 0 0 0 \<le> n \<and> n < quad 192 0 1 0 \<and> n \<noteq> quad 192 0 0 9 \<and> n \<noteq> quad 192 0 0 10) \<or>
    (quad 192 0 2 0 \<le> n \<and> n < quad 192 0 3 0) \<or> (quad 192 168 0 0 \<le> n \<and> n < quad 192 169 0 0) \<or>
    (quad 198 18 0 0 \<le> n \<and> n < quad 198 20 0 0) \<or> (quad 198 51 100 0 \<le> n \<and> n < quad 198 51 101 0) \<or>
    (quad 203 0 113 0 \<le> n \<and> n < quad 203 0 114 0) \<or> quad 224 0 0 0 \<le> n"
proof (cases "n = quad 192 0 0 9 \<or> n = quad 192 0 0 10")
  case True
  then have "n = 3221225481 \<or> n = 3221225482" by (simp add: quad_def)
  then show ?thesis
    by (elim disjE; hypsubst)
      (simp_all add: ip_is_private_def v4_private_def V4_PRIVATE_def V4_PRIVATE_EXCEPTIONS_def in_net_def quad_def)
next
  case False
  have net: "in_net 32 (a, p) n \<longleftrightarrow> a \<le> n \<and> n < a + 2 ^ (32 - p)" if "2 ^ (32 - p) dvd a" for a p
  proof -
    from that obtain k where a: "a = 2 ^ (32 - p) * k" by (elim dvdE)
    have "n div 2 ^ (32 - p) = k \<longleftrightarrow> a \<le> n \<and> n < a + 2 ^ (32 - p)"
      unfolding a by (metis add.commute div_nat_eqI div_times_less_eq_dividend dividend_less_div_times mult.commute
          mult_Suc_right zero_less_numeral zero_less_power)
    then show ?thesis by (simp add: in_net_div a)
  qed
  have exc: "\<not> list_ex (\<lambda>net. in_net 32 net n) V4_PRIVATE_EXCEPTIONS"
    using False by (simp add: V4_PRIVATE_EXCEPTIONS_def in_net_def)
  have facts: "3758096384 \<le> n \<Longrightarrow> n < 4026531840 \<or> 4026531840 \<le> n" "4026531840 \<le> n \<Longrightarrow> 3758096384 \<le> n"
    "4294967295 \<le> n \<Longrightarrow> 3758096384 \<le> n"
    "3221225642 \<le> n \<and> n < 3221225644 \<Longrightarrow> 3221225472 \<le> n \<and> n < 3221225728" "n = 0 \<Longrightarrow> n < 16777216"
    "n < 4294967296"
    using assms by auto
  show ?thesis
    using False exc
    by (simp add: ip_is_private_def v4_private_def V4_PRIVATE_def net quad_def) (use facts in argo)
qed

text \<open>What is left of the IPv6 space is global unicast without the 6to4 block, and the deprecated
  site-local block, which none of the predicates covers; addresses that embed an IPv4 address in the
  mapped form are all refused, because \<open>::/8\<close> is reserved.\<close>

lemma v6_exceptions_top:
  assumes "list_ex (\<lambda>net. in_net 128 net n) V6_PRIVATE_EXCEPTIONS"
  shows "v6_top n = 0x2001"
proof -
  have "\<exists>k a. k \<le> 112 \<and> n div 2 ^ k = a div 2 ^ k \<and> a div 2 ^ 112 = (0x2001 :: nat)"
  proof -
    obtain net where net: "net \<in> set V6_PRIVATE_EXCEPTIONS" "in_net 128 net n"
      using assms by (auto simp: list_ex_iff)
    have "128 - snd net \<le> 112 \<and> fst net div 2 ^ 112 = 0x2001"
      using net(1) by (auto simp: V6_PRIVATE_EXCEPTIONS_def)
    with net(2) show ?thesis unfolding in_net_def by blast
  qed
  then obtain k a where k: "k \<le> 112" "n div 2 ^ k = a div 2 ^ k" "a div 2 ^ 112 = (0x2001 :: nat)" by blast
  have "(2 :: nat) ^ 112 = 2 ^ k * 2 ^ (112 - k)" using k(1) by (simp only: power_add [symmetric]) simp
  then have "n div 2 ^ 112 = a div 2 ^ 112" using k(2) by (simp only: div_mult2_eq)
  with k(3) show ?thesis unfolding v6_top_def by simp
qed

text \<open>The first groups that no reserved, multicast, link-local or unique-local block covers.\<close>

lemma unreserved_top:
  fixes t :: nat
  assumes t: "t < 65536"
    and r: "t div 256 \<noteq> 0 \<and> t div 256 \<noteq> 1 \<and> t div 512 \<noteq> 1 \<and> t div 1024 \<noteq> 1 \<and>
    t div 2048 \<noteq> 1 \<and> t div 4096 \<noteq> 1 \<and> t div 8192 \<noteq> 2 \<and> t div 8192 \<noteq> 3 \<and> t div 8192 \<noteq> 4 \<and>
    t div 8192 \<noteq> 5 \<and> t div 8192 \<noteq> 6 \<and> t div 4096 \<noteq> 14 \<and> t div 2048 \<noteq> 30 \<and> t div 1024 \<noteq> 62 \<and>
    t div 128 \<noteq> 508"
    and m: "t div 256 \<noteq> 255" and l: "t div 64 \<noteq> 1018" and u: "t div 512 \<noteq> 126"
  shows "t div 8192 = 1 \<or> t div 64 = 1019"
proof -
  from r have r4096: "t div 4096 \<noteq> 1" "t div 4096 \<noteq> 14" and r2048: "t div 2048 \<noteq> 1" "t div 2048 \<noteq> 30"
    and r1024: "t div 1024 \<noteq> 1" "t div 1024 \<noteq> 62" and r512: "t div 512 \<noteq> 1" and r256: "t div 256 \<noteq> 1"
    and r128: "t div 128 \<noteq> 508" and r8192: "t div 8192 \<noteq> 2" "t div 8192 \<noteq> 3" "t div 8192 \<noteq> 4"
      "t div 8192 \<noteq> 5" "t div 8192 \<noteq> 6"
    by blast+
  have "t div 8192 < 8" using t by simp
  then have "t div 8192 = 0 \<or> t div 8192 = 1 \<or> t div 8192 = 7" using r8192 by linarith
  then show ?thesis
  proof (elim disjE)
    assume "t div 8192 = 0"
    then have "t div 4096 = 0" using r4096 by linarith
    then have "t div 2048 = 0" using r2048 by linarith
    then have "t div 1024 = 0" using r1024 by linarith
    then have "t div 512 = 0" using r512 by linarith
    then have "t div 256 = 0" using r256 by linarith
    with r show ?thesis by simp
  next
    assume "t div 8192 = 7"
    then have "t div 4096 = 15" using r4096 by linarith
    then have "t div 2048 = 31" using r2048 by linarith
    then have "t div 1024 = 63" using r1024 by linarith
    then have "t div 512 = 127" using u by linarith
    then have "t div 256 = 254" using m by linarith
    then have "t div 128 = 509" using r128 by linarith
    then show ?thesis using l by linarith
  qed simp
qed

lemma v6_public:
  assumes "n < 2 ^ 128" "\<not> ip_is_private (V6 n)"
  shows "(v6_top n div 2 ^ 13 = 1 \<or> v6_top n div 2 ^ 6 = 0xfec0 div 2 ^ 6) \<and> v6_top n \<noteq> 0x2002 \<and> n div 2 ^ 32 \<noteq> 65535"
proof -
  define t where "t = v6_top n"
  note top = in_net_top [where n = n, folded t_def]
  have t: "t < 65536" using assms(1) by (simp add: t_def v6_top_def less_mult_imp_div_less)
  have zero: "in_net 128 (0, 8) n \<longleftrightarrow> t div 2 ^ 8 = 0"
    using top [of 8 0] by simp
  have res: "\<not> list_ex (\<lambda>net. in_net 128 net n) V6_RESERVED" and mc: "\<not> in_net 128 (groups 8 [0xff00], 8) n"
    and ll: "\<not> in_net 128 (groups 8 [0xfe80], 10) n" and pr: "\<not> v6_private n"
    using assms(2) unfolding ip_is_private_def ip.case by blast+
  from res have r: "t div 256 \<noteq> 0 \<and> t div 256 \<noteq> 1 \<and> t div 512 \<noteq> 1 \<and> t div 1024 \<noteq> 1 \<and>
    t div 2048 \<noteq> 1 \<and> t div 4096 \<noteq> 1 \<and> t div 8192 \<noteq> 2 \<and> t div 8192 \<noteq> 3 \<and> t div 8192 \<noteq> 4 \<and>
    t div 8192 \<noteq> 5 \<and> t div 8192 \<noteq> 6 \<and> t div 4096 \<noteq> 14 \<and> t div 2048 \<noteq> 30 \<and> t div 1024 \<noteq> 62 \<and>
    t div 128 \<noteq> 508"
    by (simp add: V6_RESERVED_def zero top del: groups.simps)
  have m: "t div 256 \<noteq> 255" and l: "t div 64 \<noteq> 1018"
    using mc ll by (simp_all add: top del: groups.simps)
  have mapped: "n div 2 ^ 32 \<noteq> 65535"
  proof
    assume "n div 2 ^ 32 = 65535"
    then have "n div 2 ^ 32 div 2 ^ 80 = 0" by simp
    then have "t = 0" by (simp add: t_def v6_top_def div_mult2_eq [symmetric])
    with r show False by simp
  qed
  have "\<not> list_ex (\<lambda>net. in_net 128 net n) V6_PRIVATE \<or> list_ex (\<lambda>net. in_net 128 net n) V6_PRIVATE_EXCEPTIONS"
    using pr mapped by (simp add: v6_private_def)
  then have f: "t \<noteq> 0x2002" "t div 512 \<noteq> 126"
    using v6_exceptions_top [of n] by (auto simp: V6_PRIVATE_def top t_def [symmetric] simp del: groups.simps)
  moreover have "t div 8192 = 1 \<or> t div 64 = 1019"
    by (rule unreserved_top [OF t r m l f(2)])
  ultimately show ?thesis using mapped by (simp add: t_def)
qed

text \<open>And everything there is let through, the special blocks of \<open>2001::/23\<close> and \<open>2001:db8::/32\<close> aside.\<close>

lemma in_net_longer:
  assumes "16 \<le> p" "p \<le> 128" "in_net 128 (a, p) n"
  shows "v6_top n = a div 2 ^ 112"
proof -
  have "(2 :: nat) ^ 112 = 2 ^ (128 - p) * 2 ^ (p - 16)" using assms(1,2) by (simp only: power_add [symmetric]) simp
  then show ?thesis using assms(3) unfolding in_net_div v6_top_def by (simp only: div_mult2_eq)
qed

definition v6_special :: "nat \<Rightarrow> bool" where
  "v6_special m =
     ((in_net 128 (groups 8 [0x2001], 23) m \<or> in_net 128 (groups 8 [0x2001, 0xdb8], 32) m) \<and>
      \<not> list_ex (\<lambda>net. in_net 128 net m)
          [(groups 8 [0x2001, 1, 0, 0, 0, 0, 0, 1], 128), (groups 8 [0x2001, 1, 0, 0, 0, 0, 0, 2], 128), (groups 8 [0x2001, 3], 32),
           (groups 8 [0x2001, 4, 0x112], 48), (groups 8 [0x2001, 0x20], 28), (groups 8 [0x2001, 0x30], 28)])"

lemma v6_special_private: "v6_special m \<longleftrightarrow> (in_net 128 (groups 8 [0x2001], 23) m \<or> in_net 128 (groups 8 [0x2001, 0xdb8], 32) m) \<and>
    \<not> list_ex (\<lambda>net. in_net 128 net m) V6_PRIVATE_EXCEPTIONS"
  unfolding v6_special_def V6_PRIVATE_EXCEPTIONS_def ..

lemma public_top:
  fixes t :: nat
  assumes "t div 8192 = 1 \<or> t div 64 = 1019"
  shows "t div 256 \<noteq> 0" "t div 256 \<noteq> 1" "t div 512 \<noteq> 1" "t div 1024 \<noteq> 1" "t div 2048 \<noteq> 1" "t div 4096 \<noteq> 1"
    "t div 8192 \<noteq> 2" "t div 8192 \<noteq> 3" "t div 8192 \<noteq> 4" "t div 8192 \<noteq> 5" "t div 8192 \<noteq> 6" "t div 4096 \<noteq> 14"
    "t div 2048 \<noteq> 30" "t div 1024 \<noteq> 62" "t div 128 \<noteq> 508" "t div 256 \<noteq> 255" "t div 64 \<noteq> 1018" "t div 512 \<noteq> 126"
    "t \<noteq> 0" "t \<noteq> 0x64" "t \<noteq> 0x100"
proof -
  have "(8192 \<le> t \<and> t < 16384) \<or> (65216 \<le> t \<and> t < 65280)" using assms by linarith
  then show "t div 256 \<noteq> 0" "t div 256 \<noteq> 1" "t div 512 \<noteq> 1" "t div 1024 \<noteq> 1" "t div 2048 \<noteq> 1" "t div 4096 \<noteq> 1"
    "t div 8192 \<noteq> 2" "t div 8192 \<noteq> 3" "t div 8192 \<noteq> 4" "t div 8192 \<noteq> 5" "t div 8192 \<noteq> 6" "t div 4096 \<noteq> 14"
    "t div 2048 \<noteq> 30" "t div 1024 \<noteq> 62" "t div 128 \<noteq> 508" "t div 256 \<noteq> 255" "t div 64 \<noteq> 1018" "t div 512 \<noteq> 126"
    "t \<noteq> 0" "t \<noteq> 0x64" "t \<noteq> 0x100"
    by linarith+
qed

lemma v6_internal_iff:
  assumes "m < 2 ^ 128"
  shows "\<not> ip_is_private (V6 m) \<longleftrightarrow>
    v6_top m div 2 ^ 13 = 1 \<and> v6_top m \<noteq> 0x2002 \<and> \<not> v6_special m \<or> v6_top m div 2 ^ 6 = 0xfec0 div 2 ^ 6"
    (is "_ \<longleftrightarrow> ?public")
proof
  assume pub: "\<not> ip_is_private (V6 m)"
  have "\<not> v6_special m"
  proof
    assume "v6_special m"
    then have "v6_private m" using v6_public [OF assms pub] unfolding v6_special_private v6_private_def by (auto simp: V6_PRIVATE_def)
    then show False using pub unfolding ip_is_private_def ip.case by blast
  qed
  then show ?public using v6_public [OF assms pub] by blast
next
  assume ?public
  then have t: "v6_top m div 8192 = 1 \<or> v6_top m div 64 = 1019" and sp: "\<not> v6_special m" "v6_top m \<noteq> 0x2002"
  proof -
    show t: "v6_top m div 8192 = 1 \<or> v6_top m div 64 = 1019" using \<open>?public\<close> by auto
    have "v6_top m \<noteq> 0x2001 \<and> v6_top m \<noteq> 0x2002 \<and> v6_top m div 512 \<noteq> 16" if "v6_top m div 64 = 1019" using that by auto
    moreover have "v6_top m = 0x2001" if "v6_special m"
      using that in_net_longer [of 23 "groups 8 [0x2001]" m] in_net_longer [of 32 "groups 8 [0x2001, 0xdb8]" m]
      by (auto simp: v6_special_def)
    ultimately show "\<not> v6_special m" "v6_top m \<noteq> 0x2002" using \<open>?public\<close> by auto
  qed
  define t where "t = v6_top m"
  note f = public_top [OF t, folded t_def]
  note top = in_net_top [where n = m, folded t_def]
  have zero: "in_net 128 (0, 8) m \<longleftrightarrow> t div 2 ^ 8 = 0" using top [of 8 0] by simp
  have "list_ex (\<lambda>net. in_net 128 net m) V6_RESERVED \<longleftrightarrow> t div 256 = 0 \<or> t div 256 = 1 \<or> t div 512 = 1 \<or> t div 1024 = 1 \<or>
    t div 2048 = 1 \<or> t div 4096 = 1 \<or> t div 8192 = 2 \<or> t div 8192 = 3 \<or> t div 8192 = 4 \<or>
    t div 8192 = 5 \<or> t div 8192 = 6 \<or> t div 4096 = 14 \<or> t div 2048 = 30 \<or> t div 1024 = 62 \<or> t div 128 = 508"
    by (simp add: V6_RESERVED_def zero top del: groups.simps)
  then have "\<not> list_ex (\<lambda>net. in_net 128 net m) V6_RESERVED" using f by blast
  moreover have "in_net 128 (groups 8 [0xff00], 8) m \<longleftrightarrow> t div 256 = 255" "in_net 128 (groups 8 [0xfe80], 10) m \<longleftrightarrow> t div 64 = 1018"
    "in_net 128 (groups 8 [0xfc00], 7) m \<longleftrightarrow> t div 512 = 126" "in_net 128 (groups 8 [0x2002], 16) m \<longleftrightarrow> t = 0x2002"
    by (simp_all add: top del: groups.simps)
  then have "\<not> in_net 128 (groups 8 [0xff00], 8) m" "\<not> in_net 128 (groups 8 [0xfe80], 10) m"
    "\<not> in_net 128 (groups 8 [0xfc00], 7) m" "\<not> in_net 128 (groups 8 [0x2002], 16) m"
    using f sp(2) unfolding t_def by blast+
  moreover have "(1 :: nat) div 2 ^ 112 = 0" "(0 :: nat) div 2 ^ 112 = 0" "65535 * 2 ^ 32 div 2 ^ 112 = (0 :: nat)"
      "groups 8 [0x64, 0xff9b, 1] div 2 ^ 112 = 0x64" "groups 8 [0x100] div 2 ^ 112 = 0x100" by simp_all
  then have small: "\<not> in_net 128 (1, 128) m" "\<not> in_net 128 (0, 128) m" "\<not> in_net 128 (65535 * 2 ^ 32, 96) m"
    "\<not> in_net 128 (groups 8 [0x64, 0xff9b, 1], 48) m" "\<not> in_net 128 (groups 8 [0x100], 64) m"
    using f(19-21) in_net_longer [of 128 1 m] in_net_longer [of 128 0 m] in_net_longer [of 96 "65535 * 2 ^ 32" m]
      in_net_longer [of 48 "groups 8 [0x64, 0xff9b, 1]" m] in_net_longer [of 64 "groups 8 [0x100]" m]
    unfolding t_def by (simp_all del: groups.simps) blast+
  moreover have "m div 2 ^ 32 \<noteq> 65535" "m \<noteq> 0" "m \<noteq> 1"
    using small(1-3) by (auto simp: in_net_div)
  ultimately show "\<not> ip_is_private (V6 m)"
    using sp(1) unfolding ip_is_private_def ip.case v6_private_def v6_special_private V6_PRIVATE_def by (simp del: groups.simps)
qed

text \<open>What the parser returns is in range.\<close>

lemma ipv4_of_string_less: "ipv4_of_string s = Some n \<Longrightarrow> n < 2 ^ 32"
proof -
  have octet: "parse_octet t = Some a \<Longrightarrow> a \<le> 255" for t a
    by (auto simp: parse_octet_def split: if_splits option.splits)
  assume "ipv4_of_string s = Some n"
  then obtain a b c d where "map parse_octet (split_char CHR ''.'' s) = [Some a, Some b, Some c, Some d]"
      and n: "n = ((a * 256 + b) * 256 + c) * 256 + d"
    by (auto simp: ipv4_of_string_def split: list.splits option.splits)
  then have "a \<le> 255" "b \<le> 255" "c \<le> 255" "d \<le> 255" by (auto simp: octet)
  then show ?thesis unfolding n by simp
qed

lemma parse_hextet_less:
  assumes "parse_hextet s = Some h"
  shows "h < 65536"
proof -
  define f where "f = (\<lambda>c acc. case (acc :: nat option, hex_val c) of (Some n, Some d) \<Rightarrow> Some (n * 16 + d) | _ \<Rightarrow> None)"
  have f: "f c None = None" "f c (Some n) = map_option (\<lambda>d. n * 16 + d) (hex_val c)" for c n
    by (auto simp: f_def split: option.split)
  have none: "fold f s None = None" for s by (induction s) (simp_all add: f)
  have v: "hex_val c = Some d \<Longrightarrow> d < 16" for c d by (auto simp: hex_val_def Let_def split: if_splits)
  have "v < (k + 1) * 16 ^ length s" if "fold f s (Some k) = Some v" for s :: pystr and k v
    using that
  proof (induction s arbitrary: k)
    case (Cons c s)
    then obtain d where d: "hex_val c = Some d" by (cases "hex_val c") (simp_all add: f none)
    then have "v < (k * 16 + d + 1) * 16 ^ length s" using Cons.prems by (intro Cons.IH) (simp add: f)
    also have "\<dots> \<le> ((k + 1) * 16) * 16 ^ length s" using v [OF d] by (intro mult_right_mono) auto
    finally show ?case by (simp add: algebra_simps)
  qed simp
  from this [of s 0 h] have "h < 16 ^ length s" and "length s \<le> 4"
    using assms by (auto simp: parse_hextet_def f_def split: if_splits)
  then have "h < 16 ^ 4" using power_increasing [of "length s" 4 "16 :: nat"] by simp
  then show ?thesis by simp
qed

lemma hextets_value_less: "hextets_value acc ps = Some v \<Longrightarrow> v < (acc + 1) * 65536 ^ length ps"
proof (induction ps arbitrary: acc)
  case (Cons p ps)
  then obtain h where h: "parse_hextet p = Some h" "hextets_value (acc * 65536 + h) ps = Some v" by (auto split: option.splits)
  have "v < (acc * 65536 + h + 1) * 65536 ^ length ps" by (rule Cons.IH [OF h(2)])
  also have "\<dots> \<le> ((acc + 1) * 65536) * 65536 ^ length ps" using parse_hextet_less [OF h(1)] by (intro mult_right_mono) auto
  finally show ?case by (simp add: algebra_simps)
qed simp

lemma ipv6_of_parts_less:
  assumes "ipv6_of_parts parts = Some v"
  shows "v < 2 ^ 128"
proof -
  have all: "(65536 :: nat) ^ 8 = 2 ^ 128" by simp
  have no: "length parts \<le> 9" using assms by (simp add: ipv6_of_parts_def split: if_splits)
  show ?thesis
  proof (cases "skip_indices parts")
    case Nil
    then have "length parts = 8" "hextets_value 0 parts = Some v" using assms no by (simp_all add: ipv6_of_parts_def split: if_splits)
    then show ?thesis using hextets_value_less [of 0 parts v] by simp
  next
    case (Cons i more_skips)
    then have skip: "skip_indices parts = [i]" using assms by (cases more_skips) (simp_all add: ipv6_of_parts_def split: if_splits)
    define hi where "hi = (if hd parts = [] then i - 1 else i)"
    define lo where "lo = (if last parts = [] then length parts - i - 2 else length parts - i - 1)"
    note p = assms [unfolded ipv6_of_parts_def skip list.case Let_def, folded hi_def lo_def]
    obtain h where 2: "hi + lo \<le> 7" "hextets_value 0 (take hi parts) = Some h"
        "hextets_value (h * 65536 ^ (8 - (hi + lo))) (drop (length parts - lo) parts) = Some v"
      using p by (cases "hextets_value 0 (take hi parts)") (simp_all split: if_splits)
    have "h < 65536 ^ length (take hi parts)" using hextets_value_less [OF 2(2)] by simp
    also have "\<dots> \<le> 65536 ^ hi" by (intro power_increasing) auto
    finally have "h + 1 \<le> 65536 ^ hi" by simp
    have len: "length (drop (length parts - lo) parts) \<le> lo" by simp
    let ?z = "65536 ^ (8 - (hi + lo)) :: nat"
    have "v < (h * ?z + 1) * 65536 ^ length (drop (length parts - lo) parts)" by (rule hextets_value_less [OF 2(3)])
    also have "\<dots> \<le> (h * ?z + 1) * 65536 ^ lo" using len by (intro mult_left_mono power_increasing) auto
    also have "\<dots> \<le> ((h + 1) * ?z) * 65536 ^ lo" by (intro mult_right_mono) auto
    also have "\<dots> \<le> (65536 ^ hi * ?z) * 65536 ^ lo" using \<open>h + 1 \<le> 65536 ^ hi\<close> by (intro mult_right_mono) auto
    also have "\<dots> = 65536 ^ 8" using 2(1) by (simp only: power_add [symmetric]) simp
    finally show ?thesis unfolding all .
  qed
qed

lemma ip_address_less: "ip_address s = Some (V4 n) \<Longrightarrow> n < 2 ^ 32" "ip_address s = Some (V6 m) \<Longrightarrow> m < 2 ^ 128"
  using ipv4_of_string_less ipv6_of_parts_less
  by (auto simp: ip_address_def ipv6_of_string_def Let_def split: option.splits if_splits prod.splits)

section \<open>Properties\<close>

text \<open>A dotted decimal address is read as the number it denotes.\<close>

theorem ipv4_roundtrip:
  assumes "a \<le> 255" "b \<le> 255" "c \<le> 255" "d \<le> 255"
  shows "ip_address (dotted a b c d) = Some (V4 (quad a b c d))"
proof -
  have "split_char CHR ''.'' (dotted a b c d) = map str_of_nat [a, b, c, d]"
    unfolding dotted_def by (intro split_char_join) (auto simp: dot_not_digit)
  with assms show ?thesis
    by (simp add: ip_address_def ipv4_of_string_def parse_octet_str quad_def)
qed

theorem ipv4_roundtrip_witness: "ip_address (dotted 169 254 169 254) = Some (V4 2852039166)"
  using ipv4_roundtrip [of 169 254 169 254] by (simp add: quad_def)

text \<open>C32: Exactly which hosts the guard treats as internal. A name is not, only the literal of an address. Of the IPv4 addresses it is
  those of thirteen ranges. Of the IPv6 addresses it is all but those of the global unicast block without 6to4 and
  without the special blocks at \<open>2001::\<close>, save some assigned ones, and those of the deprecated site-local block; in
  particular it is every mapped form of an IPv4 address.\<close>

theorem internal_ranges:
  "case ip_address host of
     None \<Rightarrow> \<not> host_is_private host
   | Some (V4 n) \<Rightarrow> host_is_private host \<longleftrightarrow>
      list_ex (\<lambda>(lo, hi). lo \<le> n \<and> n < hi)
        [(quad 0 0 0 0, quad 1 0 0 0), (quad 10 0 0 0, quad 11 0 0 0), (quad 127 0 0 0, quad 128 0 0 0),
         (quad 169 254 0 0, quad 169 255 0 0), (quad 172 16 0 0, quad 172 32 0 0),
         (quad 192 0 0 0, quad 192 0 0 9), (quad 192 0 0 11, quad 192 0 1 0), (quad 192 0 2 0, quad 192 0 3 0),
         (quad 192 168 0 0, quad 192 169 0 0), (quad 198 18 0 0, quad 198 20 0 0),
         (quad 198 51 100 0, quad 198 51 101 0), (quad 203 0 113 0, quad 203 0 114 0),
         (quad 224 0 0 0, 2 ^ 32)]
   | Some (V6 m) \<Rightarrow>
      (host_is_private host \<longleftrightarrow>
         \<not> (v6_top m div 2 ^ 13 = 1 \<and> v6_top m \<noteq> 0x2002 \<and> \<not> v6_special m \<or> v6_top m div 2 ^ 6 = 0xfec0 div 2 ^ 6)) \<and>
      (host_is_private host \<or> m div 2 ^ 32 \<noteq> 65535)"
proof (cases "ip_address host")
  case (Some a)
  show ?thesis
  proof (cases a)
    case (V4 n)
    have "3221225472 \<le> n \<and> n < 3221225728 \<and> n \<noteq> 3221225481 \<and> n \<noteq> 3221225482 \<longleftrightarrow>
      (3221225472 \<le> n \<and> n < 3221225481) \<or> (3221225483 \<le> n \<and> n < 3221225728)"
      by linarith
    then show ?thesis using v4_ranges [of n] ip_address_less(1) [of host n] by (simp add: Some V4 host_is_private_def quad_def)
  next
    case (V6 m)
    then have m: "m < 2 ^ 128" using ip_address_less(2) Some by blast
    show ?thesis using v6_internal_iff [OF m] v6_public [OF m] unfolding Some V6 host_is_private_def option.case ip.case by blast
  qed
qed (simp add: host_is_private_def)

lemma demo_hosts:
  "ip_address ''::1'' = Some (V6 1)" "ip_address ''2606:4700::1111'' = Some (V6 (groups 8 [0x2606, 0x4700, 0, 0, 0, 0, 0, 0x1111]))"
  "ip_address ''localhost'' = None"
  by (simp_all add: ip_address_def ipv4_of_string_def parse_octet_def ipv6_of_string_def ipv6_parts_def ipv6_of_parts_def partition_char_def
      skip_indices_def parse_hextet_def hex_val_def digit_val_def nat_literal_def upt_rec)

lemma demo_v6_public: "\<not> v6_special (groups 8 [0x2606, 0x4700, 0, 0, 0, 0, 0, 0x1111])" "v6_top (groups 8 [0x2606, 0x4700, 0, 0, 0, 0, 0, 0x1111]) = 0x2606"
  by (simp_all add: v6_special_def in_net_def v6_top_def)

theorem internal_ranges_witness:
  "host_is_private (dotted 169 254 169 254) \<and> \<not> host_is_private (dotted 100 64 0 1) \<and> host_is_private ''::1'' \<and>
   \<not> host_is_private ''2606:4700::1111'' \<and> \<not> host_is_private ''localhost''"
proof -
  have e: "ip_address (dotted 169 254 169 254) = Some (V4 (quad 169 254 169 254))" "ip_address (dotted 100 64 0 1) = Some (V4 (quad 100 64 0 1))"
    by (rule ipv4_roundtrip; simp)+
  note r = internal_ranges [of "dotted 169 254 169 254", unfolded e(1) option.case ip.case] internal_ranges [of "dotted 100 64 0 1", unfolded e(2) option.case ip.case]
      internal_ranges [of "''::1''", unfolded demo_hosts(1) option.case ip.case]
      internal_ranges [of "''2606:4700::1111''", unfolded demo_hosts(2) option.case ip.case]
      internal_ranges [of "''localhost''", unfolded demo_hosts(3) option.case]
  have "host_is_private (dotted 169 254 169 254)" "\<not> host_is_private (dotted 100 64 0 1)" unfolding r(1,2) by (simp_all add: quad_def)
  moreover have "host_is_private ''::1''" using conjunct1 [OF r(3)] by (simp add: v6_top_def)
  moreover have "\<not> host_is_private ''2606:4700::1111''" using conjunct1 [OF r(4), unfolded demo_v6_public(2)] demo_v6_public(1) by simp
  ultimately show ?thesis using r(5) by blast
qed

text \<open>Exactly when a webhook URL passes: the scheme is http or https, there is a host, the port is
  legal, and either the operator lists the host and has lifted the address check, or the name resolves,
  no address it resolves to is internal, and the host itself is neither a loopback alias nor an
  internal address unless the operator lists it.\<close>

theorem validate_url_iff:
  "validate_url cfg dns url = UrlOk \<longleftrightarrow>
     url \<noteq> [] \<and>
     (\<exists>parts. urlsplit url = Some parts \<and>
        (let host = lower (url_hostname parts); listed = allowlisted cfg host (url_port parts) in
         lower (up_scheme parts) \<in> {''http'', ''https''} \<and> host \<noteq> [] \<and> url_port parts \<noteq> PortError \<and>
         (listed \<and> uc_allow_loopback cfg \<or>
          (listed \<or> host \<notin> set LOOPBACK_HOST_ALIASES \<and> \<not> host_is_private host) \<and>
          (\<exists>as. dns host = DnsAddrs as \<and> list_all (\<lambda>a. \<not> host_is_private a) as))))"
proof (cases "urlsplit url")
  case None
  then show ?thesis by (simp add: validate_url_def)
next
  case (Some parts)
  have addrs: "check_addrs host [] as = UrlOk \<longleftrightarrow> list_all (\<lambda>a. \<not> host_is_private a) as" for host as
    using empty_not_ip by (auto simp: check_addrs_ok list_all_iff)
  show ?thesis
    by (cases "dns (lower (url_hostname parts))")
      (auto simp: validate_url_def Some Let_def URL_ALLOWED_SCHEMES_def addrs)
qed

end
