(* ===== verification/Webhooks.thy ===== *)
theory Webhooks
  imports Url_Guard Harness_Utils Event_Stream
begin

text \<open>
  Model of \<open>harness/webhooks.py\<close> up to the delivery of one event: the subscription files and their
  fields, the event filters, the template substitution, the rendering of body and headers, the first
  POST (\<open>deliver\<close>, \<open>_deliver_hook_decision\<close>) and the retry chain (\<open>_retry_deliver\<close>). What a
  delivery does to the outside world is the list of actions it returns: URL checks with their
  verdict, requests, sleeps, counter labels and published events. The environment, DNS, HTTP, the
  extraction backend, \<open>fnmatch\<close>, \<open>yaml.safe_load\<close>, \<open>ast.literal_eval\<close>, \<open>int\<close> of a float, HMAC,
  clocks and identifiers are arguments.
\<close>

section \<open>Subscriptions\<close>

record webhook_sub =
  ws_path :: pystr
  ws_name :: pystr
  ws_url_template :: pystr
  ws_enabled :: bool
  ws_signing_secret :: "pystr option"
  ws_notify_when :: pystr
  ws_notify_on_kind :: "pystr list"
  ws_notify_on_response :: "pystr list"
  ws_content_type :: pystr
  ws_description :: "pystr option"
  ws_headers :: "(pystr \<times> pystr) list"
  ws_timeout_seconds :: int
  ws_retries :: int
  ws_extract :: "(pystr \<times> pystr) list"
  ws_body_template :: "pystr option"
  ws_context_template :: "pystr option"
  ws_backend_id :: "pystr option"
  ws_model :: "pystr option"
  ws_max_concurrent_deliveries :: int
  ws_events :: "pystr list"

definition EVENT_KIND_COMPLETION :: pystr where
  "EVENT_KIND_COMPLETION = ''completion''"

definition EVENT_KIND_HOOK_DECISION :: pystr where
  "EVENT_KIND_HOOK_DECISION = ''hook.decision''"

definition KNOWN_EVENT_KINDS :: "pystr list" where
  "KNOWN_EVENT_KINDS = [EVENT_KIND_COMPLETION, EVENT_KIND_HOOK_DECISION]"

definition HOOK_DECISION_SUB_KINDS :: "pystr list" where
  "HOOK_DECISION_SUB_KINDS = [''allow'', ''warn'', ''deny'']"

definition VALID_NOTIFY_WHEN :: "pystr list" where
  "VALID_NOTIFY_WHEN = [''always'', ''on_success'', ''on_error'']"

definition parse_list_field :: "(pystr \<Rightarrow> pyval option) \<Rightarrow> pyval \<Rightarrow> pystr list" where
  "parse_list_field literal_eval value =
     (let texts = (\<lambda>xs. filter (\<lambda>t. t \<noteq> []) (map (\<lambda>x. strip (str_val x)) xs));
          stripped = strip (str_val value);
          pieces = filter (\<lambda>t. t \<noteq> []) (map strip (split_char CHR '','' stripped))
      in if \<not> truthy (Some value) then []
         else case value of
           PList xs \<Rightarrow> texts xs
         | _ \<Rightarrow>
             if stripped = [] \<or> stripped = ''[]'' then []
             else if startswith stripped ''[''
             then (case literal_eval stripped of Some (PList xs) \<Rightarrow> texts xs | _ \<Rightarrow> pieces)
             else pieces)"

text \<open>One entry of the \<open>events\<close> field: the normal form, or nothing for an unknown kind or qualifier.\<close>

definition normalize_event :: "pystr \<Rightarrow> pystr option" where
  "normalize_event item =
     (case partition_char CHR '':'' item of
        (b, s) \<Rightarrow>
          (let base = strip b; sub = strip s in
           if base \<notin> set KNOWN_EVENT_KINDS then None
           else if sub \<noteq> [] then
             (if base \<noteq> EVENT_KIND_HOOK_DECISION \<or> sub \<notin> set HOOK_DECISION_SUB_KINDS then None
              else Some (base @ '':'' @ sub))
           else Some base))"

definition normalize_events_field :: "(pystr \<Rightarrow> pyval option) \<Rightarrow> pyval \<Rightarrow> pystr list" where
  "normalize_events_field literal_eval raw =
     (let cleaned = List.map_filter normalize_event (parse_list_field literal_eval raw)
      in if cleaned = [] then [EVENT_KIND_COMPLETION] else cleaned)"

definition events_match :: "pystr list \<Rightarrow> pystr \<Rightarrow> pystr option \<Rightarrow> bool" where
  "events_match sub_events event_kind qualifier =
     (if event_kind = EVENT_KIND_COMPLETION then EVENT_KIND_COMPLETION \<in> set sub_events
      else if event_kind = EVENT_KIND_HOOK_DECISION then
        EVENT_KIND_HOOK_DECISION \<in> set sub_events \<or>
        (case qualifier of
           Some (c # cs) \<Rightarrow> (EVENT_KIND_HOOK_DECISION @ '':'' @ c # cs) \<in> set sub_events
         | _ \<Rightarrow> False)
      else False)"

definition matches_filters ::
  "(pystr \<Rightarrow> pystr \<Rightarrow> bool) \<Rightarrow> webhook_sub \<Rightarrow> bool \<Rightarrow> pystr \<Rightarrow> pystr \<Rightarrow> bool" where
  "matches_filters fnm sub success kind response_preview =
     (if \<not> events_match (ws_events sub) EVENT_KIND_COMPLETION None then False
      else if ws_notify_when sub = ''on_success'' \<and> \<not> success then False
      else if ws_notify_when sub = ''on_error'' \<and> success then False
      else if ws_notify_on_kind sub \<noteq> [] \<and> \<not> list_ex (fnm kind) (ws_notify_on_kind sub) then False
      else if ws_notify_on_response sub \<noteq> [] \<and> \<not> list_ex (fnm response_preview) (ws_notify_on_response sub)
      then False
      else True)"

section \<open>Templates\<close>

text \<open>A match of \<open>\{\{(\w+)\}\}\<close> at the start of the text: the name and the rest.\<close>

definition var_ref :: "pystr \<Rightarrow> (pystr \<times> pystr) option" where
  "var_ref s =
     (if startswith s ''{{'' then
        (let name = takeWhile re_word (drop 2 s); rest = dropWhile re_word (drop 2 s)
         in if name \<noteq> [] \<and> startswith rest ''}}'' then Some (name, drop 2 rest) else None)
      else None)"

text \<open>\<open>pattern.sub(repl, s)\<close> and the names \<open>pattern.finditer(s)\<close> sees, for a matcher that consumes
  something whenever it matches.\<close>

function re_sub :: "(pystr \<Rightarrow> (pystr \<times> pystr) option) \<Rightarrow> (pystr \<Rightarrow> pystr) \<Rightarrow> pystr \<Rightarrow> pystr" where
  "re_sub m f s =
     (case m s of
        Some (name, rest) \<Rightarrow> if length rest < length s then f name @ re_sub m f rest else s
      | None \<Rightarrow> (case s of [] \<Rightarrow> [] | c # cs \<Rightarrow> c # re_sub m f cs))"
  by pat_completeness auto
termination
  by (relation "measure (\<lambda>(m, f, s). length s)") auto

function re_names :: "(pystr \<Rightarrow> (pystr \<times> pystr) option) \<Rightarrow> pystr \<Rightarrow> pystr list" where
  "re_names m s =
     (case m s of
        Some (name, rest) \<Rightarrow> if length rest < length s then name # re_names m rest else []
      | None \<Rightarrow> (case s of [] \<Rightarrow> [] | c # cs \<Rightarrow> re_names m cs))"
  by pat_completeness auto
termination
  by (relation "measure (\<lambda>(m, s). length s)") auto

declare re_sub.simps [simp del] re_names.simps [simp del]

type_synonym wctx = "(pystr \<times> pyval) list"

definition ctx_text :: "wctx \<Rightarrow> pystr \<Rightarrow> pystr" where
  "ctx_text ctx key = (case dict_get ctx key of None \<Rightarrow> [] | Some v \<Rightarrow> str_val v)"

definition resolve_env_vars :: "(pystr \<rightharpoonup> pystr) \<Rightarrow> pystr \<Rightarrow> pystr" where
  "resolve_env_vars env text = re_sub env_ref (env_or_empty env) text"

definition substitute :: "(pystr \<rightharpoonup> pystr) \<Rightarrow> pystr \<Rightarrow> wctx \<Rightarrow> pystr" where
  "substitute env template ctx = re_sub var_ref (ctx_text ctx) (resolve_env_vars env template)"

definition URL_TEMPLATE_ALLOWED_VARS :: "pystr list" where
  "URL_TEMPLATE_ALLOWED_VARS =
     [''agent'', ''kind'', ''session_id'', ''source'', ''model'', ''success'', ''error'',
      ''response_preview'', ''duration_seconds'', ''timestamp'', ''delivery_id'']"

definition url_template_has_forbidden_refs :: "pystr \<Rightarrow> bool" where
  "url_template_has_forbidden_refs template =
     (re_names env_ref template \<noteq> [] \<or>
      list_ex (\<lambda>key. key \<notin> set URL_TEMPLATE_ALLOWED_VARS) (re_names var_ref template))"

definition substitute_url :: "pystr \<Rightarrow> wctx \<Rightarrow> pystr" where
  "substitute_url template ctx =
     re_sub var_ref (\<lambda>key. if key \<in> set URL_TEMPLATE_ALLOWED_VARS then ctx_text ctx key else [])
       (re_sub env_ref (\<lambda>_. []) template)"

section \<open>Subscription files\<close>

text \<open>\<open>int(v)\<close>; the conversion of a float is an argument.\<close>

datatype int_result = IntOk int | IntValueError | IntTypeError | IntOverflow

definition py_int :: "(pystr \<Rightarrow> int_result) \<Rightarrow> pyval \<Rightarrow> int_result" where
  "py_int float_int v =
     (case v of
        PInt i \<Rightarrow> IntOk i
      | PBool b \<Rightarrow> IntOk (if b then 1 else 0)
      | PFloat f \<Rightarrow> float_int f
      | PStr s \<Rightarrow> (case int_of_str s of Some i \<Rightarrow> IntOk i | None \<Rightarrow> IntValueError)
      | _ \<Rightarrow> IntTypeError)"

record webhook_config =
  wc_url :: url_config
  wc_max_deliveries :: int
  wc_max_per_sub :: int
  wc_retry_budget :: int
  wc_retry_per_sub :: int
  wc_total_timeout :: int
  wc_agent_name :: pystr

definition resolve_per_sub_budget :: "pystr option \<Rightarrow> int \<Rightarrow> int" where
  "resolve_per_sub_budget raw budget =
     (case raw of
        Some r \<Rightarrow>
          if strip r \<noteq> []
          then (case int_of_str r of Some n \<Rightarrow> n | None \<Rightarrow> max 0 (budget div 4))
          else (if budget = 0 then 0 else max 1 (budget div 4))
      | None \<Rightarrow> (if budget = 0 then 0 else max 1 (budget div 4)))"

text \<open>\<open>d.get(a) or d.get(b)\<close> on raw values, and the items of a map field as text.\<close>

definition raw_or :: "(pystr \<times> pyval) list \<Rightarrow> pystr \<Rightarrow> pystr \<Rightarrow> pyval" where
  "raw_or d a b = (if truthy (dict_get d a) then get_or_none d a else get_or_none d b)"

definition text_map :: "pyval \<Rightarrow> (pystr \<times> pystr) list" where
  "text_map v = (case v of PDict d \<Rightarrow> map (\<lambda>(k, x). (k, field_text x)) d | _ \<Rightarrow> [])"

definition or_text :: "pystr option \<Rightarrow> pystr \<Rightarrow> pystr" where
  "or_text v dflt = (case or_none v of Some t \<Rightarrow> t | None \<Rightarrow> dflt)"

text \<open>The URL of an enabled subscription: the \<open>url\<close> field, a template over the built-in variables, or
  the value of an environment variable, taken literally.\<close>

definition resolve_url_field ::
  "webhook_config \<Rightarrow> (pystr \<Rightarrow> dns_answer) \<Rightarrow> (pystr \<rightharpoonup> pystr) \<Rightarrow> (pystr \<times> pystr) list \<Rightarrow> pystr option" where
  "resolve_url_field cfg dns env flds =
     (case or_none (dict_get flds ''url'') of
        Some template \<Rightarrow>
          if url_template_has_forbidden_refs template then None
          else if validate_url (wc_url cfg) dns (re_sub var_ref (\<lambda>_. []) template) \<noteq> UrlOk then None
          else Some template
      | None \<Rightarrow>
          (case or_none (dict_get flds ''url-env-var'') of
             None \<Rightarrow> None
           | Some var \<Rightarrow>
               (let url = env_or_empty env var in
                if url = [] \<or> substring ''{{'' url then None
                else if validate_url (wc_url cfg) dns url \<noteq> UrlOk then None
                else Some url)))"

text \<open>A disabled file is listed only. Its placeholder URL has a long dash in the source, outside the
  modelled range of characters.\<close>

definition disabled_sub :: "webhook_config \<Rightarrow> pystr \<Rightarrow> (pystr \<times> pystr) list \<Rightarrow> webhook_sub" where
  "disabled_sub cfg path flds =
     \<lparr>ws_path = path, ws_name = or_text (dict_get flds ''name'') (path_stem path),
      ws_url_template = or_text (dict_get flds ''url'') ''(disabled - url not validated)'',
      ws_enabled = False, ws_signing_secret = None, ws_notify_when = ''on_success'',
      ws_notify_on_kind = [], ws_notify_on_response = [], ws_content_type = ''application/json'',
      ws_description = or_none (dict_get flds ''description''), ws_headers = [], ws_timeout_seconds = 10,
      ws_retries = 0, ws_extract = [], ws_body_template = None, ws_context_template = None,
      ws_backend_id = or_none (dict_get flds ''agent''), ws_model = or_none (dict_get flds ''model''),
      ws_max_concurrent_deliveries = wc_max_per_sub cfg, ws_events = [EVENT_KIND_COMPLETION]\<rparr>"

text \<open>The number fields: \<^const>\<open>None\<close> when the conversion raises something the code does not catch.\<close>

definition int_field :: "(pystr \<Rightarrow> int_result) \<Rightarrow> int \<Rightarrow> int \<Rightarrow> pyval \<Rightarrow> int option" where
  "int_field float_int least dflt v =
     (if v = PNone then Some dflt
      else case py_int float_int v of
        IntOk n \<Rightarrow> Some (max least n)
      | IntValueError \<Rightarrow> Some dflt
      | IntTypeError \<Rightarrow> Some dflt
      | IntOverflow \<Rightarrow> None)"

record parse_env =
  pe_yaml :: "pystr \<Rightarrow> pyval option"
  pe_literal_eval :: "pystr \<Rightarrow> pyval option"
  pe_float_int :: "pystr \<Rightarrow> int_result"
  pe_dns :: "pystr \<Rightarrow> dns_answer"
  pe_environ :: "pystr \<rightharpoonup> pystr"

text \<open>The record of an enabled subscription, from its raw and its textual fields.\<close>

definition make_sub ::
  "parse_env \<Rightarrow> pystr \<Rightarrow> (pystr \<times> pyval) list \<Rightarrow> pystr \<Rightarrow> pystr \<Rightarrow> int \<Rightarrow> int \<Rightarrow> webhook_sub" where
  "make_sub pe path raw body url retries max_del =
     (let flds = map (\<lambda>(k, v). (k, field_text v)) raw;
          listf = (\<lambda>k. parse_list_field (pe_literal_eval pe)
                     (if truthy (dict_get raw k) then get_or_none raw k else PStr []));
          secret = (case or_none (dict_get flds ''signing-secret-env-var'') of
                      Some v \<Rightarrow> Some v | None \<Rightarrow> or_none (dict_get flds ''signing_secret_env_var''));
          timeout = or_text (dict_get flds ''timeout'') []
      in
       \<lparr>ws_path = path, ws_name = or_text (dict_get flds ''name'') (path_stem path),
        ws_url_template = url, ws_enabled = True,
        ws_signing_secret = (case secret of None \<Rightarrow> None | Some v \<Rightarrow> or_none (pe_environ pe v)),
        ws_notify_when =
          (let w = or_text (dict_get flds ''notify-when'') ''on_success''
           in if w \<in> set VALID_NOTIFY_WHEN then w else ''on_success''),
        ws_notify_on_kind = listf ''notify-on-kind'',
        ws_notify_on_response = listf ''notify-on-response'',
        ws_content_type = or_text (dict_get flds ''content-type'') ''application/json'',
        ws_description = or_none (dict_get flds ''description''),
        ws_headers = text_map (get_or_none raw ''headers''),
        ws_timeout_seconds =
          (if timeout = [] then 10
           else case parse_duration timeout of Some n \<Rightarrow> n | None \<Rightarrow> 10),
        ws_retries = retries,
        ws_extract = text_map (get_or_none raw ''extract''),
        ws_body_template =
          (if truthy (dict_get raw ''body'') then Some (strip (str_val (get_or_none raw ''body'')))
           else None),
        ws_context_template = (if body = [] then None else Some body),
        ws_backend_id = or_none (dict_get flds ''agent''),
        ws_model = or_none (dict_get flds ''model''),
        ws_max_concurrent_deliveries = max_del,
        ws_events = normalize_events_field (pe_literal_eval pe) (get_or_none raw ''events'')\<rparr>)"

definition enabled_sub ::
  "webhook_config \<Rightarrow> parse_env \<Rightarrow> pystr \<Rightarrow> (pystr \<times> pyval) list \<Rightarrow> pystr \<Rightarrow> webhook_sub option" where
  "enabled_sub cfg pe path raw body =
     (case (resolve_url_field cfg (pe_dns pe) (pe_environ pe) (map (\<lambda>(k, v). (k, field_text v)) raw),
            int_field (pe_float_int pe) 0 0 (get_or_none raw ''retries''),
            int_field (pe_float_int pe) 1 (wc_max_per_sub cfg)
              (raw_or raw ''max-concurrent-deliveries'' ''max_concurrent_deliveries'')) of
        (Some url, Some retries, Some max_del) \<Rightarrow> Some (make_sub pe path raw body url retries max_del)
      | _ \<Rightarrow> None)"

text \<open>\<open>parse_webhook_file\<close>; \<open>contents\<close> is \<^const>\<open>None\<close> when the file cannot be read. A document that is
  neither empty nor a map makes \<open>.items()\<close> raise.\<close>

definition parse_webhook_file ::
  "webhook_config \<Rightarrow> parse_env \<Rightarrow> pystr \<Rightarrow> pystr option \<Rightarrow> webhook_sub option" where
  "parse_webhook_file cfg pe path contents =
     (case contents of
        None \<Rightarrow> None
      | Some text \<Rightarrow>
          (let parsed =
             (case frontmatter_match text of
                None \<Rightarrow> Some (PDict [], strip text)
              | Some (block, rest) \<Rightarrow> map_option (\<lambda>v. (if truthy (Some v) then v else PDict [], strip rest)) (pe_yaml pe block))
           in case parsed of
                Some (PDict raw, body) \<Rightarrow>
                  (let flds = map (\<lambda>(k, v). (k, field_text v)) raw in
                   if flag_field flds ''enabled'' [''false'', ''no'', ''off'', ''n'', ''0'', []] True
                   then enabled_sub cfg pe path raw body
                   else Some (disabled_sub cfg path flds))
              | _ \<Rightarrow> None))"

section \<open>Rendering\<close>

definition ctx_get :: "wctx \<Rightarrow> pystr \<Rightarrow> pyval \<Rightarrow> pyval" where
  "ctx_get ctx key dflt = (case dict_get ctx key of None \<Rightarrow> dflt | Some v \<Rightarrow> v)"

definition ctx_or_none :: "wctx \<Rightarrow> pystr \<Rightarrow> pyval" where
  "ctx_or_none ctx key = (if truthy (dict_get ctx key) then ctx_get ctx key PNone else PNone)"

text \<open>\<open>json.dumps\<close> with its default \<open>ensure_ascii=True\<close>: everything outside the printable ASCII range
  is escaped; such characters occur inside strings only.\<close>

definition json_dumps_ascii :: "pyval \<Rightarrow> pystr" where
  "json_dumps_ascii v =
     concat (map (\<lambda>c. if (of_char c :: nat) \<ge> 127 then BACKSLASH # ''u00'' @ hex2 (of_char c) else [c]) (json_dumps v))"

definition render_default_envelope :: "pystr \<Rightarrow> wctx \<Rightarrow> pystr" where
  "render_default_envelope agent_name ctx =
     json_dumps_ascii (PDict
       [(''event'', PStr ''agent.prompt.completed''),
        (''agent'', ctx_get ctx ''agent'' (PStr agent_name)),
        (''timestamp'', ctx_get ctx ''timestamp'' (PStr [])),
        (''delivery_id'', ctx_get ctx ''delivery_id'' (PStr [])),
        (''payload'', PDict
          [(''kind'', ctx_get ctx ''kind'' (PStr [])),
           (''session_id'', ctx_get ctx ''session_id'' (PStr [])),
           (''success'', ctx_get ctx ''success'' (PBool False)),
           (''error'', ctx_or_none ctx ''error''),
           (''duration_seconds'', ctx_get ctx ''duration_seconds'' (PFloat ''0.0'')),
           (''response_preview'', ctx_get ctx ''response_preview'' (PStr [])),
           (''model'', ctx_or_none ctx ''model'')])])"

definition render_hook_decision_envelope :: "pystr \<Rightarrow> wctx \<Rightarrow> pystr" where
  "render_hook_decision_envelope agent_name ctx =
     json_dumps_ascii (PDict
       [(''event'', PStr ''hook.decision''),
        (''agent'', ctx_get ctx ''agent'' (PStr agent_name)),
        (''timestamp'', ctx_get ctx ''timestamp'' (PStr [])),
        (''delivery_id'', ctx_get ctx ''delivery_id'' (PStr [])),
        (''payload'', PDict
          [(''session_id'', ctx_get ctx ''session_id'' (PStr [])),
           (''tool'', ctx_get ctx ''tool'' (PStr [])),
           (''decision'', ctx_get ctx ''decision'' (PStr [])),
           (''rule_name'', ctx_get ctx ''rule_name'' (PStr [])),
           (''reason'', ctx_get ctx ''reason'' (PStr [])),
           (''source'', ctx_get ctx ''source'' (PStr [])),
           (''traceparent'', ctx_or_none ctx ''traceparent'')])])"

definition BODY_CAP :: nat where
  "BODY_CAP = 256 * 1024"

definition cap_body :: "pystr \<Rightarrow> nat list" where
  "cap_body body =
     (let bytes = utf8_encode body in
      if length bytes > BODY_CAP then utf8_encode (utf8_decode_ignore (take BODY_CAP bytes)) else bytes)"

definition sanitize_header_value :: "pystr \<Rightarrow> pystr" where
  "sanitize_header_value value = filter (\<lambda>c. c = CHR 0x09 \<or> (of_char c :: nat) \<ge> 32) value"

type_synonym hmac_fun = "pystr \<Rightarrow> nat list \<Rightarrow> pystr"

definition sign_body :: "hmac_fun \<Rightarrow> nat list \<Rightarrow> pystr \<Rightarrow> pystr" where
  "sign_body hmac body secret = ''sha256='' @ hmac secret body"

definition SIGNATURE_HEADER :: pystr where
  "SIGNATURE_HEADER = ''X-Hub-Signature-256''"

definition build_headers ::
  "(pystr \<rightharpoonup> pystr) \<Rightarrow> hmac_fun \<Rightarrow> webhook_sub \<Rightarrow> wctx \<Rightarrow> nat list \<Rightarrow> (pystr \<times> pystr) list" where
  "build_headers env hmac sub ctx body =
     (let custom = fold (\<lambda>(k, v) h. dict_set k (sanitize_header_value (substitute env v ctx)) h) (ws_headers sub)
                     [(''Content-Type'', ws_content_type sub)]
      in case or_none (ws_signing_secret sub) of
           None \<Rightarrow> custom
         | Some secret \<Rightarrow> dict_set SIGNATURE_HEADER (sign_body hmac body secret) custom)"

section \<open>Extraction\<close>

text \<open>A backend maps a prompt and a model to its answer chunks, \<^const>\<open>None\<close> when the call raises or
  times out.\<close>

type_synonym extract_backend = "pystr \<Rightarrow> pystr option \<Rightarrow> pystr list option"

definition run_extraction ::
  "(pystr \<times> extract_backend) list \<Rightarrow> pystr \<Rightarrow> pystr option \<Rightarrow> pystr option \<Rightarrow> pystr \<Rightarrow> pystr option" where
  "run_extraction backends default_id backend_id model prompt =
     (case dict_get backends (or_text backend_id default_id) of
        None \<Rightarrow> None
      | Some run_query \<Rightarrow>
          map_option (\<lambda>chunks. if chunks = [] then [] else strip (join [CHR 0x0A, CHR 0x0A] chunks))
            (run_query prompt model))"

definition run_extractions ::
  "(pystr \<rightharpoonup> pystr) \<Rightarrow> (pystr \<times> extract_backend) list \<Rightarrow> pystr \<Rightarrow> webhook_sub \<Rightarrow> pystr option \<Rightarrow> pystr
   \<Rightarrow> wctx \<Rightarrow> wctx" where
  "run_extractions env backends default_id sub model preview ctx =
     (if ws_extract sub = [] \<or> backends = [] \<or> default_id = [] then ctx
      else
        (let context_text = (case or_none (ws_context_template sub) of
                               Some t \<Rightarrow> substitute env t ctx | None \<Rightarrow> preview);
             ask = (\<lambda>p. run_extraction backends default_id (ws_backend_id sub)
                      (case or_none (ws_model sub) of Some m \<Rightarrow> Some m | None \<Rightarrow> model)
                      (if context_text = [] then p else context_text @ [CHR 0x0A, CHR 0x0A] @ p))
         in fold (\<lambda>(var, p) c. dict_set var (PStr (case ask p of Some r \<Rightarrow> r | None \<Rightarrow> [])) c) (ws_extract sub) ctx))"

section \<open>The first attempt\<close>

datatype wh_action =
    AValidate pystr url_check
  | APost pystr "nat list" "(pystr \<times> pystr) list"
  | ASleep nat
  | ARecord pystr
  | AEvent pystr

datatype post_result = Status nat | PostError | PostCancelled

definition is_retryable_http :: "nat \<Rightarrow> bool" where
  "is_retryable_http code = (code \<in> {408, 429, 500, 502, 503, 504} \<or> (500 \<le> code \<and> code < 600))"

text \<open>What one completed prompt hands to its deliveries.\<close>

record completion =
  cp_source :: pystr
  cp_kind :: pystr
  cp_session_id :: pystr
  cp_success :: bool
  cp_response :: pystr
  cp_duration :: pystr
  cp_error :: "pystr option"
  cp_model :: "pystr option"
  cp_child_traceparent :: "pystr option"

text \<open>What a delivery reads from outside: environment, the two DNS lookups, the backends, the reply,
  the header OpenTelemetry injects, HMAC, a fresh identifier and the time.\<close>

record wh_world =
  ww_env :: "pystr \<rightharpoonup> pystr"
  ww_dns_first :: "pystr \<Rightarrow> dns_answer"
  ww_dns_recheck :: "pystr \<Rightarrow> dns_answer"
  ww_backends :: "(pystr \<times> extract_backend) list"
  ww_default_backend :: pystr
  ww_post :: post_result
  ww_otel :: "pystr option"
  ww_hmac :: hmac_fun
  ww_uuid :: pystr
  ww_now :: pystr

definition response_preview :: "pystr \<Rightarrow> pystr" where
  "response_preview response = take 2048 response"

definition base_context :: "webhook_config \<Rightarrow> wh_world \<Rightarrow> completion \<Rightarrow> wctx" where
  "base_context cfg w c =
     [(''agent'', PStr (wc_agent_name cfg)), (''kind'', PStr (cp_kind c)),
      (''session_id'', PStr (cp_session_id c)), (''success'', PBool (cp_success c)),
      (''error'', PStr (or_text (cp_error c) [])), (''duration_seconds'', PFloat (cp_duration c)),
      (''response_preview'', PStr (response_preview (cp_response c))),
      (''model'', PStr (or_text (cp_model c) [])), (''timestamp'', PStr (ww_now w)),
      (''delivery_id'', PStr (ww_uuid w)), (''source'', PStr (cp_source c))]"

definition with_traceparent :: "pystr option \<Rightarrow> pystr option \<Rightarrow> (pystr \<times> pystr) list \<Rightarrow> (pystr \<times> pystr) list" where
  "with_traceparent otel bare h =
     (let h1 = (case otel of Some tp \<Rightarrow> dict_set ''traceparent'' tp h | None \<Rightarrow> h)
      in if or_none (dict_get h1 ''traceparent'') = None
         then (case or_none bare of Some tp \<Rightarrow> dict_set ''traceparent'' tp h1 | None \<Rightarrow> h1) else h1)"

datatype deliver_outcome =
    Finished
  | NeedsRetry pystr "nat list" "(pystr \<times> pystr) list"
  | DeliverRaised
  | DeliverCancelled

definition http_result :: "nat \<Rightarrow> pystr" where
  "http_result code = ''http_'' @ str_of_nat code"

text \<open>What follows the first reply; \<open>retryable\<close> says whether it may be repeated.\<close>

definition after_first ::
  "webhook_sub \<Rightarrow> pystr \<Rightarrow> nat list \<Rightarrow> (pystr \<times> pystr) list \<Rightarrow> pystr \<Rightarrow> bool \<Rightarrow> wh_action list
   \<Rightarrow> wh_action list \<times> deliver_outcome" where
  "after_first sub url body headers result retryable acts =
     (if result \<noteq> ''success'' \<and> ws_retries sub > 0 \<and> retryable
      then (acts @ [ARecord result], NeedsRetry url body headers)
      else (acts @ [ARecord result, AEvent result], Finished))"

definition deliver :: "webhook_config \<Rightarrow> wh_world \<Rightarrow> webhook_sub \<Rightarrow> completion \<Rightarrow> wh_action list \<times> deliver_outcome" where
  "deliver cfg w sub c =
     (let ctx = base_context cfg w c;
          url = substitute_url (ws_url_template sub) ctx;
          v1 = validate_url (wc_url cfg) (ww_dns_first w) url
      in if url = [] then ([], Finished)
         else if v1 = UrlCheckRaises then ([AValidate url v1], DeliverRaised)
         else if v1 \<noteq> UrlOk then ([AValidate url v1, ARecord ''url_validation_failed''], Finished)
         else
           (let ctx2 = run_extractions (ww_env w) (ww_backends w) (ww_default_backend w) sub (cp_model c)
                         (response_preview (cp_response c)) ctx;
                body = cap_body (case or_none (ws_body_template sub) of
                                   Some t \<Rightarrow> substitute (ww_env w) t ctx2
                                 | None \<Rightarrow> render_default_envelope (wc_agent_name cfg) ctx2);
                headers = with_traceparent (ww_otel w) (cp_child_traceparent c)
                            (build_headers (ww_env w) (ww_hmac w) sub ctx2 body);
                v2 = validate_url (wc_url cfg) (ww_dns_recheck w) url;
                checked = [AValidate url v1, AValidate url v2];
                posted = checked @ [APost url body headers]
            in if v2 = UrlCheckRaises then after_first sub url body headers ''error'' True checked
               else if v2 \<noteq> UrlOk then (checked, Finished)
               else (case ww_post w of
                       PostCancelled \<Rightarrow> (posted, DeliverCancelled)
                     | PostError \<Rightarrow> after_first sub url body headers ''error'' True posted
                     | Status code \<Rightarrow>
                         if code < 400 then after_first sub url body headers ''success'' False posted
                         else after_first sub url body headers (http_result code) (is_retryable_http code) posted)))"

section \<open>The retry chain\<close>

datatype attempt_env =
    CancelSleep
  | CancelAttempt
  | Attempt "pystr \<Rightarrow> dns_answer" post_result

datatype chain_end = ChainDone | ChainCancelled

text \<open>\<open>attempts i\<close> is what happens in attempt number \<open>i\<close>.\<close>

function retry_deliver ::
  "webhook_config \<Rightarrow> (nat \<Rightarrow> attempt_env) \<Rightarrow> pystr \<Rightarrow> nat list \<Rightarrow> (pystr \<times> pystr) list \<Rightarrow> nat \<Rightarrow> nat
   \<Rightarrow> wh_action list \<times> chain_end" where
  "retry_deliver cfg attempts url body headers attempt max_attempts =
     (if attempt < max_attempts then
        (let sleep = ASleep (min (2 ^ (attempt - 1)) 300);
             go = (\<lambda>acts. case retry_deliver cfg attempts url body headers (Suc attempt) max_attempts of
                            (rest, e) \<Rightarrow> (acts @ rest, e))
         in case attempts (Suc attempt) of
              CancelSleep \<Rightarrow> ([sleep], ChainCancelled)
            | CancelAttempt \<Rightarrow> ([sleep, ARecord ''cancelled''], ChainCancelled)
            | Attempt dns reply \<Rightarrow>
                (let v = validate_url (wc_url cfg) dns url;
                     posted = [sleep, AValidate url v, APost url body headers]
                 in if v = UrlCheckRaises then go [sleep, AValidate url v, ARecord ''error'']
                    else if v \<noteq> UrlOk
                    then ([sleep, AValidate url v, ARecord ''url_revalidation_failed''], ChainDone)
                    else (case reply of
                            PostCancelled \<Rightarrow> (posted @ [ARecord ''cancelled''], ChainCancelled)
                          | PostError \<Rightarrow> go (posted @ [ARecord ''error''])
                          | Status code \<Rightarrow>
                              if code < 400 then (posted @ [ARecord ''success'', AEvent ''success''], ChainDone)
                              else if is_retryable_http code then go (posted @ [ARecord (http_result code)])
                              else (posted @ [ARecord (http_result code)], ChainDone))))
      else ([], ChainDone))"
  by pat_completeness auto
termination
  by (relation "measure (\<lambda>(cfg, attempts, url, body, headers, attempt, max_attempts). max_attempts - attempt)") auto

declare retry_deliver.simps [simp del]

text \<open>The body of \<open>_tracked_retry\<close>; \<open>expired\<close> says that the total timeout is what cancelled the chain.\<close>

definition tracked_retry ::
  "webhook_config \<Rightarrow> (nat \<Rightarrow> attempt_env) \<Rightarrow> bool \<Rightarrow> webhook_sub \<Rightarrow> pystr \<Rightarrow> nat list \<Rightarrow> (pystr \<times> pystr) list
   \<Rightarrow> wh_action list" where
  "tracked_retry cfg attempts expired sub url body headers =
     (case retry_deliver cfg attempts url body headers 1 (1 + nat (ws_retries sub)) of
        (acts, e) \<Rightarrow>
          if e = ChainCancelled \<and> wc_total_timeout cfg > 0 \<and> expired then acts @ [ARecord ''timeout_total''] else acts)"

section \<open>Hook decisions\<close>

definition deliver_hook_decision ::
  "webhook_config \<Rightarrow> wh_world \<Rightarrow> webhook_sub \<Rightarrow> wctx \<Rightarrow> wh_action list \<times> deliver_outcome" where
  "deliver_hook_decision cfg w sub ctx =
     (let url = substitute_url (ws_url_template sub) ctx;
          v1 = validate_url (wc_url cfg) (ww_dns_first w) url
      in if url = [] then ([], Finished)
         else if v1 = UrlCheckRaises then ([AValidate url v1], DeliverRaised)
         else if v1 \<noteq> UrlOk then ([AValidate url v1, ARecord ''url_validation_failed''], Finished)
         else
           (let body = cap_body (case or_none (ws_body_template sub) of
                                   Some t \<Rightarrow> substitute (ww_env w) t ctx
                                 | None \<Rightarrow> render_hook_decision_envelope (wc_agent_name cfg) ctx);
                h0 = build_headers (ww_env w) (ww_hmac w) sub ctx body;
                h1 = (if truthy (dict_get ctx ''traceparent'')
                      then dict_set ''traceparent'' (str_val (ctx_get ctx ''traceparent'' PNone)) h0 else h0);
                headers = (if or_none (dict_get h1 ''traceparent'') = None
                           then (case ww_otel w of Some tp \<Rightarrow> dict_set ''traceparent'' tp h1 | None \<Rightarrow> h1) else h1);
                v2 = validate_url (wc_url cfg) (ww_dns_recheck w) url;
                checked = [AValidate url v1, AValidate url v2];
                posted = checked @ [APost url body headers]
            in if v2 = UrlCheckRaises then (checked @ [ARecord ''error''], Finished)
               else if v2 \<noteq> UrlOk then (checked, Finished)
               else (case ww_post w of
                       PostCancelled \<Rightarrow> (posted, DeliverCancelled)
                     | PostError \<Rightarrow> (posted @ [ARecord ''error''], Finished)
                     | Status code \<Rightarrow>
                         (posted @ [ARecord (if code < 400 then ''success'' else http_result code)], Finished))))"

section \<open>Events\<close>

definition webhook_event :: "pystr \<Rightarrow> pystr \<Rightarrow> pystr \<Rightarrow> int \<Rightarrow> pystr \<times> payload" where
  "webhook_event sub_name url result duration_ms =
     (let host = (case urlsplit url of None \<Rightarrow> [] | Some parts \<Rightarrow> url_hostname parts);
          head = [(''name'', PStr sub_name), (''url_host'', PStr host)]
      in if result = ''success''
         then (''webhook.delivered'', head @ [(''status_code'', PInt 200), (''duration_ms'', PInt duration_ms)])
         else if startswith result ''http_''
         then (let code = (case int_of_str (drop 5 result) of Some n \<Rightarrow> n | None \<Rightarrow> 0)
               in (''webhook.failed'',
                   head @ [(''reason'', PStr ''http_error''), (''duration_ms'', PInt duration_ms)] @
                   (if 100 \<le> code \<and> code \<le> 599 then [(''status_code'', PInt code)] else [])))
         else (''webhook.failed'',
               head @ [(''reason'', PStr (if result \<in> {''timeout_total'', ''cancelled''} then ''timeout''
                          else if result \<in> {''url_validation_failed'', ''url_revalidation_failed''} then ''dns_denied''
                          else ''exception'')),
                (''duration_ms'', PInt duration_ms), (''error'', PStr result)]))"

definition publish_webhook_event ::
  "(nat \<Rightarrow> pystr) \<Rightarrow> pystr \<Rightarrow> pystr \<Rightarrow> pystr \<Rightarrow> int \<Rightarrow> event_stream \<Rightarrow> publish_result \<times> event_stream" where
  "publish_webhook_event clock sub_name url result duration_ms s =
     (case webhook_event sub_name url result (max 0 duration_ms) of
        (ty, p) \<Rightarrow> publish clock ty p None 1 s)"

section \<open>Lemmas\<close>

lemma var_ref_shorter: "var_ref s = Some (name, rest) \<Longrightarrow> length rest < length s"
proof -
  assume a: "var_ref s = Some (name, rest)"
  then have p: "startswith s ''{{''" and r: "rest = drop 2 (dropWhile re_word (drop 2 s))"
    by (auto simp: var_ref_def Let_def split: if_splits)
  have "length (dropWhile re_word (drop 2 s)) \<le> length s - 2"
    using length_dropWhile_le [of re_word "drop 2 s"] by simp
  moreover have "length s \<ge> 2" using p by (auto simp: startswith_prefix dest: prefix_length_le)
  ultimately show ?thesis using r by simp
qed

text \<open>A substitution depends on its replacement function at the names it finds only.\<close>

lemma re_sub_agree:
  assumes "\<And>k. k \<in> set (re_names m s) \<Longrightarrow> f k = g k"
  shows "re_sub m f s = re_sub m g s"
  using assms
proof (induction "length s" arbitrary: s rule: less_induct)
  case less
  show ?case
  proof (cases "m s")
    case None
    show ?thesis
    proof (cases s)
      case Nil
      with None show ?thesis by (simp add: re_sub.simps)
    next
      case (Cons c cs)
      have "re_names m s = re_names m cs" using None Cons by (simp add: re_names.simps [of m "c # cs"])
      then have "re_sub m f cs = re_sub m g cs" using less Cons by simp
      with None Cons show ?thesis by (simp add: re_sub.simps [of m _ "c # cs"])
    qed
  next
    case (Some nr)
    obtain name rest where nr: "nr = (name, rest)" by (cases nr)
    show ?thesis
    proof (cases "length rest < length s")
      case True
      have "re_sub m f rest = re_sub m g rest"
        using less True Some nr by (simp add: re_names.simps [of m s])
      moreover have "f name = g name" using less(2) Some nr True by (simp add: re_names.simps [of m s])
      ultimately show ?thesis using Some nr True by (simp add: re_sub.simps [of m _ s])
    qed (use Some nr in \<open>simp add: re_sub.simps [of m _ s]\<close>)
  qed
qed

text \<open>Text without an opening pair of braces is left alone.\<close>

lemma no_braces_no_ref: "\<not> startswith s ''{{'' \<Longrightarrow> var_ref s = None \<and> env_ref s = None"
proof -
  assume a: "\<not> startswith s ''{{''"
  then have "\<not> startswith s ''{{env.''" by (auto simp: startswith_prefix prefix_def)
  with a show ?thesis by (simp add: var_ref_def env_ref_def)
qed

lemma re_sub_verbatim:
  assumes "\<And>i. m (drop i s) = None"
  shows "re_sub m f s = s"
  using assms
proof (induction s)
  case Nil
  from Nil [of 0] show ?case by (simp add: re_sub.simps)
next
  case (Cons c s)
  have "m (c # s) = None" using Cons.prems [of 0] by simp
  moreover have "m (drop i s) = None" for i using Cons.prems [of "Suc i"] by simp
  ultimately show ?case using Cons.IH by (simp add: re_sub.simps [of m f "c # s"])
qed

lemma substring_drop: "startswith (drop i s) p \<Longrightarrow> substring p s"
proof (induction s arbitrary: i)
  case Nil
  then show ?case by (simp add: substring_def startswith_def)
next
  case (Cons c s)
  show ?case
  proof (cases i)
    case 0
    with Cons.prems show ?thesis by (simp add: substring_def)
  next
    case (Suc j)
    with Cons.prems Cons.IH [of j] show ?thesis by (auto simp: substring_def)
  qed
qed

lemma substitute_url_verbatim:
  assumes "\<not> substring ''{{'' t"
  shows "substitute_url t ctx = t"
proof -
  have "env_ref (drop i t) = None \<and> var_ref (drop i t) = None" for i
    using no_braces_no_ref [of "drop i t"] substring_drop [of i t "''{{''"] assms by blast
  then show ?thesis by (simp add: substitute_url_def re_sub_verbatim)
qed

lemma cap_body_length: "length (cap_body body) \<le> BODY_CAP"
proof (cases "length (utf8_encode body) > BODY_CAP")
  case True
  obtain k where "utf8_decode_ignore (take BODY_CAP (utf8_encode body)) = take k body"
    "length (utf8_encode (take k body)) \<le> BODY_CAP" using utf8_cut by blast
  with True show ?thesis by (simp add: cap_body_def)
qed (simp add: cap_body_def)

lemma sanitize_clean: "c \<in> set (sanitize_header_value v) \<Longrightarrow> c = CHR 0x09 \<or> (of_char c :: nat) \<ge> 32"
  by (auto simp: sanitize_header_value_def)

text \<open>Where a header value can come from.\<close>

lemma custom_headers:
  "(k, v) \<in> set (fold (\<lambda>(k, v) h. dict_set k (sanitize_header_value (substitute env v ctx)) h) hs h0) \<Longrightarrow>
   (k, v) \<in> set h0 \<or> (\<exists>t. v = sanitize_header_value t)"
proof (induction hs arbitrary: h0)
  case (Cons x hs)
  obtain k' v' where x: "x = (k', v')" by (cases x)
  from Cons.IH [of "dict_set k' (sanitize_header_value (substitute env v' ctx)) h0"] Cons.prems
  have "(k, v) \<in> set (dict_set k' (sanitize_header_value (substitute env v' ctx)) h0) \<or> (\<exists>t. v = sanitize_header_value t)"
    by (simp add: x)
  with set_dict_set [of k' "sanitize_header_value (substitute env v' ctx)" h0] show ?case by auto
qed simp

lemma build_headers_set:
  assumes "(k, v) \<in> set (build_headers env hmac sub ctx body)"
  shows "(k, v) = (''Content-Type'', ws_content_type sub) \<or> (\<exists>t. v = sanitize_header_value t) \<or> k = SIGNATURE_HEADER"
proof -
  let ?h = "fold (\<lambda>(k, v) h. dict_set k (sanitize_header_value (substitute env v ctx)) h) (ws_headers sub)
    [(''Content-Type'', ws_content_type sub)]"
  have "(k, v) \<in> set ?h \<or> k = SIGNATURE_HEADER"
    using assms subsetD [OF set_dict_set [of SIGNATURE_HEADER _ ?h]]
    by (fastforce simp: build_headers_def Let_def split: option.splits)
  then show ?thesis
    using custom_headers [of k v env ctx "ws_headers sub" "[(''Content-Type'', ws_content_type sub)]"] by auto
qed

lemma with_traceparent_set:
  "(k, v) \<in> set (with_traceparent otel bare h) \<Longrightarrow> (k, v) \<in> set h \<or> k = ''traceparent''"
  using set_dict_set [of "''traceparent''" _ h]
    subsetD [OF set_dict_set [of "''traceparent''" _ "dict_set ''traceparent'' _ h"]]
  by (fastforce simp: with_traceparent_def Let_def split: option.splits if_splits)

lemma with_traceparent_get:
  "k \<noteq> ''traceparent'' \<Longrightarrow> dict_get (with_traceparent otel bare h) k = dict_get h k"
  by (simp add: with_traceparent_def Let_def split: option.splits)

section \<open>Properties of one delivery\<close>

text \<open>The whole life of one delivery: the first attempt and, when it asks for one and it is admitted, the
  retry chain.\<close>

definition full_delivery ::
  "webhook_config \<Rightarrow> wh_world \<Rightarrow> (nat \<Rightarrow> attempt_env) \<Rightarrow> bool \<Rightarrow> bool \<Rightarrow> webhook_sub \<Rightarrow> completion \<Rightarrow> wh_action list" where
  "full_delivery cfg w attempts expired admitted sub c =
     (case deliver cfg w sub c of
        (acts, NeedsRetry url body headers) \<Rightarrow>
          acts @ (if admitted then tracked_retry cfg attempts expired sub url body headers else [])
      | (acts, _) \<Rightarrow> acts)"

text \<open>Every request directly follows a successful check of its URL.\<close>

fun posts_checked :: "wh_action \<Rightarrow> wh_action list \<Rightarrow> bool" where
  "posts_checked prev [] = True"
| "posts_checked prev (a # as) =
     ((case a of APost url _ _ \<Rightarrow> prev = AValidate url UrlOk | _ \<Rightarrow> True) \<and> posts_checked a as)"

definition posts_of :: "wh_action list \<Rightarrow> (pystr \<times> nat list \<times> (pystr \<times> pystr) list) list" where
  "posts_of acts = List.map_filter (\<lambda>a. case a of APost u b h \<Rightarrow> Some (u, b, h) | _ \<Rightarrow> None) acts"

definition slept :: "wh_action list \<Rightarrow> nat" where
  "slept acts = sum_list (map (\<lambda>a. case a of ASleep n \<Rightarrow> n | _ \<Rightarrow> 0) acts)"

definition events_of :: "wh_action list \<Rightarrow> pystr list" where
  "events_of acts = List.map_filter (\<lambda>a. case a of AEvent r \<Rightarrow> Some r | _ \<Rightarrow> None) acts"

definition records_of :: "wh_action list \<Rightarrow> pystr list" where
  "records_of acts = List.map_filter (\<lambda>a. case a of ARecord r \<Rightarrow> Some r | _ \<Rightarrow> None) acts"

lemma action_lists [simp]:
  "posts_of [] = []" "posts_of (a # as) = (case a of APost u b h \<Rightarrow> [(u, b, h)] | _ \<Rightarrow> []) @ posts_of as"
  "slept [] = 0" "slept (a # as) = (case a of ASleep n \<Rightarrow> n | _ \<Rightarrow> 0) + slept as"
  "events_of [] = []" "events_of (a # as) = (case a of AEvent r \<Rightarrow> [r] | _ \<Rightarrow> []) @ events_of as"
  "records_of [] = []" "records_of (a # as) = (case a of ARecord r \<Rightarrow> [r] | _ \<Rightarrow> []) @ records_of as"
  by (simp_all add: posts_of_def slept_def events_of_def records_of_def List.map_filter_def split: wh_action.splits)

lemma action_append [simp]:
  "posts_of (as @ bs) = posts_of as @ posts_of bs" "slept (as @ bs) = slept as + slept bs"
  "events_of (as @ bs) = events_of as @ events_of bs" "records_of (as @ bs) = records_of as @ records_of bs"
  by (induction as) simp_all

lemma posts_checked_append:
  "posts_checked p (as @ bs) \<longleftrightarrow> posts_checked p as \<and> posts_checked (last (p # as)) bs"
  by (induction p as rule: posts_checked.induct) (auto split: wh_action.splits)

text \<open>The URL, body and headers of the first attempt.\<close>

definition delivery_url :: "webhook_config \<Rightarrow> wh_world \<Rightarrow> webhook_sub \<Rightarrow> completion \<Rightarrow> pystr" where
  "delivery_url cfg w sub c = substitute_url (ws_url_template sub) (base_context cfg w c)"

definition delivery_request ::
  "webhook_config \<Rightarrow> wh_world \<Rightarrow> webhook_sub \<Rightarrow> completion \<Rightarrow> nat list \<times> (pystr \<times> pystr) list" where
  "delivery_request cfg w sub c =
     (let ctx2 = run_extractions (ww_env w) (ww_backends w) (ww_default_backend w) sub (cp_model c)
                   (response_preview (cp_response c)) (base_context cfg w c);
          body = cap_body (case or_none (ws_body_template sub) of
                             Some t \<Rightarrow> substitute (ww_env w) t ctx2
                           | None \<Rightarrow> render_default_envelope (wc_agent_name cfg) ctx2)
      in (body, with_traceparent (ww_otel w) (cp_child_traceparent c) (build_headers (ww_env w) (ww_hmac w) sub ctx2 body)))"

lemma deliver_eq:
  "deliver cfg w sub c =
     (let url = delivery_url cfg w sub c; (body, headers) = delivery_request cfg w sub c;
          v1 = validate_url (wc_url cfg) (ww_dns_first w) url; v2 = validate_url (wc_url cfg) (ww_dns_recheck w) url;
          checked = [AValidate url v1, AValidate url v2]; posted = checked @ [APost url body headers]
      in if url = [] then ([], Finished)
         else if v1 = UrlCheckRaises then ([AValidate url v1], DeliverRaised)
         else if v1 \<noteq> UrlOk then ([AValidate url v1, ARecord ''url_validation_failed''], Finished)
         else if v2 = UrlCheckRaises then after_first sub url body headers ''error'' True checked
         else if v2 \<noteq> UrlOk then (checked, Finished)
         else (case ww_post w of
                 PostCancelled \<Rightarrow> (posted, DeliverCancelled)
               | PostError \<Rightarrow> after_first sub url body headers ''error'' True posted
               | Status code \<Rightarrow>
                   if code < 400 then after_first sub url body headers ''success'' False posted
                   else after_first sub url body headers (http_result code) (is_retryable_http code) posted))"
  unfolding deliver_def delivery_url_def delivery_request_def Let_def prod.case by (rule refl)

lemma after_first_lists:
  "fst (after_first sub url body headers r rt acts) = acts @ ARecord r # (if r \<noteq> ''success'' \<and> ws_retries sub > 0 \<and> rt then [] else [AEvent r])"
  "snd (after_first sub url body headers r rt acts) = (if r \<noteq> ''success'' \<and> ws_retries sub > 0 \<and> rt then NeedsRetry url body headers else Finished)"
  by (simp_all add: after_first_def)

lemma deliver_checked: "posts_checked (ASleep 0) (fst (deliver cfg w sub c))"
  by (simp add: deliver_eq Let_def after_first_lists split: prod.split post_result.split)

lemma deliver_posts:
  "posts_of (fst (deliver cfg w sub c)) = [] \<or>
   posts_of (fst (deliver cfg w sub c)) = [(delivery_url cfg w sub c, delivery_request cfg w sub c)] \<and>
   validate_url (wc_url cfg) (ww_dns_first w) (delivery_url cfg w sub c) = UrlOk \<and>
   validate_url (wc_url cfg) (ww_dns_recheck w) (delivery_url cfg w sub c) = UrlOk"
  by (simp add: deliver_eq Let_def after_first_lists split: prod.split post_result.split)

lemma deliver_slept: "slept (fst (deliver cfg w sub c)) = 0"
  by (simp add: deliver_eq Let_def after_first_lists split: prod.split post_result.split)

lemma deliver_retry:
  "snd (deliver cfg w sub c) = NeedsRetry url body headers \<Longrightarrow>
   url = delivery_url cfg w sub c \<and> (body, headers) = delivery_request cfg w sub c \<and> ws_retries sub > 0 \<and>
   validate_url (wc_url cfg) (ww_dns_first w) url = UrlOk \<and>
   events_of (fst (deliver cfg w sub c)) = [] \<and> ''success'' \<notin> set (records_of (fst (deliver cfg w sub c)))"
  by (auto simp: deliver_eq Let_def after_first_lists http_result_def split: prod.splits post_result.splits if_splits)

text \<open>The retry chain: each attempt sleeps at most five minutes, checks the URL and sends the same
  request; it stops at the first success.\<close>

definition chain_ok :: "pystr \<Rightarrow> nat list \<Rightarrow> (pystr \<times> pystr) list \<Rightarrow> nat \<Rightarrow> wh_action list \<Rightarrow> bool" where
  "chain_ok url body headers n acts =
     ((\<forall>p. posts_checked p acts) \<and> set (posts_of acts) \<subseteq> {(url, body, headers)} \<and>
      length (posts_of acts) \<le> n \<and> slept acts \<le> 300 * n \<and>
      events_of acts = (if ''success'' \<in> set (records_of acts) then [''success''] else []))"

lemma http_result_neq [simp]: "http_result code \<noteq> ''success''" "''success'' \<noteq> http_result code"
  by (simp_all add: http_result_def)

lemma chain_ok_step:
  assumes "chain_ok url body headers n rest" "k \<le> 300" "r \<noteq> ''success''"
    and "acts = [ASleep k, AValidate url UrlCheckRaises, ARecord r] \<or>
      acts = [ASleep k, AValidate url UrlOk, APost url body headers, ARecord r]"
  shows "chain_ok url body headers (Suc n) (acts @ rest)"
  using assms by (auto simp: chain_ok_def posts_checked_append)

lemma chain_ok_mono: "chain_ok url body headers n acts \<Longrightarrow> n \<le> n' \<Longrightarrow> chain_ok url body headers n' acts"
  by (auto simp: chain_ok_def)

lemma retry_deliver_step:
  fixes cfg attempts url body headers
  assumes "a < m"
  defines "rest \<equiv> fst (retry_deliver cfg attempts url body headers (Suc a) m)"
  shows "chain_ok url body headers 1 (fst (retry_deliver cfg attempts url body headers a m)) \<or>
    (\<exists>acts k r. fst (retry_deliver cfg attempts url body headers a m) = acts @ rest \<and> k \<le> 300 \<and> r \<noteq> ''success'' \<and>
      (acts = [ASleep k, AValidate url UrlCheckRaises, ARecord r] \<or>
       acts = [ASleep k, AValidate url UrlOk, APost url body headers, ARecord r]))"
proof (cases "attempts (Suc a)")
  case (Attempt dns reply)
  define v where "v = validate_url (wc_url cfg) dns url"
  note simps = retry_deliver.simps [of cfg attempts url body headers a m] rest_def split_def Let_def
  consider "v = UrlCheckRaises" | "v \<noteq> UrlCheckRaises" "v \<noteq> UrlOk" | "v = UrlOk" by blast
  then show ?thesis
  proof cases
    case 1
    then show ?thesis using Attempt assms(1) v_def [symmetric] by (intro disjI2) (simp add: simps)
  next
    case 2
    then show ?thesis using Attempt assms(1) v_def [symmetric] by (simp add: simps chain_ok_def)
  next
    case 3
    show ?thesis
    proof (cases reply)
      case (Status code)
      with 3 show ?thesis using Attempt assms(1) v_def [symmetric]
        by (cases "is_retryable_http code") (simp_all add: simps chain_ok_def)
    next
      case PostError
      with 3 show ?thesis using Attempt assms(1) v_def [symmetric] by (intro disjI2) (simp add: simps)
    next
      case PostCancelled
      with 3 show ?thesis using Attempt assms(1) v_def [symmetric] by (simp add: simps chain_ok_def)
    qed
  qed
qed (use assms(1) in \<open>simp_all add: retry_deliver.simps [of cfg attempts url body headers a m] chain_ok_def Let_def\<close>)

lemma retry_deliver_ok:
  "chain_ok url body headers (m - a) (fst (retry_deliver cfg attempts url body headers a m))"
proof (induction "m - a" arbitrary: a)
  case 0
  then show ?case by (simp add: retry_deliver.simps chain_ok_def)
next
  case (Suc n)
  then have am: "a < m" and n: "n = m - Suc a" by simp_all
  have rest: "chain_ok url body headers n (fst (retry_deliver cfg attempts url body headers (Suc a) m))"
    using Suc.hyps(1) [of "Suc a"] n by simp
  from retry_deliver_step [OF am, of url body headers cfg attempts] show ?case
  proof (elim disjE exE conjE)
    assume "chain_ok url body headers 1 (fst (retry_deliver cfg attempts url body headers a m))"
    then show ?thesis using chain_ok_mono Suc.hyps(2) by (metis One_nat_def Suc_le_mono le0)
  qed (use chain_ok_step [OF rest] Suc.hyps(2) in metis)+
qed

lemma delivery_request_body: "length (fst (delivery_request cfg w sub c)) \<le> BODY_CAP"
  by (simp add: delivery_request_def Let_def cap_body_length)

lemma delivery_request_signed:
  assumes "or_none (ws_signing_secret sub) = Some secret"
  shows "dict_get (snd (delivery_request cfg w sub c)) SIGNATURE_HEADER =
    Some (''sha256='' @ ww_hmac w secret (fst (delivery_request cfg w sub c)))"
proof -
  have "SIGNATURE_HEADER \<noteq> ''traceparent''" by (simp add: SIGNATURE_HEADER_def)
  with assms show ?thesis
    by (simp add: delivery_request_def Let_def with_traceparent_get build_headers_def sign_body_def)
qed

lemma delivery_request_headers:
  assumes "(k, v) \<in> set (snd (delivery_request cfg w sub c))" "ch \<in> set v"
    and "k \<noteq> SIGNATURE_HEADER" "k \<noteq> ''traceparent''" "(k, v) \<noteq> (''Content-Type'', ws_content_type sub)"
  shows "ch = CHR 0x09 \<or> (of_char ch :: nat) \<ge> 32"
proof -
  have "\<exists>t. v = sanitize_header_value t"
    using with_traceparent_set [OF assms(1) [unfolded delivery_request_def Let_def snd_conv]] assms(3-5)
      build_headers_set by blast
  then show ?thesis using assms(2) sanitize_clean by blast
qed

lemma tracked_retry_ok: "chain_ok url body headers (nat (ws_retries sub)) (tracked_retry cfg attempts expired sub url body headers)"
  using retry_deliver_ok [of url body headers "1 + nat (ws_retries sub)" 1 cfg attempts]
  by (auto simp: tracked_retry_def split_def chain_ok_def posts_checked_append)

text \<open>A delivery is its first attempt, followed by a chain when that asks for one and it is admitted.\<close>

lemma full_delivery_split:
  obtains rest where "full_delivery cfg w attempts expired admitted sub c = fst (deliver cfg w sub c) @ rest"
    and "rest = [] \<or> (\<exists>url body headers. snd (deliver cfg w sub c) = NeedsRetry url body headers \<and>
      chain_ok url body headers (nat (ws_retries sub)) rest)"
proof (cases "snd (deliver cfg w sub c)")
  case (NeedsRetry url body headers)
  show ?thesis
    by (rule that [of "if admitted then tracked_retry cfg attempts expired sub url body headers else []"])
      (use NeedsRetry tracked_retry_ok in \<open>auto simp: full_delivery_def split_def\<close>)
qed (rule that [of "[]"]; simp add: full_delivery_def split_def)+

lemma full_delivery_post:
  assumes "(url, body, headers) \<in> set (posts_of (full_delivery cfg w attempts expired admitted sub c))"
  shows "url = delivery_url cfg w sub c \<and> (body, headers) = delivery_request cfg w sub c \<and>
    validate_url (wc_url cfg) (ww_dns_first w) url = UrlOk"
proof -
  obtain rest where full: "full_delivery cfg w attempts expired admitted sub c = fst (deliver cfg w sub c) @ rest"
    and rest: "rest = [] \<or> (\<exists>url body headers. snd (deliver cfg w sub c) = NeedsRetry url body headers \<and>
      chain_ok url body headers (nat (ws_retries sub)) rest)" by (rule full_delivery_split)
  from assms full consider "(url, body, headers) \<in> set (posts_of (fst (deliver cfg w sub c)))"
    | "(url, body, headers) \<in> set (posts_of rest)" by auto
  then show ?thesis
  proof cases
    case 1
    then show ?thesis using deliver_posts [of cfg w sub c] by auto
  next
    case 2
    then obtain u b h where "snd (deliver cfg w sub c) = NeedsRetry u b h" "(url, body, headers) = (u, b, h)"
      using rest by (auto simp: chain_ok_def)
    then show ?thesis using deliver_retry by fastforce
  qed
qed

lemma full_delivery_checked: "posts_checked (ASleep 0) (full_delivery cfg w attempts expired admitted sub c)"
proof -
  obtain rest where full: "full_delivery cfg w attempts expired admitted sub c = fst (deliver cfg w sub c) @ rest"
    and rest: "rest = [] \<or> (\<exists>url body headers. snd (deliver cfg w sub c) = NeedsRetry url body headers \<and>
      chain_ok url body headers (nat (ws_retries sub)) rest)" by (rule full_delivery_split)
  have "posts_checked p rest" for p using rest by (auto simp: chain_ok_def)
  then show ?thesis by (simp add: full posts_checked_append deliver_checked)
qed

text \<open>C30: Every request of a delivery, first attempt or retry, is sent to the URL the template gives for the
  built-in variables alone, directly after a check of that URL that succeeded; it carries at most
  256 KiB, the signature, when a secret is set, is computed over exactly the bytes sent, and no custom
  header carries a control character other than a tab.\<close>

theorem delivery_requests_guarded:
  assumes acts: "acts = full_delivery cfg w attempts expired admitted sub c"
    and post: "(url, body, headers) \<in> set (posts_of acts)"
  shows "posts_checked (ASleep 0) acts \<and>
    url = substitute_url (ws_url_template sub) (base_context cfg w c) \<and>
    validate_url (wc_url cfg) (ww_dns_first w) url = UrlOk \<and>
    length body \<le> 256 * 1024 \<and>
    (case or_none (ws_signing_secret sub) of
       None \<Rightarrow> True
     | Some secret \<Rightarrow> dict_get headers SIGNATURE_HEADER = Some (''sha256='' @ ww_hmac w secret body)) \<and>
    list_all (\<lambda>(k, v). k \<in> {SIGNATURE_HEADER, ''traceparent''} \<or> (k, v) = (''Content-Type'', ws_content_type sub) \<or>
      list_all (\<lambda>ch. ch = CHR 0x09 \<or> (of_char ch :: nat) \<ge> 32) v) headers"
proof -
  have r: "url = delivery_url cfg w sub c" "body = fst (delivery_request cfg w sub c)"
    "headers = snd (delivery_request cfg w sub c)" "validate_url (wc_url cfg) (ww_dns_first w) url = UrlOk"
    using full_delivery_post [OF post [unfolded acts]] by (auto simp: prod_eq_iff)
  have "length body \<le> 256 * 1024" using delivery_request_body [of cfg w sub c] r(2) by (simp add: BODY_CAP_def)
  moreover have "list_all (\<lambda>(k, v). k \<in> {SIGNATURE_HEADER, ''traceparent''} \<or> (k, v) = (''Content-Type'', ws_content_type sub) \<or>
      list_all (\<lambda>ch. ch = CHR 0x09 \<or> (of_char ch :: nat) \<ge> 32) v) headers"
    using delivery_request_headers [of _ _ cfg w sub c] unfolding list_all_iff r(3) by blast
  moreover have "case or_none (ws_signing_secret sub) of None \<Rightarrow> True
     | Some secret \<Rightarrow> dict_get headers SIGNATURE_HEADER = Some (''sha256='' @ ww_hmac w secret body)"
    unfolding r(2,3) using delivery_request_signed [of sub _ cfg w c] by (auto split: option.split)
  ultimately show ?thesis using r(1,4) full_delivery_checked acts by (simp add: delivery_url_def)
qed

definition demo_wh_cfg :: webhook_config where
  "demo_wh_cfg = \<lparr>wc_url = \<lparr>uc_allowed_hosts = [], uc_allow_loopback = False\<rparr>, wc_max_deliveries = 50,
     wc_max_per_sub = 10, wc_retry_budget = 1000, wc_retry_per_sub = 250, wc_total_timeout = 300,
     wc_agent_name = ''iris''\<rparr>"

definition demo_sub :: webhook_sub where
  "demo_sub = \<lparr>ws_path = ''/w/a.md'', ws_name = ''a'', ws_url_template = ''http://h/{{kind}}'', ws_enabled = True,
     ws_signing_secret = Some ''k'', ws_notify_when = ''always'', ws_notify_on_kind = [], ws_notify_on_response = [],
     ws_content_type = ''text/plain'', ws_description = None, ws_headers = [], ws_timeout_seconds = 10,
     ws_retries = 2, ws_extract = [], ws_body_template = Some ''ok'', ws_context_template = None,
     ws_backend_id = None, ws_model = None, ws_max_concurrent_deliveries = 1, ws_events = [''completion'']\<rparr>"

definition demo_world :: "post_result \<Rightarrow> wh_world" where
  "demo_world reply = \<lparr>ww_env = Map.empty, ww_dns_first = (\<lambda>_. DnsAddrs []), ww_dns_recheck = (\<lambda>_. DnsAddrs []),
     ww_backends = [], ww_default_backend = [], ww_post = reply, ww_otel = None, ww_hmac = (\<lambda>k b. ''mac''),
     ww_uuid = ''u'', ww_now = ''t''\<rparr>"

definition demo_completion :: completion where
  "demo_completion = \<lparr>cp_source = ''s'', cp_kind = ''a2a'', cp_session_id = ''1'', cp_success = True,
     cp_response = [], cp_duration = ''0.1'', cp_error = None, cp_model = None, cp_child_traceparent = None\<rparr>"

lemmas demo_wh_defs = demo_wh_cfg_def demo_sub_def demo_world_def demo_completion_def

lemma demo_url: "delivery_url demo_wh_cfg (demo_world reply) demo_sub demo_completion = ''http://h/a2a''"
  by code_simp

lemma demo_check: "validate_url (wc_url demo_wh_cfg) (\<lambda>_. DnsAddrs []) ''http://h/a2a'' = UrlOk"
  by code_simp

lemma demo_request: "delivery_request demo_wh_cfg (demo_world reply) demo_sub demo_completion =
    ([111, 107], [(''Content-Type'', ''text/plain''), (SIGNATURE_HEADER, ''sha256=mac'')])"
proof -
  have b: "substitute Map.empty ''ok'' ctx = ''ok''" for ctx
    by (simp add: substitute_def resolve_env_vars_def re_sub.simps env_ref_def var_ref_def startswith_def)
  have "cap_body ''ok'' = [111, 107]" by (simp add: cap_body_def BODY_CAP_def utf8_encode_def utf8_char_def)
  then show ?thesis
    by (simp add: delivery_request_def demo_wh_defs run_extractions_def or_none_def b build_headers_def
        with_traceparent_def sign_body_def SIGNATURE_HEADER_def)
qed

lemma demo_sel:
  "ww_post (demo_world reply) = reply" "ww_dns_first (demo_world reply) = (\<lambda>_. DnsAddrs [])"
  "ww_dns_recheck (demo_world reply) = (\<lambda>_. DnsAddrs [])" "ws_retries demo_sub = 2"
  by (simp_all add: demo_world_def demo_sub_def)

lemma demo_deliver:
  "deliver demo_wh_cfg (demo_world (Status 503)) demo_sub demo_completion =
     (let h = [(''Content-Type'', ''text/plain''), (SIGNATURE_HEADER, ''sha256=mac'')]; u = ''http://h/a2a''
      in ([AValidate u UrlOk, AValidate u UrlOk, APost u [111, 107] h, ARecord (http_result 503)], NeedsRetry u [111, 107] h))"
  by (simp add: deliver_eq demo_url demo_request demo_sel demo_check Let_def after_first_def is_retryable_http_def)

lemma demo_delivery:
  "full_delivery demo_wh_cfg (demo_world (Status 503)) (\<lambda>i. Attempt (\<lambda>_. DnsAddrs []) (Status 200)) False True demo_sub demo_completion =
     (let h = [(''Content-Type'', ''text/plain''), (SIGNATURE_HEADER, ''sha256=mac'')]; u = ''http://h/a2a''
      in [AValidate u UrlOk, AValidate u UrlOk, APost u [111, 107] h, ARecord (http_result 503),
          ASleep 1, AValidate u UrlOk, APost u [111, 107] h, ARecord ''success'', AEvent ''success''])"
  by (simp add: full_delivery_def demo_deliver Let_def tracked_retry_def retry_deliver.simps demo_sel demo_check)

abbreviation demo_acts :: "wh_action list" where
  "demo_acts \<equiv> full_delivery demo_wh_cfg (demo_world (Status 503)) (\<lambda>i. Attempt (\<lambda>_. DnsAddrs []) (Status 200)) False True
     demo_sub demo_completion"

theorem delivery_requests_guarded_witness:
  "posts_checked (ASleep 0) demo_acts \<and>
   ''http://h/a2a'' = substitute_url (ws_url_template demo_sub) (base_context demo_wh_cfg (demo_world (Status 503)) demo_completion) \<and>
   validate_url (wc_url demo_wh_cfg) (ww_dns_first (demo_world (Status 503))) ''http://h/a2a'' = UrlOk"
proof -
  have "(''http://h/a2a'', [111, 107], [(''Content-Type'', ''text/plain''), (SIGNATURE_HEADER, ''sha256=mac'')]) \<in> set (posts_of demo_acts)"
    by (simp add: demo_delivery Let_def)
  from delivery_requests_guarded [OF refl this] show ?thesis by blast
qed

text \<open>C31: A delivery ends after at most one request more than its configured retries, having slept at
  most five minutes before each, whatever the receiver, DNS and the backends do.\<close>

theorem delivery_bounded:
  "length (posts_of (full_delivery cfg w attempts expired admitted sub c)) \<le> 1 + nat (ws_retries sub) \<and>
   slept (full_delivery cfg w attempts expired admitted sub c) \<le> 300 * nat (ws_retries sub)"
proof -
  obtain rest where full: "full_delivery cfg w attempts expired admitted sub c = fst (deliver cfg w sub c) @ rest"
    and rest: "rest = [] \<or> (\<exists>url body headers. snd (deliver cfg w sub c) = NeedsRetry url body headers \<and>
      chain_ok url body headers (nat (ws_retries sub)) rest)" by (rule full_delivery_split)
  have "length (posts_of rest) \<le> nat (ws_retries sub)" "slept rest \<le> 300 * nat (ws_retries sub)"
    using rest by (auto simp: chain_ok_def)
  moreover have "length (posts_of (fst (deliver cfg w sub c))) \<le> 1" using deliver_posts [of cfg w sub c] by auto
  ultimately show ?thesis by (simp add: full deliver_slept)
qed

text \<open>What dashboards see of a delivery: never more than one event; a success exactly when an attempt
  succeeded; and none at all when a retry chain was started and no attempt of it succeeded, although
  each failed attempt is counted.\<close>

theorem delivery_events:
  assumes "acts = full_delivery cfg w attempts expired admitted sub c"
  shows "length (events_of acts) \<le> 1 \<and> (events_of acts = [''success''] \<longleftrightarrow> ''success'' \<in> set (records_of acts)) \<and>
    (case snd (deliver cfg w sub c) of
       NeedsRetry u b h \<Rightarrow> ''success'' \<in> set (records_of acts) \<or> events_of acts = []
     | _ \<Rightarrow> True)"
proof -
  obtain rest where full: "acts = fst (deliver cfg w sub c) @ rest"
    and rest: "rest = [] \<or> (\<exists>url body headers. snd (deliver cfg w sub c) = NeedsRetry url body headers \<and>
      chain_ok url body headers (nat (ws_retries sub)) rest)"
    using full_delivery_split [of cfg w attempts expired admitted sub c] assms by metis
  show ?thesis
  proof (cases "snd (deliver cfg w sub c)")
    case (NeedsRetry u b h)
    with deliver_retry [OF NeedsRetry] rest show ?thesis by (auto simp: full chain_ok_def split: if_splits)
  next
    case Finished
    then have "rest = []" using rest by auto
    with Finished show ?thesis
      by (auto simp: full deliver_eq Let_def after_first_lists split: prod.splits post_result.splits if_splits)
  qed (use rest in \<open>auto simp: full deliver_eq Let_def after_first_lists split: prod.splits post_result.splits if_splits\<close>)
qed

theorem delivery_events_witness: "events_of demo_acts = [''success''] \<longleftrightarrow> ''success'' \<in> set (records_of demo_acts)"
  using delivery_events [OF refl] by blast

text \<open>A receiver that answers 503 to every attempt leaves no event.\<close>

lemma exhausted_chain_is_silent:
  "events_of (full_delivery demo_wh_cfg (demo_world (Status 503)) (\<lambda>i. Attempt (\<lambda>_. DnsAddrs []) (Status 503)) False True
     demo_sub demo_completion) = []"
  by (simp add: full_delivery_def demo_deliver Let_def tracked_retry_def retry_deliver.simps demo_sel demo_check
      is_retryable_http_def)

text \<open>The environment enters a rendered template only through the references written in it: text that
  comes in with the context, such as a model response, cannot name a variable and have it expanded.
  The URL of a delivery does not depend on the environment or on extracted values at all, and an
  environment-derived URL is used verbatim.\<close>

theorem template_confined:
  "((\<forall>name\<in>set (re_names env_ref template). env_or_empty env name = env_or_empty env' name) \<longrightarrow>
     substitute env template ctx = substitute env' template ctx) \<and>
   ((\<forall>key\<in>set URL_TEMPLATE_ALLOWED_VARS. dict_get ctx key = dict_get ctx' key) \<longrightarrow>
     substitute_url template ctx = substitute_url template ctx') \<and>
   (\<not> substring ''{{'' template \<longrightarrow> substitute_url template ctx = template)"
proof (intro conjI impI)
  assume "\<forall>name\<in>set (re_names env_ref template). env_or_empty env name = env_or_empty env' name"
  then show "substitute env template ctx = substitute env' template ctx"
    unfolding substitute_def resolve_env_vars_def by (metis re_sub_agree)
next
  assume "\<forall>key\<in>set URL_TEMPLATE_ALLOWED_VARS. dict_get ctx key = dict_get ctx' key"
  then have "(\<lambda>key. if key \<in> set URL_TEMPLATE_ALLOWED_VARS then ctx_text ctx key else []) =
      (\<lambda>key. if key \<in> set URL_TEMPLATE_ALLOWED_VARS then ctx_text ctx' key else [])"
    by (auto simp: ctx_text_def)
  then show "substitute_url template ctx = substitute_url template ctx'" by (simp add: substitute_url_def)
qed (rule substitute_url_verbatim)

theorem template_confined_witness:
  "substitute (\<lambda>_. Some ''secret'') ''{{response}}'' [(''response'', PStr ''{{env.TOKEN}}'')] =
   substitute Map.empty ''{{response}}'' [(''response'', PStr ''{{env.TOKEN}}'')]"
proof -
  have "re_names env_ref ''{{response}}'' = []" by code_simp
  then show ?thesis
    using template_confined [of "''{{response}}''" "\<lambda>_. Some ''secret''" Map.empty] by simp
qed

section \<open>Properties of the subscription files\<close>

text \<open>The subscriptions the runner can hold.\<close>

definition EVENT_FORMS :: "pystr list" where
  "EVENT_FORMS = [''completion'', ''hook.decision'', ''hook.decision:allow'', ''hook.decision:warn'', ''hook.decision:deny'']"

definition subscription_ok :: "webhook_config \<Rightarrow> webhook_sub \<Rightarrow> bool" where
  "subscription_ok cfg sub =
     (ws_retries sub \<ge> 0 \<and> ws_notify_when sub \<in> set VALID_NOTIFY_WHEN \<and> ws_events sub \<noteq> [] \<and>
      list_all (\<lambda>e. e \<in> set EVENT_FORMS) (ws_events sub) \<and>
      (ws_max_concurrent_deliveries sub \<ge> 1 \<or> ws_max_concurrent_deliveries sub = wc_max_per_sub cfg) \<and>
      (if ws_enabled sub
       then \<not> url_template_has_forbidden_refs (ws_url_template sub) \<or> \<not> substring ''{{'' (ws_url_template sub)
       else True))"

lemma normalize_event_form: "normalize_event item = Some e \<Longrightarrow> e \<in> set EVENT_FORMS"
  by (auto simp: normalize_event_def Let_def KNOWN_EVENT_KINDS_def EVENT_KIND_COMPLETION_def
      EVENT_KIND_HOOK_DECISION_def HOOK_DECISION_SUB_KINDS_def EVENT_FORMS_def split: prod.splits if_splits)

lemma normalize_events_forms:
  "normalize_events_field le v \<noteq> [] \<and> list_all (\<lambda>e. e \<in> set EVENT_FORMS) (normalize_events_field le v)"
proof -
  have "e \<in> set EVENT_FORMS" if "e \<in> set (List.map_filter normalize_event xs)" for e xs
    using that normalize_event_form by (auto simp: List.map_filter_def)
  moreover have "EVENT_KIND_COMPLETION \<in> set EVENT_FORMS" by (simp add: EVENT_KIND_COMPLETION_def EVENT_FORMS_def)
  ultimately show ?thesis by (auto simp: normalize_events_field_def Let_def list_all_iff)
qed

lemma int_field_least: "int_field fi least dflt v = Some n \<Longrightarrow> n \<ge> least \<or> n = dflt"
  by (auto simp: int_field_def split: if_splits int_result.splits)

lemma resolve_url_safe:
  "resolve_url_field cfg dns env flds = Some url \<Longrightarrow> \<not> url_template_has_forbidden_refs url \<or> \<not> substring ''{{'' url"
  by (auto simp: resolve_url_field_def Let_def split: option.splits if_splits)

lemma make_sub_fields:
  "ws_path (make_sub pe path raw body url r m) = path" "ws_url_template (make_sub pe path raw body url r m) = url"
  "ws_retries (make_sub pe path raw body url r m) = r" "ws_max_concurrent_deliveries (make_sub pe path raw body url r m) = m"
  "ws_notify_when (make_sub pe path raw body url r m) \<in> set VALID_NOTIFY_WHEN"
  "ws_events (make_sub pe path raw body url r m) =
     normalize_events_field (pe_literal_eval pe) (get_or_none raw ''events'')"
  by (simp_all add: make_sub_def Let_def VALID_NOTIFY_WHEN_def)

lemma enabled_sub_ok:
  assumes "enabled_sub cfg pe path raw body = Some sub"
  shows "ws_path sub = path \<and> subscription_ok cfg sub"
proof -
  from assms obtain flds url r m where url: "resolve_url_field cfg (pe_dns pe) (pe_environ pe) flds = Some url"
    and r: "int_field (pe_float_int pe) 0 0 (get_or_none raw ''retries'') = Some r"
    and m: "int_field (pe_float_int pe) 1 (wc_max_per_sub cfg)
       (raw_or raw ''max-concurrent-deliveries'' ''max_concurrent_deliveries'') = Some m"
    and sub: "sub = make_sub pe path raw body url r m"
    unfolding enabled_sub_def by (auto split: option.splits)
  have "r \<ge> 0" "m \<ge> 1 \<or> m = wc_max_per_sub cfg" using int_field_least [OF r] int_field_least [OF m] by auto
  then show ?thesis
    using normalize_events_forms resolve_url_safe [OF url] by (simp add: sub subscription_ok_def make_sub_fields)
qed

lemma disabled_sub_ok: "ws_path (disabled_sub cfg path flds) = path \<and> subscription_ok cfg (disabled_sub cfg path flds)"
  by (simp add: subscription_ok_def disabled_sub_def VALID_NOTIFY_WHEN_def EVENT_FORMS_def EVENT_KIND_COMPLETION_def)

lemma parse_webhook_cases:
  assumes "parse_webhook_file cfg pe path contents = Some sub"
  shows "(\<exists>raw body. enabled_sub cfg pe path raw body = Some sub) \<or> (\<exists>flds. sub = disabled_sub cfg path flds)"
  using assms unfolding parse_webhook_file_def Let_def
  by (auto split: option.splits prod.splits pyval.splits if_splits)

text \<open>Whatever a file holds, the subscription it yields is well formed: a known \<open>notify-when\<close>, at least
  one event, every event one of the five known forms, no negative retry count, and, when it is
  enabled, a URL with no reference outside the built-in variables.\<close>

theorem parsed_subscription_ok:
  assumes "parse_webhook_file cfg pe path contents = Some sub"
  shows "ws_path sub = path \<and> subscription_ok cfg sub"
  using parse_webhook_cases [OF assms] enabled_sub_ok disabled_sub_ok by blast

definition demo_pe :: parse_env where
  "demo_pe = \<lparr>pe_yaml = (\<lambda>_. Some (PDict [(''enabled'', PBool False), (''url'', PStr ''http://x'')])),
     pe_literal_eval = (\<lambda>_. None), pe_float_int = (\<lambda>_. IntValueError), pe_dns = (\<lambda>_. DnsFailed), pe_environ = Map.empty\<rparr>"

theorem parsed_subscription_ok_witness:
  "ws_path (disabled_sub demo_wh_cfg ''/w/a.md'' [(''enabled'', ''False''), (''url'', ''http://x'')]) = ''/w/a.md'' \<and>
   subscription_ok demo_wh_cfg (disabled_sub demo_wh_cfg ''/w/a.md'' [(''enabled'', ''False''), (''url'', ''http://x'')])"
proof -
  define md where "md = ''---'' @ [CHR 0x0A] @ ''x'' @ [CHR 0x0A] @ ''---'' @ [CHR 0x0A] @ ''go''"
  have "parse_webhook_file demo_wh_cfg demo_pe ''/w/a.md'' (Some md) =
      Some (disabled_sub demo_wh_cfg ''/w/a.md'' [(''enabled'', ''False''), (''url'', ''http://x'')])"
    unfolding md_def by code_simp
  from parsed_subscription_ok [OF this] show ?thesis .
qed

text \<open>An event of a delivery is always accepted by the event stream.\<close>

lemmas webhook_payload_checks = validate_webhook_delivered_def validate_webhook_failed_def validate_with_def dict_has_def
  is_nonempty_str_def is_str_def is_http_status_def is_nonneg_int_def in_str_set_def hashable_def WEBHOOK_FAILURE_REASONS_def

lemma webhook_event_valid:
  assumes "sub_name \<noteq> []" "d \<ge> 0"
  shows "case webhook_event sub_name url result d of (ty, p) \<Rightarrow>
    (ty = ''webhook.delivered'' \<and> result = ''success'' \<and> validate_webhook_delivered p = VOk) \<or>
    (ty = ''webhook.failed'' \<and> result \<noteq> ''success'' \<and> validate_webhook_failed p = VOk)"
proof -
  define host where "host = (case urlsplit url of None \<Rightarrow> [] | Some parts \<Rightarrow> url_hostname parts)"
  define code where "code = (case int_of_str (drop 5 result) of Some n \<Rightarrow> n | None \<Rightarrow> 0)"
  note defs = webhook_event_def host_def [symmetric] code_def [symmetric] Let_def
  consider "result = ''success''" | "result \<noteq> ''success''" "startswith result ''http_''"
    | "result \<noteq> ''success''" "\<not> startswith result ''http_''" by blast
  then show ?thesis
  proof cases
    case 1
    then show ?thesis using assms by (simp add: defs webhook_payload_checks)
  next
    case 2
    then show ?thesis using assms by (simp add: defs webhook_payload_checks)
  next
    case 3
    then show ?thesis using assms by (simp add: defs webhook_payload_checks)
  qed
qed

theorem webhook_event_accepted:
  assumes "sub_name \<noteq> []" "clock 0 \<noteq> []"
  shows "\<exists>env t. publish_webhook_event clock sub_name url result duration_ms s = (Published env, t) \<and>
    ev_type env = (if result = ''success'' then ''webhook.delivered'' else ''webhook.failed'')"
proof -
  obtain ty p where e: "webhook_event sub_name url result (max 0 duration_ms) = (ty, p)" by (rule prod.exhaust)
  have v: "dict_get VALIDATORS ''webhook.delivered'' = Some validate_webhook_delivered"
    "dict_get VALIDATORS ''webhook.failed'' = Some validate_webhook_failed" by (simp_all add: VALIDATORS_def)
  have ty: "ty = (if result = ''success'' then ''webhook.delivered'' else ''webhook.failed'')"
    and "\<exists>f. dict_get VALIDATORS ty = Some f \<and> f p = VOk"
    using webhook_event_valid [OF assms(1), of "max 0 duration_ms" result url] v by (auto simp: e)
  then obtain f where "dict_get VALIDATORS ty = Some f" "f p = VOk" by blast
  from publish_accepts [where clock = clock and ag = None and s = s, OF this assms(2)] show ?thesis
    unfolding publish_webhook_event_def e prod.case by (metis envelope.select_convs(1) prod.collapse ty)
qed

end
