(* ===== verification/Webhook_Runner.thy ===== *)
theory Webhook_Runner
  imports Webhooks Task_Pool Dir_Watcher
begin

text \<open>
  Model of the class \<open>WebhookRunner\<close> of \<open>harness/webhooks.py\<close> and of the admission of retries at
  the end of \<open>deliver\<close>: the registry of subscriptions, the fan-out of completions and hook decisions
  under the two concurrency caps, the tracking of delivery and retry tasks, and the byte budget of
  the retries in flight. A task of the event loop is a number; what its coroutine and its done
  callback have captured (the subscription's name, the bytes granted to a retry) is kept beside it,
  with how far it has got; a hook-decision delivery is a delivery that never asks for a retry. A lock that is never held across a suspension point does not show.
\<close>

section \<open>State\<close>

text \<open>A delivery that is still working, one that has handed its work to a retry or dropped it and only
  has to return, a retry with the bytes granted to it and whether its body has started, and a retry
  that has released its bytes.\<close>

datatype wh_task = Delivering | HandedOver | Retrying int bool | Released

record wh_runner =
  wr_items :: "(pystr \<times> webhook_sub) list"
  wr_active_deliveries :: "nat list"
  wr_deliveries_by_name :: "(pystr \<times> nat list) list"
  wr_next_task :: nat
  wr_tasks :: "(nat \<times> (pystr \<times> wh_task)) list"
  wr_retry_bytes :: int
  wr_retry_bytes_per_sub :: "(pystr \<times> int) list"

definition init_wh_runner :: wh_runner where
  "init_wh_runner =
     \<lparr>wr_items = [], wr_active_deliveries = [], wr_deliveries_by_name = [], wr_next_task = 0, wr_tasks = [],
      wr_retry_bytes = 0, wr_retry_bytes_per_sub = []\<rparr>"

section \<open>Registration\<close>

definition wh_unregister :: "pystr \<Rightarrow> wh_runner \<Rightarrow> wh_runner" where
  "wh_unregister path r = r\<lparr>wr_items := dict_pop path (wr_items r)\<rparr>"

definition wh_register :: "pystr \<Rightarrow> webhook_sub option \<Rightarrow> wh_runner \<Rightarrow> wh_runner" where
  "wh_register path res r =
     (case res of
        None \<Rightarrow> r
      | Some sub \<Rightarrow>
          (let r1 = wh_unregister path r
           in r1\<lparr>wr_items := dict_set path sub (wr_items r1)\<rparr>))"

text \<open>The whole of \<open>_register\<close>, the file read included; what the watcher's cleanup walks over.\<close>

definition wh_register_file :: "webhook_config \<Rightarrow> parse_env \<Rightarrow> pystr \<Rightarrow> pystr option \<Rightarrow> wh_runner \<Rightarrow> wh_runner" where
  "wh_register_file cfg pe path contents r = wh_register path (parse_webhook_file cfg pe path contents) r"

definition wh_paths :: "wh_runner \<Rightarrow> pystr list" where
  "wh_paths r = dict_keys (wr_items r)"

definition items_registered :: "wh_runner \<Rightarrow> nat" where
  "items_registered r = length (filter ws_enabled (map snd (wr_items r)))"

section \<open>Tasks\<close>

definition deliveries_of :: "wh_runner \<Rightarrow> pystr \<Rightarrow> nat list" where
  "deliveries_of r name = tasks_of (wr_deliveries_by_name r) name"

definition track_delivery :: "pystr \<Rightarrow> wh_runner \<Rightarrow> wh_runner" where
  "track_delivery name r =
     (let t = wr_next_task r
      in r\<lparr>wr_next_task := Suc t, wr_active_deliveries := t # wr_active_deliveries r,
           wr_deliveries_by_name := dict_set name (t # deliveries_of r name) (wr_deliveries_by_name r)\<rparr>)"

text \<open>The done callbacks \<open>_cleanup\<close> and \<open>_retry_cleanup\<close>.\<close>

definition delivery_cleanup :: "nat \<Rightarrow> pystr \<Rightarrow> wh_runner \<Rightarrow> wh_runner" where
  "delivery_cleanup t name r =
     r\<lparr>wr_active_deliveries := removeAll t (wr_active_deliveries r),
       wr_deliveries_by_name := untrack_name t name (wr_deliveries_by_name r)\<rparr>"

definition spawn :: "pystr \<Rightarrow> wh_task \<Rightarrow> wh_runner \<Rightarrow> wh_runner" where
  "spawn name st r = track_delivery name (r\<lparr>wr_tasks := dict_set (wr_next_task r) (name, st) (wr_tasks r)\<rparr>)"

definition task_done :: "nat \<Rightarrow> pystr \<Rightarrow> wh_runner \<Rightarrow> wh_runner" where
  "task_done t name r = delivery_cleanup t name (r\<lparr>wr_tasks := dict_pop t (wr_tasks r)\<rparr>)"

section \<open>Fan-out\<close>

definition has_room :: "webhook_config \<Rightarrow> webhook_sub \<Rightarrow> wh_runner \<Rightarrow> bool" where
  "has_room cfg sub r =
     (int (length (deliveries_of r (ws_name sub))) < ws_max_concurrent_deliveries sub \<and>
      int (length (wr_active_deliveries r)) < wc_max_deliveries cfg)"

definition fire_one :: "webhook_config \<Rightarrow> (webhook_sub \<Rightarrow> bool) \<Rightarrow> webhook_sub \<Rightarrow> wh_runner \<Rightarrow> wh_runner" where
  "fire_one cfg wants sub r =
     (if \<not> ws_enabled sub then r
      else if \<not> wants sub then r
      else if \<not> has_room cfg sub r then r
      else spawn (ws_name sub) Delivering r)"

definition fire :: "webhook_config \<Rightarrow> (pystr \<Rightarrow> pystr \<Rightarrow> bool) \<Rightarrow> completion \<Rightarrow> wh_runner \<Rightarrow> wh_runner" where
  "fire cfg fnm c r =
     fold (fire_one cfg (\<lambda>sub. matches_filters fnm sub (cp_success c) (cp_kind c) (response_preview (cp_response c))))
       (map snd (wr_items r)) r"

definition fire_hook_decision :: "webhook_config \<Rightarrow> pystr \<Rightarrow> wh_runner \<Rightarrow> wh_runner" where
  "fire_hook_decision cfg decision r =
     (let qualifier = (if decision \<in> set HOOK_DECISION_SUB_KINDS then Some decision else None)
      in fold (fire_one cfg (\<lambda>sub. events_match (ws_events sub) EVENT_KIND_HOOK_DECISION qualifier))
           (map snd (wr_items r)) r)"

text \<open>The context \<open>fire_hook_decision\<close> hands to its deliveries.\<close>

definition hook_context ::
  "webhook_config \<Rightarrow> pystr \<Rightarrow> pystr \<Rightarrow> pystr \<Rightarrow> pystr \<Rightarrow> pystr \<Rightarrow> pystr \<Rightarrow> pystr \<Rightarrow> pystr option \<Rightarrow> pystr \<Rightarrow> pystr \<Rightarrow> wctx" where
  "hook_context cfg agent session_id tool decision rule_name reason source traceparent now uuid =
     [(''agent'', PStr (if agent = [] then wc_agent_name cfg else agent)), (''session_id'', PStr session_id),
      (''tool'', PStr tool), (''decision'', PStr decision), (''rule_name'', PStr rule_name), (''reason'', PStr reason),
      (''source'', PStr source),
      (''traceparent'', (case traceparent of Some tp \<Rightarrow> PStr tp | None \<Rightarrow> PNone)),
      (''timestamp'', PStr now), (''delivery_id'', PStr uuid), (''kind'', PStr EVENT_KIND_HOOK_DECISION),
      (''success'', PBool (decision \<noteq> ''deny'')), (''error'', PStr []), (''duration_seconds'', PFloat ''0.0''),
      (''response_preview'', PStr []), (''model'', PStr [])]"

section \<open>The retry budget\<close>

definition bytes_of :: "wh_runner \<Rightarrow> pystr \<Rightarrow> int" where
  "bytes_of r name = (case dict_get (wr_retry_bytes_per_sub r) name of None \<Rightarrow> 0 | Some n \<Rightarrow> n)"

definition retry_fits :: "webhook_config \<Rightarrow> pystr \<Rightarrow> int \<Rightarrow> wh_runner \<Rightarrow> bool" where
  "retry_fits cfg name bytes r =
     (\<not> (wc_retry_per_sub cfg > 0 \<and> bytes_of r name + bytes > wc_retry_per_sub cfg) \<and>
      \<not> wr_retry_bytes r + bytes > wc_retry_budget cfg)"

definition grant :: "pystr \<Rightarrow> int \<Rightarrow> wh_runner \<Rightarrow> wh_runner" where
  "grant name bytes r =
     r\<lparr>wr_retry_bytes := wr_retry_bytes r + bytes,
       wr_retry_bytes_per_sub := dict_set name (bytes_of r name + bytes) (wr_retry_bytes_per_sub r)\<rparr>"

text \<open>The end of \<open>deliver\<close> when the first attempt asks for a retry of \<open>bytes\<close> bytes: the retry is shed,
  or it is granted its bytes and becomes a tracked task; the delivery itself has nothing left to do.\<close>

definition request_retry :: "webhook_config \<Rightarrow> nat \<Rightarrow> pystr \<Rightarrow> int \<Rightarrow> wh_runner \<Rightarrow> wh_runner" where
  "request_retry cfg t name bytes r =
     (let r1 = r\<lparr>wr_tasks := dict_set t (name, HandedOver) (wr_tasks r)\<rparr>
      in if wc_retry_budget cfg > 0
         then (if retry_fits cfg name bytes r then spawn name (Retrying bytes False) (grant name bytes r1) else r1)
         else spawn name (Retrying bytes False) r1)"

definition retry_start :: "nat \<Rightarrow> pystr \<Rightarrow> int \<Rightarrow> wh_runner \<Rightarrow> wh_runner" where
  "retry_start t name bytes r = r\<lparr>wr_tasks := dict_set t (name, Retrying bytes True) (wr_tasks r)\<rparr>"

text \<open>The \<open>finally\<close> block of \<open>_tracked_retry\<close>.\<close>

definition release :: "webhook_config \<Rightarrow> pystr \<Rightarrow> int \<Rightarrow> wh_runner \<Rightarrow> wh_runner" where
  "release cfg name bytes r =
     (if wc_retry_budget cfg > 0
      then (let new = max 0 (bytes_of r name - bytes)
            in r\<lparr>wr_retry_bytes := max 0 (wr_retry_bytes r - bytes),
                 wr_retry_bytes_per_sub :=
                   (if new = 0 then dict_pop name (wr_retry_bytes_per_sub r)
                    else dict_set name new (wr_retry_bytes_per_sub r))\<rparr>)
      else r)"

definition retry_finish :: "webhook_config \<Rightarrow> nat \<Rightarrow> pystr \<Rightarrow> int \<Rightarrow> wh_runner \<Rightarrow> wh_runner" where
  "retry_finish cfg t name bytes r = release cfg name bytes (r\<lparr>wr_tasks := dict_set t (name, Released) (wr_tasks r)\<rparr>)"

section \<open>Shutdown\<close>

text \<open>\<open>close\<close> waits for the tasks of one snapshot of the active set and then closes the shared client.\<close>

definition close_pending :: "wh_runner \<Rightarrow> nat list" where
  "close_pending r = wr_active_deliveries r"

definition close_ready :: "nat list \<Rightarrow> wh_runner \<Rightarrow> bool" where
  "close_ready pending r = list_all (\<lambda>t. \<not> dict_has (wr_tasks r) t) pending"

section \<open>Runs\<close>

text \<open>The runs of a runner. \<open>lost\<close> collects the grants of retries that were cancelled before their body
  started: the coroutine of such a task is never entered, so its \<open>finally\<close> block does not run.\<close>

inductive wh_run ::
  "webhook_config \<Rightarrow> (pystr \<Rightarrow> pystr \<Rightarrow> bool) \<Rightarrow> parse_env \<Rightarrow> wh_runner \<Rightarrow> (pystr \<times> int) list \<Rightarrow> bool"
  for cfg fnm pe where
  wrun_start: "wh_run cfg fnm pe init_wh_runner []"
| wrun_register: "wh_run cfg fnm pe r lost \<Longrightarrow>
    wh_run cfg fnm pe (wh_register_file cfg pe path contents r) lost"
| wrun_unregister: "wh_run cfg fnm pe r lost \<Longrightarrow> wh_run cfg fnm pe (wh_unregister path r) lost"
| wrun_fire: "wh_run cfg fnm pe r lost \<Longrightarrow> wh_run cfg fnm pe (fire cfg fnm c r) lost"
| wrun_hook: "wh_run cfg fnm pe r lost \<Longrightarrow> wh_run cfg fnm pe (fire_hook_decision cfg decision r) lost"
| wrun_request: "wh_run cfg fnm pe r lost \<Longrightarrow> dict_get (wr_tasks r) t = Some (name, Delivering) \<Longrightarrow>
    wh_run cfg fnm pe (request_retry cfg t name (int bytes) r) lost"
| wrun_retry_start: "wh_run cfg fnm pe r lost \<Longrightarrow> dict_get (wr_tasks r) t = Some (name, Retrying bytes False) \<Longrightarrow>
    wh_run cfg fnm pe (retry_start t name bytes r) lost"
| wrun_retry_finish: "wh_run cfg fnm pe r lost \<Longrightarrow> dict_get (wr_tasks r) t = Some (name, Retrying bytes True) \<Longrightarrow>
    wh_run cfg fnm pe (retry_finish cfg t name bytes r) lost"
| wrun_done: "wh_run cfg fnm pe r lost \<Longrightarrow> dict_get (wr_tasks r) t = Some (name, st) \<Longrightarrow>
    st \<in> {Delivering, HandedOver, Released} \<Longrightarrow> wh_run cfg fnm pe (task_done t name r) lost"
| wrun_cancel_unstarted: "wh_run cfg fnm pe r lost \<Longrightarrow> dict_get (wr_tasks r) t = Some (name, Retrying bytes False) \<Longrightarrow>
    wh_run cfg fnm pe (task_done t name r) ((name, bytes) # lost)"

section \<open>Tracking\<close>

lemma deliveries_of_other [simp]:
  "deliveries_of (r\<lparr>wr_items := i\<rparr>) = deliveries_of r"
  "deliveries_of (r\<lparr>wr_tasks := ts\<rparr>) = deliveries_of r"
  "deliveries_of (r\<lparr>wr_retry_bytes := b\<rparr>) = deliveries_of r"
  "deliveries_of (r\<lparr>wr_retry_bytes_per_sub := p\<rparr>) = deliveries_of r"
  by (simp_all add: deliveries_of_def fun_eq_iff)

lemma deliveries_of_track:
  "deliveries_of (track_delivery n r) = (deliveries_of r)(n := wr_next_task r # deliveries_of r n)"
  by (simp add: track_delivery_def Let_def deliveries_of_def fun_eq_iff tasks_of_set)

lemma deliveries_of_cleanup:
  "deliveries_of (delivery_cleanup t n r) = (deliveries_of r)(n := removeAll t (deliveries_of r n))"
  by (simp add: delivery_cleanup_def deliveries_of_def fun_eq_iff tasks_of_untrack)

interpretation wh_pool: task_pool wr_next_task wr_active_deliveries deliveries_of track_delivery delivery_cleanup
  by unfold_locales (simp_all add: deliveries_of_track deliveries_of_cleanup,
    simp_all add: track_delivery_def delivery_cleanup_def Let_def)

text \<open>Both tables and the closures agree.\<close>

definition track_inv :: "wh_runner \<Rightarrow> bool" where
  "track_inv r =
     (pool_ok (wr_next_task r) (wr_active_deliveries r) (deliveries_of r) \<and> dict_wf (wr_tasks r) \<and>
      (\<forall>t n. t \<in> set (deliveries_of r n) \<longleftrightarrow> (\<exists>st. dict_get (wr_tasks r) t = Some (n, st))))"

lemma track_invD:
  assumes "track_inv r"
  shows "pool_ok (wr_next_task r) (wr_active_deliveries r) (deliveries_of r)" "dict_wf (wr_tasks r)"
    "t \<in> set (deliveries_of r n) \<longleftrightarrow> (\<exists>st. dict_get (wr_tasks r) t = Some (n, st))"
    "\<not> dict_has (wr_tasks r) (wr_next_task r)"
proof -
  show p: "pool_ok (wr_next_task r) (wr_active_deliveries r) (deliveries_of r)" "dict_wf (wr_tasks r)"
    and m: "t \<in> set (deliveries_of r n) \<longleftrightarrow> (\<exists>st. dict_get (wr_tasks r) t = Some (n, st))" for t n
    using assms unfolding track_inv_def by blast+
  have "wr_next_task r \<notin> set (deliveries_of r n)" for n using pool_okD(2,4) [OF p(1)] by blast
  then have "dict_get (wr_tasks r) (wr_next_task r) \<noteq> Some e" for e using m by (cases e) blast
  then show "\<not> dict_has (wr_tasks r) (wr_next_task r)" by (auto simp: dict_has_def)
qed

lemma track_inv_spawn:
  assumes "track_inv r"
  shows "track_inv (spawn n st r)"
proof -
  note inv = track_invD [OF assms]
  let ?r = "r\<lparr>wr_tasks := dict_set (wr_next_task r) (n, st) (wr_tasks r)\<rparr>"
  have tasks: "wr_tasks (spawn n st r) = dict_set (wr_next_task r) (n, st) (wr_tasks r)"
    by (simp add: spawn_def track_delivery_def Let_def)
  have del: "deliveries_of (spawn n st r) = (deliveries_of r)(n := wr_next_task r # deliveries_of r n)"
    by (simp add: spawn_def deliveries_of_track)
  have "pool_ok (wr_next_task ?r) (wr_active_deliveries ?r) (deliveries_of ?r)" using inv(1) by simp
  then have "pool_ok (wr_next_task (spawn n st r)) (wr_active_deliveries (spawn n st r)) (deliveries_of (spawn n st r))"
    unfolding spawn_def by (rule wh_pool.track_ok)
  moreover have "dict_wf (wr_tasks (spawn n st r))" using inv(2) by (simp add: tasks dict_wf_set)
  moreover have "wr_next_task r \<notin> set (deliveries_of r m)" for m using pool_okD(2,4) [OF inv(1)] by blast
  then have "t \<in> set (deliveries_of (spawn n st r) m) \<longleftrightarrow> (\<exists>s. dict_get (wr_tasks (spawn n st r)) t = Some (m, s))" for t m
    using inv(3) by (auto simp: tasks del split: if_splits)
  ultimately show ?thesis unfolding track_inv_def by blast
qed

lemma track_inv_done:
  assumes "track_inv r" and t: "dict_get (wr_tasks r) t = Some (n, st)"
  shows "track_inv (task_done t n r)"
proof -
  note inv = track_invD [OF assms(1)]
  let ?r = "r\<lparr>wr_tasks := dict_pop t (wr_tasks r)\<rparr>"
  have tasks: "wr_tasks (task_done t n r) = dict_pop t (wr_tasks r)"
    by (simp add: task_done_def delivery_cleanup_def)
  have del: "deliveries_of (task_done t n r) = (deliveries_of r)(n := removeAll t (deliveries_of r n))"
    by (simp add: task_done_def deliveries_of_cleanup)
  have mem: "t \<in> set (deliveries_of r n)" using inv(3) t by blast
  have "pool_ok (wr_next_task (task_done t n r)) (wr_active_deliveries (task_done t n r)) (deliveries_of (task_done t n r))"
    unfolding task_done_def using inv(1) mem by (intro wh_pool.untrack_ok) simp_all
  moreover have "dict_wf (wr_tasks (task_done t n r))" using inv(2) by (simp add: tasks dict_wf_pop)
  moreover have "u \<in> set (deliveries_of (task_done t n r) m) \<longleftrightarrow> (\<exists>s. dict_get (wr_tasks (task_done t n r)) u = Some (m, s))" for u m
    using inv(3) [of u m] t by (auto simp: tasks del)
  ultimately show ?thesis unfolding track_inv_def by blast
qed

lemma track_inv_state:
  assumes "track_inv r" "dict_get (wr_tasks r) t = Some (n, st)"
  shows "track_inv (r\<lparr>wr_tasks := dict_set t (n, st') (wr_tasks r)\<rparr>)"
  using assms unfolding track_inv_def by (auto simp: dict_wf_set)

lemma track_inv_bytes:
  "track_inv (r\<lparr>wr_retry_bytes := b, wr_retry_bytes_per_sub := p\<rparr>) = track_inv r"
  "track_inv (r\<lparr>wr_items := i\<rparr>) = track_inv r"
  by (simp_all add: track_inv_def)

section \<open>Sums over the tasks\<close>

definition tsum :: "(pystr \<times> wh_task \<Rightarrow> int) \<Rightarrow> wh_runner \<Rightarrow> int" where
  "tsum w r = sum_list (map (\<lambda>(t, e). w e) (wr_tasks r))"

lemma tsum_spawn: "track_inv r \<Longrightarrow> tsum w (spawn n st r) = tsum w r + w (n, st)"
  using track_invD(4) [of r] by (simp add: tsum_def spawn_def track_delivery_def Let_def dict_set_fresh)

lemma tsum_state:
  "dict_get (wr_tasks r) t = Some e \<Longrightarrow> tsum w (r\<lparr>wr_tasks := dict_set t e' (wr_tasks r)\<rparr>) = tsum w r - w e + w e'"
  by (simp add: tsum_def sum_dict_set)

lemma tsum_done:
  "track_inv r \<Longrightarrow> dict_get (wr_tasks r) t = Some e \<Longrightarrow> tsum w (task_done t n r) = tsum w r - w e"
  using track_invD(2) [of r] by (simp add: tsum_def task_done_def delivery_cleanup_def sum_dict_pop)

lemma tsum_other [simp]:
  "tsum w (r\<lparr>wr_items := i\<rparr>) = tsum w r" "tsum w (r\<lparr>wr_retry_bytes := b, wr_retry_bytes_per_sub := p\<rparr>) = tsum w r"
  by (simp_all add: tsum_def)

lemma tsum_nonneg: "(\<And>e. e \<in> snd ` set (wr_tasks r) \<Longrightarrow> w e \<ge> 0) \<Longrightarrow> tsum w r \<ge> 0"
  by (force simp: tsum_def intro: sum_list_nonneg)

lemma tsum_mono: "(\<And>e. e \<in> snd ` set (wr_tasks r) \<Longrightarrow> v e \<le> w e) \<Longrightarrow> tsum v r \<le> tsum w r"
  by (force simp: tsum_def intro: sum_list_mono)

text \<open>The size of the active set is the number of closures.\<close>

lemma active_count:
  assumes "track_inv r"
  shows "int (length (wr_active_deliveries r)) = tsum (\<lambda>_. 1) r"
proof -
  note inv = track_invD [OF assms]
  have "t \<in> set (wr_active_deliveries r) \<longleftrightarrow> t \<in> fst ` set (wr_tasks r)" for t
  proof -
    have "t \<in> set (wr_active_deliveries r) \<longleftrightarrow> (\<exists>n st. dict_get (wr_tasks r) t = Some (n, st))"
      using pool_okD(4) [OF inv(1)] inv(3) by blast
    then show ?thesis
      by (metis (no_types, lifting) domIff dom_map_of_conv_image_fst option.exhaust option.distinct(1) surj_pair)
  qed
  then have "set (wr_active_deliveries r) = set (map fst (wr_tasks r))" by auto
  moreover have "distinct (wr_active_deliveries r)" "distinct (map fst (wr_tasks r))"
    using pool_okD(1) [OF inv(1)] inv(2) by (simp_all add: dict_wf_def dict_keys_def)
  ultimately have "length (wr_active_deliveries r) = length (wr_tasks r)"
    by (metis distinct_card length_map)
  then show ?thesis by (simp add: tsum_def split_def sum_list_triv)
qed

section \<open>Invariants\<close>

definition working :: "pystr \<times> wh_task \<Rightarrow> int" where
  "working e = (if snd e \<noteq> HandedOver then 1 else 0)"

definition delivering :: "pystr \<times> wh_task \<Rightarrow> int" where
  "delivering e = (if snd e = Delivering then 1 else 0)"

definition granted :: "pystr \<times> wh_task \<Rightarrow> int" where
  "granted e = (case snd e of Retrying b _ \<Rightarrow> b | _ \<Rightarrow> 0)"

definition granted_to :: "pystr \<Rightarrow> pystr \<times> wh_task \<Rightarrow> int" where
  "granted_to n e = (if fst e = n then granted e else 0)"

definition lost_total :: "(pystr \<times> int) list \<Rightarrow> int" where
  "lost_total lost = sum_list (map snd lost)"

definition lost_to :: "pystr \<Rightarrow> (pystr \<times> int) list \<Rightarrow> int" where
  "lost_to n lost = sum_list (map (\<lambda>(m, b). if m = n then b else 0) lost)"

definition caps_inv :: "webhook_config \<Rightarrow> wh_runner \<Rightarrow> bool" where
  "caps_inv cfg r =
     (tsum working r \<le> max 0 (wc_max_deliveries cfg) \<and>
      tsum delivering r + tsum (\<lambda>_. 1) r \<le> 2 * max 0 (wc_max_deliveries cfg))"

definition bytes_inv :: "webhook_config \<Rightarrow> wh_runner \<Rightarrow> (pystr \<times> int) list \<Rightarrow> bool" where
  "bytes_inv cfg r lost =
     ((\<forall>e\<in>snd ` set (wr_tasks r). granted e \<ge> 0) \<and> (\<forall>x\<in>set lost. snd x \<ge> 0) \<and>
      (wc_retry_budget cfg > 0 \<longrightarrow>
        wr_retry_bytes r = tsum granted r + lost_total lost \<and>
        (\<forall>n. bytes_of r n = tsum (granted_to n) r + lost_to n lost) \<and>
        wr_retry_bytes r \<le> wc_retry_budget cfg \<and>
        (wc_retry_per_sub cfg > 0 \<longrightarrow> (\<forall>n. bytes_of r n \<le> wc_retry_per_sub cfg))))"

lemmas weights = working_def delivering_def granted_def granted_to_def

lemma bytes_of_other [simp]:
  "bytes_of (r\<lparr>wr_items := i\<rparr>) = bytes_of r" "bytes_of (r\<lparr>wr_tasks := ts\<rparr>) = bytes_of r"
  "bytes_of (spawn n st r) = bytes_of r" "bytes_of (task_done t n r) = bytes_of r"
  "wr_retry_bytes (spawn n st r) = wr_retry_bytes r" "wr_retry_bytes (task_done t n r) = wr_retry_bytes r"
  by (simp_all add: bytes_of_def fun_eq_iff spawn_def task_done_def track_delivery_def delivery_cleanup_def Let_def)

lemma bytes_of_grant: "bytes_of (grant n b r) = (bytes_of r)(n := bytes_of r n + b)"
  by (auto simp: grant_def bytes_of_def fun_eq_iff)

lemma bytes_of_release:
  "wc_retry_budget cfg > 0 \<Longrightarrow> bytes_of (release cfg n b r) = (bytes_of r)(n := max 0 (bytes_of r n - b))"
  by (auto simp: release_def Let_def bytes_of_def fun_eq_iff)

lemma grant_frame [simp]:
  "wr_tasks (grant n b r) = wr_tasks r" "track_inv (grant n b r) = track_inv r" "tsum w (grant n b r) = tsum w r"
  "wr_retry_bytes (grant n b r) = wr_retry_bytes r + b"
  by (simp_all add: grant_def track_inv_bytes)

lemma release_frame [simp]:
  "wr_tasks (release cfg n b r) = wr_tasks r" "track_inv (release cfg n b r) = track_inv r"
  "tsum w (release cfg n b r) = tsum w r"
  by (simp_all add: release_def track_inv_bytes Let_def)

lemma wr_tasks_spawn: "track_inv r \<Longrightarrow> set (wr_tasks (spawn n st r)) = insert (wr_next_task r, n, st) (set (wr_tasks r))"
  using track_invD(4) [of r] by (simp add: spawn_def track_delivery_def Let_def dict_set_fresh)

lemma wr_tasks_done: "wr_tasks (task_done t n r) = dict_pop t (wr_tasks r)"
  by (simp add: task_done_def delivery_cleanup_def)

definition wh_inv :: "webhook_config \<Rightarrow> wh_runner \<Rightarrow> (pystr \<times> int) list \<Rightarrow> bool" where
  "wh_inv cfg r lost = (track_inv r \<and> caps_inv cfg r \<and> bytes_inv cfg r lost)"

lemma bytes_invD:
  assumes "bytes_inv cfg r lost"
  shows "e \<in> snd ` set (wr_tasks r) \<Longrightarrow> granted e \<ge> 0" "x \<in> set lost \<Longrightarrow> snd x \<ge> 0"
    "wc_retry_budget cfg > 0 \<Longrightarrow> wr_retry_bytes r = tsum granted r + lost_total lost"
    "wc_retry_budget cfg > 0 \<Longrightarrow> bytes_of r n = tsum (granted_to n) r + lost_to n lost"
    "wc_retry_budget cfg > 0 \<Longrightarrow> wr_retry_bytes r \<le> wc_retry_budget cfg"
    "wc_retry_budget cfg > 0 \<Longrightarrow> wc_retry_per_sub cfg > 0 \<Longrightarrow> bytes_of r n \<le> wc_retry_per_sub cfg"
  using assms unfolding bytes_inv_def by blast+

lemma bytes_invI:
  assumes "\<And>e. e \<in> snd ` set (wr_tasks r) \<Longrightarrow> granted e \<ge> 0" "\<And>x. x \<in> set lost \<Longrightarrow> snd x \<ge> 0"
    "wc_retry_budget cfg > 0 \<Longrightarrow> wr_retry_bytes r = tsum granted r + lost_total lost"
    "\<And>n. wc_retry_budget cfg > 0 \<Longrightarrow> bytes_of r n = tsum (granted_to n) r + lost_to n lost"
    "wc_retry_budget cfg > 0 \<Longrightarrow> wr_retry_bytes r \<le> wc_retry_budget cfg"
    "\<And>n. wc_retry_budget cfg > 0 \<Longrightarrow> wc_retry_per_sub cfg > 0 \<Longrightarrow> bytes_of r n \<le> wc_retry_per_sub cfg"
  shows "bytes_inv cfg r lost"
  using assms unfolding bytes_inv_def by blast

text \<open>A step that leaves the counters and the sums of the grants alone keeps the account.\<close>

lemma bytes_inv_same:
  assumes "bytes_inv cfg r lost" "wr_retry_bytes r' = wr_retry_bytes r" "bytes_of r' = bytes_of r"
    and "tsum granted r' + lost_total lost' = tsum granted r + lost_total lost"
    and "\<And>n. tsum (granted_to n) r' + lost_to n lost' = tsum (granted_to n) r + lost_to n lost"
    and "\<And>e. e \<in> snd ` set (wr_tasks r') \<Longrightarrow> granted e \<ge> 0" "\<And>x. x \<in> set lost' \<Longrightarrow> snd x \<ge> 0"
  shows "bytes_inv cfg r' lost'"
  using bytes_invD(3-6) [OF assms(1)] assms(2-) by (intro bytes_invI) simp_all

lemma granted_set:
  "bytes_inv cfg r lost \<Longrightarrow> granted v \<ge> 0 \<Longrightarrow> e \<in> snd ` set (dict_set t v (wr_tasks r)) \<Longrightarrow> granted e \<ge> 0"
  using bytes_invD(1) [of cfg r lost] set_dict_set [of t v "wr_tasks r"] by fastforce

lemma granted_pop: "bytes_inv cfg r lost \<Longrightarrow> e \<in> snd ` set (wr_tasks (task_done t n r)) \<Longrightarrow> granted e \<ge> 0"
  using bytes_invD(1) [of cfg r lost] set_dict_pop [of t "wr_tasks r"] by (fastforce simp: wr_tasks_done)

lemma granted_task: "bytes_inv cfg r lost \<Longrightarrow> dict_get (wr_tasks r) t = Some e \<Longrightarrow> granted e \<ge> 0"
  using bytes_invD(1) [of cfg r lost e] map_of_SomeD [of "wr_tasks r" t e] by force

lemma wh_inv_items: "wh_inv cfg (r\<lparr>wr_items := i\<rparr>) lost = wh_inv cfg r lost"
  by (simp add: wh_inv_def track_inv_bytes caps_inv_def bytes_inv_def)

lemma fire_one_inv:
  assumes inv: "wh_inv cfg r lost"
  shows "wh_inv cfg (fire_one cfg wants sub r) lost"
proof (cases "ws_enabled sub \<and> wants sub \<and> has_room cfg sub r")
  case True
  have tr: "track_inv r" using inv by (simp add: wh_inv_def)
  have room: "tsum (\<lambda>_. 1) r < wc_max_deliveries cfg" using True active_count [OF tr] by (simp add: has_room_def)
  have le: "tsum working r \<le> tsum (\<lambda>_. 1) r" "tsum delivering r \<le> tsum (\<lambda>_. 1) r"
    by (intro tsum_mono; simp add: weights)+
  have f: "fire_one cfg wants sub r = spawn (ws_name sub) Delivering r" using True by (simp add: fire_one_def)
  have "caps_inv cfg (spawn (ws_name sub) Delivering r)"
    using room le by (simp add: caps_inv_def tsum_spawn [OF tr] weights max_def)
  moreover have b: "bytes_inv cfg r lost" using inv by (simp add: wh_inv_def)
  have "bytes_inv cfg (spawn (ws_name sub) Delivering r) lost"
    by (rule bytes_inv_same [OF b]; (insert bytes_invD(1,2) [OF b])?)
      (auto simp: tsum_spawn [OF tr] wr_tasks_spawn [OF tr] weights)
  ultimately show ?thesis using track_inv_spawn [OF tr] by (simp add: wh_inv_def f)
next
  case False
  then show ?thesis using inv by (auto simp: fire_one_def)
qed

lemma fold_fire_inv: "wh_inv cfg r lost \<Longrightarrow> wh_inv cfg (fold (fire_one cfg wants) subs r) lost"
  by (induction subs arbitrary: r) (simp_all add: fire_one_inv)

lemma set_state_inv:
  assumes inv: "wh_inv cfg r lost" and t: "dict_get (wr_tasks r) t = Some (n, st)"
    and same: "granted (n, st') = granted (n, st)" and d: "delivering (n, st') \<le> delivering (n, st)"
    and w: "working (n, st') \<le> working (n, st)"
  shows "wh_inv cfg (r\<lparr>wr_tasks := dict_set t (n, st') (wr_tasks r)\<rparr>) lost"
proof -
  have tr: "track_inv r" and b: "bytes_inv cfg r lost" using inv by (simp_all add: wh_inv_def)
  have g: "granted_to m (n, st') = granted_to m (n, st)" for m using same by (simp add: granted_to_def granted_def)
  have "bytes_inv cfg (r\<lparr>wr_tasks := dict_set t (n, st') (wr_tasks r)\<rparr>) lost"
  proof (rule bytes_inv_same [OF b])
    show "e \<in> snd ` set (wr_tasks (r\<lparr>wr_tasks := dict_set t (n, st') (wr_tasks r)\<rparr>)) \<Longrightarrow> granted e \<ge> 0" for e
      using granted_set [OF b, of "(n, st')" e t] granted_task [OF b t] same by simp
  qed (simp_all add: tsum_state [OF t] same g bytes_invD(2) [OF b])
  then show ?thesis
    using inv track_inv_state [OF tr t, of st'] d w by (simp add: wh_inv_def caps_inv_def tsum_state [OF t])
qed

lemma done_inv:
  assumes inv: "wh_inv cfg r lost" and t: "dict_get (wr_tasks r) t = Some (n, st)" and "granted (n, st) = 0"
  shows "wh_inv cfg (task_done t n r) lost"
proof -
  have tr: "track_inv r" and b: "bytes_inv cfg r lost" using inv by (simp_all add: wh_inv_def)
  have w: "working (n, st) \<ge> 0" "delivering (n, st) \<ge> 0" "granted_to m (n, st) = 0" for m
    using assms(3) by (simp_all add: weights)
  have "bytes_inv cfg (task_done t n r) lost"
    using assms(3) w by (intro bytes_inv_same [OF b] granted_pop [OF b] bytes_invD(2) [OF b])
      (simp_all add: tsum_done [OF tr t])
  then show ?thesis
    using inv track_inv_done [OF tr t] w by (simp add: wh_inv_def caps_inv_def tsum_done [OF tr t])
qed

lemma request_retry_inv:
  assumes inv: "wh_inv cfg r lost" and t: "dict_get (wr_tasks r) t = Some (n, Delivering)" and b: "b \<ge> 0"
  shows "wh_inv cfg (request_retry cfg t n b r) lost"
proof -
  let ?h = "r\<lparr>wr_tasks := dict_set t (n, HandedOver) (wr_tasks r)\<rparr>"
  have h: "wh_inv cfg ?h lost" by (rule set_state_inv [OF inv t]) (simp_all add: weights)
  have tr: "track_inv r" "track_inv ?h" using inv h by (simp_all add: wh_inv_def)
  have caps: "caps_inv cfg r" using inv by (simp add: wh_inv_def)
  have caps': "caps_inv cfg (spawn n (Retrying b False) g)" if "track_inv g" "\<And>w. tsum w g = tsum w ?h" for g
    using caps that by (simp add: caps_inv_def tsum_spawn tsum_state [OF t] weights)
  show ?thesis
  proof (cases "wc_retry_budget cfg > 0")
    case False
    then have "bytes_inv cfg (spawn n (Retrying b False) ?h) lost"
      using h b unfolding wh_inv_def bytes_inv_def by (simp add: wr_tasks_spawn [OF tr(2)] granted_def)
    then show ?thesis
      using False caps' [OF tr(2)] track_inv_spawn [OF tr(2)] by (simp add: request_retry_def wh_inv_def)
  next
    case budget: True
    show ?thesis
    proof (cases "retry_fits cfg n b r")
      case False
      then show ?thesis using budget h by (simp add: request_retry_def)
    next
      case True
      let ?g = "grant n b ?h"
      have g: "track_inv ?g" using tr(2) by simp
      have hb: "bytes_inv cfg ?h lost" using h by (simp add: wh_inv_def)
      have fits: "wr_retry_bytes r + b \<le> wc_retry_budget cfg"
        "wc_retry_per_sub cfg > 0 \<Longrightarrow> bytes_of r n + b \<le> wc_retry_per_sub cfg"
        using True by (simp_all add: retry_fits_def)
      have "bytes_inv cfg (spawn n (Retrying b False) ?g) lost"
      proof (rule bytes_invI)
        show "e \<in> snd ` set (wr_tasks (spawn n (Retrying b False) ?g)) \<Longrightarrow> granted e \<ge> 0" for e
          using b bytes_invD(1) [OF hb, of e] by (auto simp: wr_tasks_spawn [OF g] granted_def)
      qed (use bytes_invD(2-6) [OF hb] budget fits in
          \<open>simp_all add: tsum_spawn [OF g] bytes_of_grant weights\<close>)
      then show ?thesis
        using budget True caps' [OF g] track_inv_spawn [OF g] by (simp add: request_retry_def wh_inv_def)
    qed
  qed
qed

lemma account_nonneg:
  assumes "\<And>e. e \<in> snd ` set (wr_tasks r) \<Longrightarrow> granted e \<ge> 0" "\<And>x. x \<in> set lost \<Longrightarrow> snd x \<ge> 0"
  shows "tsum granted r + lost_total lost \<ge> 0" "tsum (granted_to n) r + lost_to n lost \<ge> 0"
proof -
  have "lost_total lost \<ge> 0" using assms(2) by (force simp: lost_total_def intro: sum_list_nonneg)
  moreover have "lost_to n lost \<ge> 0" using assms(2) by (force simp: lost_to_def intro: sum_list_nonneg)
  moreover have "tsum granted r \<ge> 0" "tsum (granted_to n) r \<ge> 0"
    using assms(1) by (intro tsum_nonneg; simp add: granted_to_def)+
  ultimately show "tsum granted r + lost_total lost \<ge> 0" "tsum (granted_to n) r + lost_to n lost \<ge> 0" by simp_all
qed

text \<open>Releasing never clamps: the counters are at least what is released.\<close>

lemma retry_finish_inv:
  assumes inv: "wh_inv cfg r lost" and t: "dict_get (wr_tasks r) t = Some (n, Retrying b True)"
  shows "wh_inv cfg (retry_finish cfg t n b r) lost"
proof -
  let ?s = "r\<lparr>wr_tasks := dict_set t (n, Released) (wr_tasks r)\<rparr>" and ?f = "retry_finish cfg t n b r"
  have tr: "track_inv r" and bi: "bytes_inv cfg r lost" using inv by (simp_all add: wh_inv_def)
  have b: "b \<ge> 0" using granted_task [OF bi t] by (simp add: granted_def)
  have pos: "e \<in> snd ` set (wr_tasks ?s) \<Longrightarrow> granted e \<ge> 0" for e
    using granted_set [OF bi, of "(n, Released)" e t] by (simp add: granted_def)
  have sums: "tsum granted ?s = tsum granted r - b"
    "tsum (granted_to m) ?s = tsum (granted_to m) r - (if m = n then b else 0)" for m
    by (simp_all add: tsum_state [OF t] weights)
  note nn = account_nonneg [of ?s lost, OF pos bytes_invD(2) [OF bi]]
  have f: "wr_tasks ?f = wr_tasks ?s" "tsum w ?f = tsum w ?s" for w by (simp_all add: retry_finish_def)
  have acc: "wr_retry_bytes ?f = wr_retry_bytes r - b" "bytes_of ?f m = bytes_of r m - (if m = n then b else 0)"
    if c: "wc_retry_budget cfg > 0" for m
  proof -
    have "wr_retry_bytes r - b \<ge> 0" using nn(1) bytes_invD(3) [OF bi c] sums(1) by simp
    then show "wr_retry_bytes ?f = wr_retry_bytes r - b" using c by (simp add: retry_finish_def release_def Let_def)
    have "bytes_of r n - b \<ge> 0" using nn(2) [of n] bytes_invD(4) [OF bi c, of n] sums(2) [of n] by simp
    then show "bytes_of ?f m = bytes_of r m - (if m = n then b else 0)"
      using c by (simp add: retry_finish_def bytes_of_release)
  qed
  have "bytes_inv cfg ?f lost"
  proof (rule bytes_invI)
    fix m assume c: "wc_retry_budget cfg > 0"
    show "wr_retry_bytes ?f = tsum granted ?f + lost_total lost" "bytes_of ?f m = tsum (granted_to m) ?f + lost_to m lost"
      using c sums bytes_invD(3,4) [OF bi c] by (simp_all add: f(2) acc)
    show "wr_retry_bytes ?f \<le> wc_retry_budget cfg" using b bytes_invD(5) [OF bi c] by (simp add: acc [OF c])
    assume "wc_retry_per_sub cfg > 0"
    from bytes_invD(6) [OF bi c this, of m] show "bytes_of ?f m \<le> wc_retry_per_sub cfg"
      using b by (cases "m = n") (simp_all add: acc [OF c])
  qed (use pos bytes_invD(2) [OF bi] f in \<open>simp_all\<close>)
  moreover have "track_inv ?f" using track_inv_state [OF tr t] by (simp add: retry_finish_def)
  moreover have "caps_inv cfg ?f"
    using inv by (simp add: wh_inv_def caps_inv_def f(2) tsum_state [OF t] weights)
  ultimately show ?thesis by (simp add: wh_inv_def)
qed

lemma cancel_unstarted_inv:
  assumes inv: "wh_inv cfg r lost" and t: "dict_get (wr_tasks r) t = Some (n, Retrying b False)"
  shows "wh_inv cfg (task_done t n r) ((n, b) # lost)"
proof -
  have tr: "track_inv r" and bi: "bytes_inv cfg r lost" using inv by (simp_all add: wh_inv_def)
  have b: "b \<ge> 0" using granted_task [OF bi t] by (simp add: granted_def)
  have "bytes_inv cfg (task_done t n r) ((n, b) # lost)"
  proof (rule bytes_inv_same [OF bi])
    show "x \<in> set ((n, b) # lost) \<Longrightarrow> snd x \<ge> 0" for x using b bytes_invD(2) [OF bi, of x] by auto
    show "e \<in> snd ` set (wr_tasks (task_done t n r)) \<Longrightarrow> granted e \<ge> 0" for e by (rule granted_pop [OF bi])
  qed (simp_all add: tsum_done [OF tr t] lost_total_def lost_to_def weights)
  then show ?thesis
    using inv track_inv_done [OF tr t]
    by (simp add: wh_inv_def caps_inv_def tsum_done [OF tr t] weights)
qed

lemma wh_run_inv: "wh_run cfg fnm pe r lost \<Longrightarrow> wh_inv cfg r lost"
proof (induction rule: wh_run.induct)
  case wrun_start
  have "deliveries_of init_wh_runner = (\<lambda>_. [])" by (simp add: deliveries_of_def init_wh_runner_def tasks_of_def fun_eq_iff)
  then show ?case
    by (simp add: wh_inv_def track_inv_def caps_inv_def bytes_inv_def pool_ok_def init_wh_runner_def tsum_def bytes_of_def
        dict_wf_def dict_keys_def lost_total_def lost_to_def)
next
  case (wrun_register r lost path contents)
  then show ?case by (simp add: wh_register_file_def wh_register_def wh_unregister_def Let_def wh_inv_items split: option.split)
next
  case (wrun_unregister r lost path)
  then show ?case by (simp add: wh_unregister_def wh_inv_items)
next
  case (wrun_fire r lost c)
  then show ?case by (simp add: fire_def fold_fire_inv)
next
  case (wrun_hook r lost decision)
  then show ?case by (simp add: fire_hook_decision_def Let_def fold_fire_inv)
next
  case (wrun_request r lost t name bytes)
  then show ?case by (simp add: request_retry_inv)
next
  case (wrun_retry_start r lost t name bytes)
  then show ?case
    unfolding retry_start_def by (intro set_state_inv [where st = "Retrying bytes False"]) (simp_all add: weights)
next
  case (wrun_retry_finish r lost t name bytes)
  then show ?case by (simp add: retry_finish_inv)
next
  case (wrun_done r lost t name st)
  then show ?case by (intro done_inv) (auto simp: granted_def)
next
  case (wrun_cancel_unstarted r lost t name bytes)
  then show ?case by (simp add: cancel_unstarted_inv)
qed

section \<open>The caps and the budget hold\<close>

lemma tsum_count: "tsum (\<lambda>e. if P e then 1 else 0) r = int (length (filter (\<lambda>(t, e). P e) (wr_tasks r)))"
proof -
  have "sum_list (map (\<lambda>(t, e). if P e then 1 else 0) ts) = int (length (filter (\<lambda>(t, e). P e) ts))"
    for ts :: "(nat \<times> pystr \<times> wh_task) list" by (induction ts) auto
  then show ?thesis by (simp add: tsum_def)
qed

text \<open>In every run of the webhook runner the delivery and retry tasks that still have work to do are at
  most \<open>WEBHOOK_MAX_CONCURRENT_DELIVERIES\<close>, and all tracked tasks, counting the deliveries that have handed
  over to a retry and are about to return, at most twice as many; the active set holds each live task
  once, and each live task is filed under the name of exactly one subscription, its own.\<close>

theorem webhook_caps:
  assumes "wh_run cfg fnm pe r lost"
  shows "int (length (filter (\<lambda>(t, n, st). st \<noteq> HandedOver) (wr_tasks r))) \<le> max 0 (wc_max_deliveries cfg) \<and>
    int (length (wr_active_deliveries r)) \<le> 2 * max 0 (wc_max_deliveries cfg) \<and>
    distinct (wr_active_deliveries r) \<and>
    (\<forall>t. t \<in> set (wr_active_deliveries r) \<longleftrightarrow> dict_has (wr_tasks r) t) \<and>
    (\<forall>t n. t \<in> set (deliveries_of r n) \<longleftrightarrow> (\<exists>st. dict_get (wr_tasks r) t = Some (n, st)))"
proof -
  have inv: "track_inv r" "caps_inv cfg r" using wh_run_inv [OF assms] by (simp_all add: wh_inv_def)
  note tr = track_invD [OF inv(1)]
  have "tsum working r = int (length (filter (\<lambda>(t, n, st). st \<noteq> HandedOver) (wr_tasks r)))"
    using tsum_count [of "\<lambda>e. snd e \<noteq> HandedOver" r] by (simp add: working_def [abs_def] split_def)
  moreover have "tsum delivering r \<ge> 0" by (rule tsum_nonneg) (simp add: delivering_def)
  moreover have "t \<in> set (wr_active_deliveries r) \<longleftrightarrow> dict_has (wr_tasks r) t" for t
    using pool_okD(4) [OF tr(1)] tr(3) by (auto simp: dict_has_def)
  ultimately show ?thesis
    using inv(2) active_count [OF inv(1)] pool_okD(1) [OF tr(1)] tr(3) by (simp add: caps_inv_def)
qed

text \<open>C28: With a retry budget configured, the bytes counted as in flight are in every run exactly the bytes
  granted to the retries that have not released them plus those lost to retries cancelled before they
  started, and so are the bytes counted for each subscription; neither exceeds its ceiling. When no
  retry is live and none was cancelled before it started, both counters are back to zero.\<close>

theorem retry_bytes_accounted:
  assumes "wh_run cfg fnm pe r lost" "wc_retry_budget cfg > 0"
  shows "wr_retry_bytes r = tsum granted r + lost_total lost \<and> wr_retry_bytes r \<le> wc_retry_budget cfg \<and>
    (\<forall>n. bytes_of r n = tsum (granted_to n) r + lost_to n lost) \<and>
    (wc_retry_per_sub cfg > 0 \<longrightarrow> (\<forall>n. bytes_of r n \<le> wc_retry_per_sub cfg)) \<and>
    (wr_tasks r = [] \<and> lost = [] \<longrightarrow> wr_retry_bytes r = 0 \<and> (\<forall>n. bytes_of r n = 0))"
proof -
  have "bytes_inv cfg r lost" using wh_run_inv [OF assms(1)] by (simp add: wh_inv_def)
  from bytes_invD(3-6) [OF this assms(2)] show ?thesis by (simp add: tsum_def lost_total_def lost_to_def)
qed

text \<open>A run: one subscription is registered, a completion starts a delivery, its first attempt fails and
  asks for a retry of 100 bytes, the delivery returns, and the retry is cancelled before it starts.\<close>

definition demo_hook_pe :: parse_env where
  "demo_hook_pe = \<lparr>pe_yaml = (\<lambda>_. Some (PDict [(''url'', PStr ''http://h''), (''retries'', PInt 2)])),
     pe_literal_eval = (\<lambda>_. None), pe_float_int = (\<lambda>_. IntValueError), pe_dns = (\<lambda>_. DnsAddrs []), pe_environ = Map.empty\<rparr>"

definition demo_md :: pystr where
  "demo_md = ''---'' @ [CHR 0x0A] @ ''x'' @ [CHR 0x0A] @ ''---'' @ [CHR 0x0A] @ ''go''"

definition demo_fired :: wh_runner where
  "demo_fired = fire demo_wh_cfg (\<lambda>_ _. False) demo_completion
     (wh_register_file demo_wh_cfg demo_hook_pe ''/w/a.md'' (Some demo_md) init_wh_runner)"

definition demo_retrying :: wh_runner where
  "demo_retrying = request_retry demo_wh_cfg 0 ''a'' 100 demo_fired"

definition demo_cancelled :: wh_runner where
  "demo_cancelled = task_done 1 ''a'' (task_done 0 ''a'' demo_retrying)"

lemma demo_wh_states:
  "wr_tasks demo_fired = [(0, ''a'', Delivering)]"
  "wr_tasks demo_retrying = [(0, ''a'', HandedOver), (1, ''a'', Retrying 100 False)]"
  "wr_active_deliveries demo_retrying = [1, 0]"
  "wr_tasks (task_done 0 ''a'' demo_retrying) = [(1, ''a'', Retrying 100 False)]"
  "wr_tasks demo_cancelled = []"
  by code_simp+

lemma demo_wh_run: "wh_run demo_wh_cfg (\<lambda>_ _. False) demo_hook_pe demo_retrying []"
proof -
  have "wh_run demo_wh_cfg (\<lambda>_ _. False) demo_hook_pe demo_fired []"
    unfolding demo_fired_def by (intro wrun_fire wrun_register wrun_start)
  from wrun_request [OF this, of 0 "''a''" 100] show ?thesis by (simp add: demo_wh_states demo_retrying_def)
qed

theorem webhook_caps_witness:
  "wr_tasks demo_retrying = [(0, ''a'', HandedOver), (1, ''a'', Retrying 100 False)] \<and>
   int (length (wr_active_deliveries demo_retrying)) \<le> 2 * max 0 (wc_max_deliveries demo_wh_cfg)"
  using webhook_caps [OF demo_wh_run] by (simp add: demo_wh_states)

theorem retry_bytes_accounted_witness:
  "wr_tasks demo_cancelled = [] \<and> wr_retry_bytes demo_cancelled = 100 \<and> bytes_of demo_cancelled ''a'' = 100"
proof -
  have "wh_run demo_wh_cfg (\<lambda>_ _. False) demo_hook_pe (task_done 0 ''a'' demo_retrying) []"
    using wrun_done [OF demo_wh_run, of 0 "''a''" HandedOver] by (simp add: demo_wh_states)
  from wrun_cancel_unstarted [OF this, of 1 "''a''" 100]
  have "wh_run demo_wh_cfg (\<lambda>_ _. False) demo_hook_pe demo_cancelled [(''a'', 100)]"
    by (simp add: demo_wh_states demo_cancelled_def)
  moreover have "wc_retry_budget demo_wh_cfg > 0" by (simp add: demo_wh_cfg_def)
  ultimately show ?thesis
    using retry_bytes_accounted [of demo_wh_cfg "\<lambda>_ _. False" demo_hook_pe demo_cancelled "[(''a'', 100)]"]
    by (simp add: demo_wh_states tsum_def lost_total_def lost_to_def)
qed

text \<open>A delivery that fails while \<open>close\<close> is waiting for it leaves a retry behind that the snapshot does not
  hold: the client is closed with that retry still to come.\<close>

lemma close_misses_retry:
  "close_pending demo_fired = [0] \<and>
   close_ready (close_pending demo_fired) (task_done 0 ''a'' demo_retrying) \<and>
   wr_tasks (task_done 0 ''a'' demo_retrying) = [(1, ''a'', Retrying 100 False)]"
  by code_simp

section \<open>The registry and the directory\<close>

interpretation wh_files: file_registry "\<lambda>r. dict_get (wr_items r)" "parse_webhook_file cfg pe" "wh_register_file cfg pe"
    wh_unregister wh_paths init_wh_runner
  for cfg pe
proof unfold_locales
  fix r :: wh_runner
  show "set (wh_paths r) = dom (dict_get (wr_items r))"
    by (simp add: wh_paths_def dict_keys_def dom_map_of_conv_image_fst)
  fix p c
  show "dict_get (wr_items (wh_register_file cfg pe p c r)) =
      (case parse_webhook_file cfg pe p c of None \<Rightarrow> dict_get (wr_items r) | Some i \<Rightarrow> (dict_get (wr_items r))(p \<mapsto> i))"
    by (cases "parse_webhook_file cfg pe p c")
      (simp_all add: wh_register_file_def wh_register_def wh_unregister_def Let_def fun_eq_iff)
  show "dict_get (wr_items (wh_unregister p r)) = (dict_get (wr_items r))(p := None)"
    by (simp add: wh_unregister_def fun_eq_iff)
qed (simp_all add: init_wh_runner_def parse_webhook_file_def)

text \<open>C29: Whenever the watch of the webhooks directory is open and every change it reported has been handled,
  the registered subscriptions mirror the directory: a path without a file has none, a path whose file
  parses has the one its present contents describe, and only a file that does not parse may leave an
  older one in place. The exception are files last changed between the scan and the opening of the watch.\<close>

theorem webhooks_mirror_directory:
  assumes "watch_run (wh_register_file cfg pe) wh_unregister wh_paths init_wh_runner w missed"
    and "wt_phase w = Watching" "wt_pending w = []" "md_file p" "p \<notin> set missed"
  shows "in_sync (parse_webhook_file cfg pe) p (dict_get (wt_fs w) p) (dict_get (wr_items (wt_state w)) p)"
  using assms by (rule wh_files.watcher_in_sync)

text \<open>A turn of the loop on a directory with one file, then a change of that file handled.\<close>

definition demo_hook_reg :: "pystr \<Rightarrow> pystr option \<Rightarrow> wh_runner \<Rightarrow> wh_runner" where
  "demo_hook_reg = wh_register_file demo_wh_cfg demo_hook_pe"

definition demo_scanned :: "(pystr \<times> pystr) list \<Rightarrow> wh_runner watcher" where
  "demo_scanned fs = begin_watch (scan_one demo_hook_reg (begin_scan (init_watcher fs init_wh_runner)))"

theorem webhooks_mirror_directory_witness:
  "in_sync (parse_webhook_file demo_wh_cfg demo_hook_pe) ''/w/a.md'' (Some demo_md)
     (dict_get (wr_items (wt_state (demo_scanned [(''/w/a.md'', demo_md)]))) ''/w/a.md'') \<and>
   map_option ws_name (dict_get (wr_items (wt_state (demo_scanned [(''/w/a.md'', demo_md)]))) ''/w/a.md'') = Some ''a''"
proof
  let ?w = "demo_scanned [(''/w/a.md'', demo_md)]"
  have ph: "wt_phase (begin_scan (init_watcher [(''/w/a.md'', demo_md)] init_wh_runner)) = Scanning [''/w/a.md'']"
    "wt_phase (scan_one demo_hook_reg (begin_scan (init_watcher [(''/w/a.md'', demo_md)] init_wh_runner))) = Scanning []"
    "wt_phase ?w = Watching" "wt_pending ?w = []" "md_file ''/w/a.md''"
    "dict_get (wt_fs ?w) ''/w/a.md'' = Some demo_md" "wt_phase (init_watcher [(''/w/a.md'', demo_md)] init_wh_runner) = Idle"
    by code_simp+
  have "watch_run demo_hook_reg wh_unregister wh_paths init_wh_runner ?w []"
    unfolding demo_scanned_def
    by (intro watch_open [OF _ ph(2)] watch_scan_one [OF _ ph(1)] watch_scan [OF watch_start ph(7)])
      (simp add: dict_wf_def dict_keys_def)
  from webhooks_mirror_directory [OF this [unfolded demo_hook_reg_def] ph(3,4,5)]
  show "in_sync (parse_webhook_file demo_wh_cfg demo_hook_pe) ''/w/a.md'' (Some demo_md)
     (dict_get (wr_items (wt_state ?w)) ''/w/a.md'')" by (simp add: ph(6))
  show "map_option ws_name (dict_get (wr_items (wt_state ?w)) ''/w/a.md'') = Some ''a''" by code_simp
qed

text \<open>A file created after the scan has listed the directory and before the watch is open is in the
  directory, parses, and is not registered, and nothing is pending that would register it.\<close>

lemma watcher_misses_file:
  fixes w :: "wh_runner watcher"
  defines "w \<equiv> begin_watch (fs_change ''/w/a.md'' (Some demo_md) (begin_scan (init_watcher [] init_wh_runner)))"
  shows "watch_run (wh_register_file demo_wh_cfg demo_hook_pe) wh_unregister wh_paths init_wh_runner w [''/w/a.md''] \<and>
    wt_phase w = Watching \<and> wt_pending w = [] \<and>
    \<not> in_sync (parse_webhook_file demo_wh_cfg demo_hook_pe) ''/w/a.md'' (dict_get (wt_fs w) ''/w/a.md'')
        (dict_get (wr_items (wt_state w)) ''/w/a.md'')"
proof -
  let ?s = "begin_scan (init_watcher [] init_wh_runner)" and ?reg = "wh_register_file demo_wh_cfg demo_hook_pe"
  have "watch_run ?reg wh_unregister wh_paths init_wh_runner ?s []"
    by (rule watch_scan [OF watch_start]) (simp_all add: dict_wf_def dict_keys_def init_watcher_def)
  from watch_fs [OF this, of "''/w/a.md''" "Some demo_md"]
  have "watch_run ?reg wh_unregister wh_paths init_wh_runner (fs_change ''/w/a.md'' (Some demo_md) ?s) [''/w/a.md'']"
    by (simp add: unseen_def begin_scan_def init_watcher_def dict_keys_def)
  then have "watch_run ?reg wh_unregister wh_paths init_wh_runner w [''/w/a.md'']"
    unfolding w_def by (rule watch_open) (simp add: fs_change_def begin_scan_def init_watcher_def dict_keys_def)
  moreover have "wt_phase w = Watching \<and> wt_pending w = []"
    by (simp add: w_def begin_watch_def fs_change_def begin_scan_def init_watcher_def)
  moreover have "\<not> in_sync (parse_webhook_file demo_wh_cfg demo_hook_pe) ''/w/a.md'' (dict_get (wt_fs w) ''/w/a.md'')
        (dict_get (wr_items (wt_state w)) ''/w/a.md'')"
    unfolding w_def by code_simp
  ultimately show ?thesis by blast
qed

end
