(* ===== verification/Scheduler.thy ===== *)
theory Scheduler
  imports Dir_Watcher Message_Bus
begin

text \<open>
  What the job runner (\<open>harness/jobs.py\<close>) and the task runner (\<open>harness/tasks.py\<close>) share: a registry of
  items read from files, one coroutine per enabled item, a semaphore that caps how many fire at the same
  time, the \<open>running\<close> flag and the checkpoint file of a fire, and the times at which a cron schedule fires.
  The items are a type parameter. A coroutine is the number of its task, the item it was started for and how
  far it has got; it is cut at its awaits. Cancelling a task marks it: the mark takes effect at the await the
  coroutine is in, at once when it sleeps or waits for the semaphore, after the drain when it fires.
\<close>

section \<open>State\<close>

text \<open>Sleeping until the next tick (or waiting for the backends), waiting for the semaphore, or inside the
  guarded block of a fire.\<close>

datatype sched_phase = Parked | Waiting | Firing

text \<open>A coroutine works on one item object, which it shares with the registry and with the coroutines of ad-hoc
  runs; objects are numbered.\<close>

record 'i sched_co =
  sc_path :: pystr
  sc_item :: 'i
  sc_obj :: nat
  sc_phase :: sched_phase
  sc_adhoc :: bool
  sc_cancelled :: bool

record 'i sched_entry =
  se_item :: 'i
  se_obj :: nat
  se_task :: "nat option"

text \<open>\<open>sr_running\<close> are the objects whose \<open>running\<close> flag is set.\<close>

record 'i sched_runner =
  sr_items :: "(pystr \<times> 'i sched_entry) list"
  sr_next :: nat
  sr_cos :: "(nat \<times> 'i sched_co) list"
  sr_permits :: "int option"
  sr_running :: "nat list"
  sr_checkpoints :: "pystr list"

definition init_sched :: "int \<Rightarrow> 'i sched_runner" where
  "init_sched max_concurrent =
     \<lparr>sr_items = [], sr_next = 0, sr_cos = [], sr_permits = (if max_concurrent > 0 then Some max_concurrent else None),
      sr_running = [], sr_checkpoints = []\<rparr>"

section \<open>Registration\<close>

definition task_cancel :: "nat \<Rightarrow> 'i sched_runner \<Rightarrow> 'i sched_runner" where
  "task_cancel t r =
     (case dict_get (sr_cos r) t of
        None \<Rightarrow> r
      | Some c \<Rightarrow> r\<lparr>sr_cos := dict_set t (c\<lparr>sc_cancelled := True\<rparr>) (sr_cos r)\<rparr>)"

definition sched_unregister :: "pystr \<Rightarrow> 'i sched_runner \<Rightarrow> 'i sched_runner" where
  "sched_unregister path r =
     (case dict_get (sr_items r) path of
        None \<Rightarrow> r
      | Some e \<Rightarrow>
          (let r1 = r\<lparr>sr_items := dict_pop path (sr_items r)\<rparr>
           in case se_task e of None \<Rightarrow> r1 | Some t \<Rightarrow> task_cancel t r1))"

text \<open>The end of \<open>_register\<close>: a disabled item is listed only, an enabled one gets a coroutine. One number serves as
  the object's and the task's.\<close>

definition sched_arm :: "('i \<Rightarrow> bool) \<Rightarrow> pystr \<Rightarrow> 'i \<Rightarrow> 'i sched_runner \<Rightarrow> 'i sched_runner" where
  "sched_arm enabled path item r =
     (let t = sr_next r
      in if \<not> enabled item
         then r\<lparr>sr_next := Suc t,
                sr_items := dict_set path \<lparr>se_item = item, se_obj = t, se_task = None\<rparr> (sr_items r)\<rparr>
         else r\<lparr>sr_next := Suc t,
                sr_items := dict_set path \<lparr>se_item = item, se_obj = t, se_task = Some t\<rparr> (sr_items r),
                sr_cos := dict_set t \<lparr>sc_path = path, sc_item = item, sc_obj = t, sc_phase = Parked, sc_adhoc = False,
                                      sc_cancelled = False\<rparr> (sr_cos r)\<rparr>)"

section \<open>A fire\<close>

definition checkpoint_of :: "pystr \<Rightarrow> pystr" where
  "checkpoint_of path = path_stem path @ ''.running.json''"

text \<open>Entering the fire: the flag is set and the checkpoint written, if that succeeds.\<close>

definition begin_fire :: "bool \<Rightarrow> nat \<Rightarrow> 'i sched_co \<Rightarrow> 'i sched_runner \<Rightarrow> 'i sched_runner" where
  "begin_fire written t c r =
     r\<lparr>sr_cos := dict_set t (c\<lparr>sc_phase := Firing\<rparr>) (sr_cos r),
       sr_running := List.insert (sc_obj c) (sr_running r),
       sr_checkpoints := (if written then List.insert (checkpoint_of (sc_path c)) (sr_checkpoints r) else sr_checkpoints r)\<rparr>"

text \<open>A tick: skipped while the item is running, unless it is one that runs \<open>once\<close>, a job without a schedule or
  a task without a window, whose start does not look at the flag; otherwise the semaphore, if there is one.\<close>

definition sched_tick :: "('i \<Rightarrow> bool) \<Rightarrow> bool \<Rightarrow> nat \<Rightarrow> 'i sched_runner \<Rightarrow> 'i sched_runner" where
  "sched_tick once written t r =
     (case dict_get (sr_cos r) t of
        None \<Rightarrow> r
      | Some c \<Rightarrow>
          if \<not> once (sc_item c) \<and> sc_obj c \<in> set (sr_running r) then r
          else if sr_permits r = None then begin_fire written t c r
          else r\<lparr>sr_cos := dict_set t (c\<lparr>sc_phase := Waiting\<rparr>) (sr_cos r)\<rparr>)"

text \<open>The semaphore is acquired, when there is one, and the fire begins; the flag is not looked at again.\<close>

definition sched_acquire :: "bool \<Rightarrow> nat \<Rightarrow> 'i sched_runner \<Rightarrow> 'i sched_runner" where
  "sched_acquire written t r =
     (case dict_get (sr_cos r) t of
        None \<Rightarrow> r
      | Some c \<Rightarrow> begin_fire written t c (r\<lparr>sr_permits := map_option (\<lambda>k. k - 1) (sr_permits r)\<rparr>))"

text \<open>The \<open>finally\<close> block of a fire.\<close>

definition fire_finally :: "'i sched_co \<Rightarrow> 'i sched_runner \<Rightarrow> 'i sched_runner" where
  "fire_finally c r =
     r\<lparr>sr_permits := map_option (\<lambda>k. k + 1) (sr_permits r),
       sr_running := removeAll (sc_obj c) (sr_running r),
       sr_checkpoints := removeAll (checkpoint_of (sc_path c)) (sr_checkpoints r)\<rparr>"

text \<open>The coroutine goes back to sleep after a fire, or ends: cancelled, expired, crashed, or run once.\<close>

definition fire_parks :: "nat \<Rightarrow> 'i sched_runner \<Rightarrow> 'i sched_runner" where
  "fire_parks t r =
     (case dict_get (sr_cos r) t of
        None \<Rightarrow> r
      | Some c \<Rightarrow> fire_finally c (r\<lparr>sr_cos := dict_set t (c\<lparr>sc_phase := Parked\<rparr>) (sr_cos r)\<rparr>))"

definition co_ends :: "nat \<Rightarrow> 'i sched_runner \<Rightarrow> 'i sched_runner" where
  "co_ends t r =
     (case dict_get (sr_cos r) t of
        None \<Rightarrow> r
      | Some c \<Rightarrow>
          (let r1 = r\<lparr>sr_cos := dict_pop t (sr_cos r)\<rparr>
           in if sc_phase c = Firing then fire_finally c r1 else r1))"

text \<open>\<open>_register\<close> of a parsed file as one piece: the old registration goes, its task is cancelled and awaited,
  the new one is armed.\<close>

definition sched_register :: "('i \<Rightarrow> bool) \<Rightarrow> pystr \<Rightarrow> 'i option \<Rightarrow> 'i sched_runner \<Rightarrow> 'i sched_runner" where
  "sched_register enabled path parsed r =
     (case parsed of
        None \<Rightarrow> r
      | Some item \<Rightarrow>
          (let r1 = sched_unregister path r;
               r2 = (case dict_get (sr_items r) path of
                       Some e \<Rightarrow> (case se_task e of Some t \<Rightarrow> co_ends t r1 | None \<Rightarrow> r1)
                     | None \<Rightarrow> r1)
           in sched_arm enabled path item r2))"

definition sched_paths :: "'i sched_runner \<Rightarrow> pystr list" where
  "sched_paths r = dict_keys (sr_items r)"

text \<open>The sweep of checkpoints an earlier process left behind, at the start of \<open>_scan\<close>.\<close>

definition sweep_checkpoints :: "'i sched_runner \<Rightarrow> 'i sched_runner" where
  "sweep_checkpoints r = r\<lparr>sr_checkpoints := filter (\<lambda>n. \<not> endswith n ''.running.json'') (sr_checkpoints r)\<rparr>"

section \<open>Ad-hoc runs\<close>

text \<open>\<open>jobs_run_handler\<close> and \<open>tasks_run_handler\<close> of \<open>harness/main.py\<close>, past the checks of the request: the item is looked
  up by name, refused when its flag is set, and else handed to a background coroutine; \<open>room\<close> tells whether
  \<open>track_background\<close> had room for it, which the handlers do not look at. A job is fired by that coroutine at once,
  which then ends; a task gets \<open>run_task\<close>, the whole loop of a scheduled task: \<open>start\<close> is the phase in which it
  begins, \<^const>\<open>Waiting\<close> when it fires at once. The background coroutine also ends when its time is up.\<close>

datatype adhoc_reply = NotFound | AlreadyRunning | Accepted

definition find_item :: "('i \<Rightarrow> pystr) \<Rightarrow> pystr \<Rightarrow> 'i sched_runner \<Rightarrow> (pystr \<times> 'i sched_entry) option" where
  "find_item name_of name r = find (\<lambda>(p, e). name_of (se_item e) = name) (sr_items r)"

definition sched_adhoc ::
  "('i \<Rightarrow> pystr) \<Rightarrow> bool \<Rightarrow> sched_phase \<Rightarrow> pystr \<Rightarrow> 'i sched_runner \<Rightarrow> adhoc_reply \<times> 'i sched_runner" where
  "sched_adhoc name_of room start name r =
     (case find_item name_of name r of
        None \<Rightarrow> (NotFound, r)
      | Some (path, e) \<Rightarrow>
          if se_obj e \<in> set (sr_running r) then (AlreadyRunning, r)
          else if \<not> room then (Accepted, r)
          else
            (Accepted, r\<lparr>sr_next := Suc (sr_next r),
               sr_cos := dict_set (sr_next r) \<lparr>sc_path = path, sc_item = se_item e, sc_obj = se_obj e, sc_phase = start,
                                             sc_adhoc = True, sc_cancelled = False\<rparr> (sr_cos r)\<rparr>))"

section \<open>Runs\<close>

text \<open>Registering is the sequence of unregistering, the end of the cancelled coroutine and arming, with anything
  else in between; the deletion of a file only unregisters.\<close>

inductive sched_run :: "int \<Rightarrow> ('i \<Rightarrow> bool) \<Rightarrow> ('i \<Rightarrow> bool) \<Rightarrow> ('i \<Rightarrow> pystr) \<Rightarrow> 'i sched_runner \<Rightarrow> bool"
  for max_concurrent enabled once name_of where
  srun_start: "sched_run max_concurrent enabled once name_of (init_sched max_concurrent)"
| srun_unregister: "sched_run max_concurrent enabled once name_of r \<Longrightarrow> sched_run max_concurrent enabled once name_of (sched_unregister path r)"
| srun_arm: "sched_run max_concurrent enabled once name_of r \<Longrightarrow> dict_get (sr_items r) path = None \<Longrightarrow>
    sched_run max_concurrent enabled once name_of (sched_arm enabled path item r)"
| srun_adhoc: "sched_run max_concurrent enabled once name_of r \<Longrightarrow> start \<noteq> Firing \<Longrightarrow>
    sched_run max_concurrent enabled once name_of (snd (sched_adhoc name_of room start name r))"
| srun_tick: "sched_run max_concurrent enabled once name_of r \<Longrightarrow> dict_get (sr_cos r) t = Some c \<Longrightarrow> sc_phase c = Parked \<Longrightarrow>
    \<not> sc_cancelled c \<Longrightarrow> sched_run max_concurrent enabled once name_of (sched_tick once written t r)"
| srun_acquire: "sched_run max_concurrent enabled once name_of r \<Longrightarrow> dict_get (sr_cos r) t = Some c \<Longrightarrow> sc_phase c = Waiting \<Longrightarrow>
    \<not> sc_cancelled c \<Longrightarrow> (case sr_permits r of Some k \<Rightarrow> k > 0 | None \<Rightarrow> True) \<Longrightarrow>
    sched_run max_concurrent enabled once name_of (sched_acquire written t r)"
| srun_parks: "sched_run max_concurrent enabled once name_of r \<Longrightarrow> dict_get (sr_cos r) t = Some c \<Longrightarrow> sc_phase c = Firing \<Longrightarrow>
    \<not> sc_cancelled c \<Longrightarrow> sched_run max_concurrent enabled once name_of (fire_parks t r)"
| srun_ends: "sched_run max_concurrent enabled once name_of r \<Longrightarrow> sched_run max_concurrent enabled once name_of (co_ends t r)"
| srun_sweep: "sched_run max_concurrent enabled once name_of r \<Longrightarrow> sched_run max_concurrent enabled once name_of (sweep_checkpoints r)"

section \<open>The cap and the registrations\<close>

definition firing :: "'i sched_runner \<Rightarrow> int" where
  "firing r = sum_list (map (\<lambda>(t, c). if sc_phase c = Firing then 1 else 0) (sr_cos r))"

definition permits_ok :: "int \<Rightarrow> 'i sched_runner \<Rightarrow> bool" where
  "permits_ok n r = (if n > 0 then sr_permits r = Some (n - firing r) \<and> firing r \<le> n else sr_permits r = None)"

definition co_ok :: "('i \<Rightarrow> bool) \<Rightarrow> 'i sched_runner \<Rightarrow> bool" where
  "co_ok enabled r =
     (dict_wf (sr_cos r) \<and> (\<forall>t c. dict_get (sr_cos r) t = Some c \<longrightarrow>
        t < sr_next r \<and> (\<not> sc_adhoc c \<longrightarrow> enabled (sc_item c)) \<and>
        (\<not> sc_adhoc c \<longrightarrow> \<not> sc_cancelled c \<longrightarrow>
           dict_get (sr_items r) (sc_path c) = Some \<lparr>se_item = sc_item c, se_obj = sc_obj c, se_task = Some t\<rparr>)))"

definition flag_ok :: "'i sched_runner \<Rightarrow> bool" where
  "flag_ok r = (\<forall>obj\<in>set (sr_running r). \<exists>t c. dict_get (sr_cos r) t = Some c \<and> sc_obj c = obj \<and> sc_phase c = Firing)"

definition sched_inv :: "int \<Rightarrow> ('i \<Rightarrow> bool) \<Rightarrow> 'i sched_runner \<Rightarrow> bool" where
  "sched_inv n enabled r = (permits_ok n r \<and> co_ok enabled r \<and> flag_ok r)"

lemma sched_invD: "sched_inv n enabled r \<Longrightarrow> permits_ok n r" "sched_inv n enabled r \<Longrightarrow> co_ok enabled r"
  "sched_inv n enabled r \<Longrightarrow> flag_ok r"
  by (simp_all add: sched_inv_def)

lemma co_okD:
  assumes "co_ok enabled r" "dict_get (sr_cos r) t = Some c"
  shows "t < sr_next r" "\<not> sc_adhoc c \<Longrightarrow> enabled (sc_item c)"
    "\<not> sc_adhoc c \<Longrightarrow> \<not> sc_cancelled c \<Longrightarrow>
       dict_get (sr_items r) (sc_path c) = Some \<lparr>se_item = sc_item c, se_obj = sc_obj c, se_task = Some t\<rparr>"
  using assms unfolding co_ok_def by blast+

lemma co_ok_wf: "co_ok enabled r \<Longrightarrow> dict_wf (sr_cos r)"
  by (simp add: co_ok_def)

lemma firing_set:
  "dict_get (sr_cos r) t = Some c \<Longrightarrow> sr_cos r' = dict_set t c' (sr_cos r) \<Longrightarrow>
   firing r' = firing r - (if sc_phase c = Firing then 1 else 0) + (if sc_phase c' = Firing then 1 else 0)"
  by (simp add: firing_def sum_dict_set)

lemma firing_cong: "sr_cos r' = sr_cos r \<Longrightarrow> firing r' = firing r"
  by (simp add: firing_def)

text \<open>Changing or removing one coroutine without touching the registry.\<close>

lemma co_ok_set:
  assumes "co_ok enabled r" "dict_get (sr_cos r) t = Some c"
    and "sc_path c' = sc_path c" "sc_item c' = sc_item c" "sc_obj c' = sc_obj c" "sc_adhoc c' = sc_adhoc c"
    and "sc_cancelled c \<longrightarrow> sc_cancelled c'"
    and "sr_cos r' = dict_set t c' (sr_cos r)" "sr_items r' = sr_items r" "sr_next r' = sr_next r"
  shows "co_ok enabled r'"
  using assms unfolding co_ok_def by (auto simp: dict_wf_set)

lemma co_ok_pop:
  assumes "co_ok enabled r" "sr_cos r' = dict_pop t (sr_cos r)" "sr_items r' = sr_items r" "sr_next r' = sr_next r"
  shows "co_ok enabled r'"
  using assms unfolding co_ok_def by (auto simp: dict_wf_pop)

text \<open>The flags survive a step that leaves the firing coroutines of their objects firing.\<close>

lemma flag_ok_step:
  assumes "flag_ok r" "set (sr_running r') \<subseteq> set (sr_running r)"
    and "\<And>t c. dict_get (sr_cos r) t = Some c \<Longrightarrow> sc_phase c = Firing \<Longrightarrow> sc_obj c \<in> set (sr_running r') \<Longrightarrow>
      \<exists>c'. dict_get (sr_cos r') t = Some c' \<and> sc_obj c' = sc_obj c \<and> sc_phase c' = Firing"
  shows "flag_ok r'"
  unfolding flag_ok_def
proof
  fix obj assume ob: "obj \<in> set (sr_running r')"
  then obtain t c where "dict_get (sr_cos r) t = Some c" "sc_obj c = obj" "sc_phase c = Firing"
    using assms(1,2) unfolding flag_ok_def by blast
  with assms(3) [of t c] ob show "\<exists>t c. dict_get (sr_cos r') t = Some c \<and> sc_obj c = obj \<and> sc_phase c = Firing" by metis
qed

lemma unregister_inv:
  assumes inv: "sched_inv n enabled r"
  shows "sched_inv n enabled (sched_unregister path r)"
proof -
  let ?r = "sched_unregister path r"
  note co = sched_invD(2) [OF inv]
  have eq: "sr_next ?r = sr_next r" "sr_permits ?r = sr_permits r" "firing ?r = firing r" "sr_running ?r = sr_running r"
    "dict_get (sr_items ?r) = (dict_get (sr_items r))(path := None)" "dict_wf (sr_cos ?r)"
    using co_ok_wf [OF co] by (auto simp: sched_unregister_def task_cancel_def Let_def firing_def sum_dict_set fun_eq_iff dict_wf_set
        split: option.split)
  have bwd: "\<exists>d. dict_get (sr_cos r) t = Some d \<and> sc_path c = sc_path d \<and> sc_item c = sc_item d \<and> sc_obj c = sc_obj d \<and>
      sc_adhoc c = sc_adhoc d \<and>
      (\<not> sc_cancelled c \<longrightarrow> \<not> sc_cancelled d \<and> (\<forall>e. dict_get (sr_items r) path = Some e \<longrightarrow> se_task e \<noteq> Some t))"
    if "dict_get (sr_cos ?r) t = Some c" for t c
    using that by (auto simp: sched_unregister_def task_cancel_def Let_def split: option.splits if_splits)
  have fwd: "\<exists>c'. dict_get (sr_cos ?r) t = Some c' \<and> sc_obj c' = sc_obj c \<and> sc_phase c' = sc_phase c"
    if "dict_get (sr_cos r) t = Some c" for t c
    using that by (auto simp: sched_unregister_def task_cancel_def Let_def split: option.splits if_splits)
  have "co_ok enabled ?r"
    unfolding co_ok_def
  proof (intro conjI allI impI)
    fix t c assume "dict_get (sr_cos ?r) t = Some c"
    from bwd [OF this] obtain d where d: "dict_get (sr_cos r) t = Some d" "sc_path c = sc_path d" "sc_item c = sc_item d"
        "sc_obj c = sc_obj d" "sc_adhoc c = sc_adhoc d"
        "\<not> sc_cancelled c \<Longrightarrow> \<not> sc_cancelled d \<and> (\<forall>e. dict_get (sr_items r) path = Some e \<longrightarrow> se_task e \<noteq> Some t)" by blast
    note c = co_okD [OF co d(1)]
    show "t < sr_next ?r" using c(1) eq by simp
    show "enabled (sc_item c)" if "\<not> sc_adhoc c" using c(2) d that by simp
    show "dict_get (sr_items ?r) (sc_path c) = Some \<lparr>se_item = sc_item c, se_obj = sc_obj c, se_task = Some t\<rparr>"
      if live: "\<not> sc_adhoc c" "\<not> sc_cancelled c"
    proof -
      have old: "dict_get (sr_items r) (sc_path d) = Some \<lparr>se_item = sc_item d, se_obj = sc_obj d, se_task = Some t\<rparr>"
        using c(3) d(5,6) live by simp
      then have "sc_path d \<noteq> path" using d(6) [OF live(2)] by (metis sched_entry.select_convs(3))
      then have "dict_get (sr_items ?r) (sc_path d) = dict_get (sr_items r) (sc_path d)" unfolding eq(5) by simp
      then show ?thesis unfolding d(2-4) old .
    qed
  qed (rule eq(6))
  moreover have "flag_ok ?r" by (rule flag_ok_step [OF sched_invD(3) [OF inv]]) (simp add: eq(4), metis fwd)
  ultimately show ?thesis using sched_invD(1) [OF inv] eq by (simp add: sched_inv_def permits_ok_def)
qed

lemma new_co_inv:
  assumes inv: "sched_inv n enabled r" and "sc_phase c \<noteq> Firing" and "\<not> sc_adhoc c \<Longrightarrow> enabled (sc_item c)"
    and items: "\<And>p. p \<noteq> sc_path c \<or> sc_adhoc c \<Longrightarrow> dict_get (sr_items r') p = dict_get (sr_items r) p"
    and reg: "\<not> sc_adhoc c \<Longrightarrow> dict_get (sr_items r) (sc_path c) = None"
      "\<not> sc_adhoc c \<Longrightarrow> dict_get (sr_items r') (sc_path c) = Some \<lparr>se_item = sc_item c, se_obj = sc_obj c, se_task = Some (sr_next r)\<rparr>"
    and eqs: "sr_next r' = Suc (sr_next r)" "sr_cos r' = dict_set (sr_next r) c (sr_cos r)" "sr_permits r' = sr_permits r"
      "sr_running r' = sr_running r"
  shows "sched_inv n enabled r'"
proof -
  note co = sched_invD(2) [OF inv]
  have new: "dict_get (sr_cos r) (sr_next r) = None" using co_okD(1) [OF co] by (cases "dict_get (sr_cos r) (sr_next r)") auto
  have "firing r' = firing r" using assms(2) new by (simp add: firing_def eqs dict_set_fresh dict_has_def)
  moreover have "co_ok enabled r'"
    unfolding co_ok_def
  proof (intro conjI allI impI)
    fix t d assume "dict_get (sr_cos r') t = Some d"
    then have upd: "(if t = sr_next r then Some c else dict_get (sr_cos r) t) = Some d" unfolding eqs(2) by simp
    have cases: "(t = sr_next r \<and> d = c) \<or> dict_get (sr_cos r) t = Some d" using upd by (simp split: if_splits)
    show "t < sr_next r'" using cases co_okD(1) [OF co] unfolding eqs(1) by (metis less_SucI lessI)
    show "enabled (sc_item d)" if "\<not> sc_adhoc d" using cases co_okD(2) [OF co] assms(3) that by metis
    show "dict_get (sr_items r') (sc_path d) = Some \<lparr>se_item = sc_item d, se_obj = sc_obj d, se_task = Some t\<rparr>"
      if "\<not> sc_adhoc d" "\<not> sc_cancelled d"
      using cases
    proof
      assume old: "dict_get (sr_cos r) t = Some d"
      from co_okD(3) [OF co old that] reg(1) have "sc_path d \<noteq> sc_path c \<or> sc_adhoc c" by (metis option.distinct(1))
      from items [OF this] co_okD(3) [OF co old that] show ?thesis by simp
    qed (use reg(2) that in simp)
  qed (simp add: eqs dict_wf_set co_ok_wf [OF co])
  moreover have "flag_ok r'" by (rule flag_ok_step [OF sched_invD(3) [OF inv]]) (use new in \<open>auto simp: eqs\<close>)
  ultimately show ?thesis using sched_invD(1) [OF inv] by (simp add: sched_inv_def permits_ok_def eqs)
qed

lemma arm_inv:
  assumes inv: "sched_inv n enabled r" and free: "dict_get (sr_items r) path = None"
  shows "sched_inv n enabled (sched_arm enabled path item r)"
proof (cases "enabled item")
  case True
  let ?c = "\<lparr>sc_path = path, sc_item = item, sc_obj = sr_next r, sc_phase = Parked, sc_adhoc = False, sc_cancelled = False\<rparr>"
  show ?thesis by (rule new_co_inv [OF inv, of ?c]) (use True free in \<open>simp_all add: sched_arm_def Let_def\<close>)
next
  case False
  let ?r = "sched_arm enabled path item r"
  have eq: "sr_cos ?r = sr_cos r" "sr_permits ?r = sr_permits r" "sr_running ?r = sr_running r" "sr_next ?r = Suc (sr_next r)"
    "\<And>p. p \<noteq> path \<Longrightarrow> dict_get (sr_items ?r) p = dict_get (sr_items r) p"
    using False by (simp_all add: sched_arm_def Let_def)
  note co = sched_invD(2) [OF inv]
  have "co_ok enabled ?r"
    using co co_okD(3) [OF co] free eq unfolding co_ok_def by (metis less_SucI option.distinct(1))
  then show ?thesis using inv eq firing_cong [OF eq(1)] by (simp add: sched_inv_def permits_ok_def flag_ok_def)
qed

lemma adhoc_inv:
  assumes inv: "sched_inv n enabled r" and "start \<noteq> Firing"
  shows "sched_inv n enabled (snd (sched_adhoc name_of room start name r))"
proof (cases "find_item name_of name r")
  case (Some pe)
  obtain path e where pe: "pe = (path, e)" by (cases pe)
  let ?c = "\<lparr>sc_path = path, sc_item = se_item e, sc_obj = se_obj e, sc_phase = start, sc_adhoc = True, sc_cancelled = False\<rparr>"
  show ?thesis
  proof (cases "se_obj e \<in> set (sr_running r) \<or> \<not> room")
    case False
    show ?thesis by (rule new_co_inv [OF inv, of ?c]) (use Some pe False assms(2) in \<open>simp_all add: sched_adhoc_def\<close>)
  qed (use inv Some pe in \<open>auto simp: sched_adhoc_def\<close>)
qed (use inv in \<open>simp add: sched_adhoc_def\<close>)

text \<open>A coroutine begins to fire, taking a permit when there are permits.\<close>

lemma begin_fire_inv:
  assumes inv: "sched_inv n enabled r" and t: "dict_get (sr_cos r) t = Some c" "sc_phase c \<noteq> Firing"
    and room: "case sr_permits r of Some k \<Rightarrow> k > 0 | None \<Rightarrow> True"
  shows "sched_inv n enabled (begin_fire written t c (r\<lparr>sr_permits := map_option (\<lambda>k. k - 1) (sr_permits r)\<rparr>))"
proof -
  let ?r = "begin_fire written t c (r\<lparr>sr_permits := map_option (\<lambda>k. k - 1) (sr_permits r)\<rparr>)"
  have cos: "sr_cos ?r = dict_set t (c\<lparr>sc_phase := Firing\<rparr>) (sr_cos r)" "sr_permits ?r = map_option (\<lambda>k. k - 1) (sr_permits r)"
    "sr_running ?r = List.insert (sc_obj c) (sr_running r)" by (simp_all add: begin_fire_def)
  have f: "firing ?r = firing r + 1" using firing_set [OF t(1) cos(1)] t(2) by simp
  have "co_ok enabled ?r"
    by (rule co_ok_set [OF sched_invD(2) [OF inv] t(1) _ _ _ _ _ cos(1)]) (simp_all add: begin_fire_def)
  moreover have "flag_ok ?r"
    unfolding flag_ok_def
  proof
    fix obj assume ob: "obj \<in> set (sr_running ?r)"
    show "\<exists>t c. dict_get (sr_cos ?r) t = Some c \<and> sc_obj c = obj \<and> sc_phase c = Firing"
    proof (cases "obj = sc_obj c")
      case False
      then obtain u d where d: "dict_get (sr_cos r) u = Some d" "sc_obj d = obj" "sc_phase d = Firing"
        using sched_invD(3) [OF inv] ob unfolding flag_ok_def cos by auto
      then have "u \<noteq> t" using t by auto
      then show ?thesis using d by (intro exI [of _ u] exI [of _ d]) (simp add: cos)
    qed (auto simp: cos intro!: exI [of _ t])
  qed
  moreover have "permits_ok n ?r"
    using sched_invD(1) [OF inv] room unfolding permits_ok_def f cos by (auto split: if_splits)
  ultimately show ?thesis by (simp add: sched_inv_def)
qed

lemma acquire_inv:
  assumes "sched_inv n enabled r" "dict_get (sr_cos r) t = Some c" "sc_phase c = Waiting"
    and "case sr_permits r of Some k \<Rightarrow> k > 0 | None \<Rightarrow> True"
  shows "sched_inv n enabled (sched_acquire written t r)"
  using begin_fire_inv [OF assms(1,2) _ assms(4), of written] assms(2,3) by (simp add: sched_acquire_def)

lemma tick_inv:
  assumes inv: "sched_inv n enabled r" and t: "dict_get (sr_cos r) t = Some c" "sc_phase c = Parked"
  shows "sched_inv n enabled (sched_tick once written t r)"
proof -
  let ?skip = "\<not> once (sc_item c) \<and> sc_obj c \<in> set (sr_running r)"
  consider ?skip | "\<not> ?skip" "sr_permits r = None" | "\<not> ?skip" "sr_permits r \<noteq> None" by blast
  then show ?thesis
  proof cases
    case 1
    then show ?thesis using inv t by (simp add: sched_tick_def)
  next
    case 2
    have same: "r\<lparr>sr_permits := map_option (\<lambda>k. k - 1) (sr_permits r)\<rparr> = r" using 2 by (cases r) simp
    have "sched_inv n enabled (begin_fire written t c r)"
      using begin_fire_inv [OF inv t(1), of written] 2(2) t(2) unfolding same by simp
    then show ?thesis using 2 t by (auto simp: sched_tick_def)
  next
    case 3
    let ?r = "r\<lparr>sr_cos := dict_set t (c\<lparr>sc_phase := Waiting\<rparr>) (sr_cos r)\<rparr>"
    have "co_ok enabled ?r" by (rule co_ok_set [OF sched_invD(2) [OF inv] t(1)]) simp_all
    moreover have "firing ?r = firing r" using firing_set [OF t(1), of ?r "c\<lparr>sc_phase := Waiting\<rparr>"] t(2) by simp
    moreover have "flag_ok ?r" by (rule flag_ok_step [OF sched_invD(3) [OF inv]]) (use t in auto)
    ultimately have "sched_inv n enabled ?r" using sched_invD(1) [OF inv] by (simp add: sched_inv_def permits_ok_def)
    moreover have "sched_tick once written t r = ?r" using 3 t by (auto simp: sched_tick_def)
    ultimately show ?thesis by simp
  qed
qed

text \<open>A fire is over: the flag of its object goes, whoever else fires on it.\<close>

lemma flag_ok_finally:
  assumes "flag_ok r" "set (sr_running r') = set (sr_running r) - {obj}"
    and "\<And>u d. dict_get (sr_cos r) u = Some d \<Longrightarrow> sc_obj d \<noteq> obj \<Longrightarrow> dict_get (sr_cos r') u = Some d"
  shows "flag_ok r'"
  by (rule flag_ok_step [OF assms(1)]) (use assms(2,3) in auto)

lemma parks_inv:
  assumes inv: "sched_inv n enabled r" and t: "dict_get (sr_cos r) t = Some c" "sc_phase c = Firing"
  shows "sched_inv n enabled (fire_parks t r)"
proof -
  let ?r = "fire_parks t r"
  have cos: "sr_cos ?r = dict_set t (c\<lparr>sc_phase := Parked\<rparr>) (sr_cos r)" "sr_running ?r = removeAll (sc_obj c) (sr_running r)"
    "sr_permits ?r = map_option (\<lambda>k. k + 1) (sr_permits r)" "sr_items ?r = sr_items r" "sr_next ?r = sr_next r"
    using t by (simp_all add: fire_parks_def fire_finally_def)
  have "co_ok enabled ?r" by (rule co_ok_set [OF sched_invD(2) [OF inv] t(1) _ _ _ _ _ cos(1)]) (simp_all add: cos)
  moreover have "firing ?r = firing r - 1" using firing_set [OF t(1) cos(1)] t(2) by simp
  moreover have "flag_ok ?r" by (rule flag_ok_finally [OF sched_invD(3) [OF inv], of _ "sc_obj c"]) (use t in \<open>auto simp: cos\<close>)
  ultimately show ?thesis using sched_invD(1) [OF inv] by (auto simp: sched_inv_def permits_ok_def cos split: if_splits)
qed

lemma ends_inv:
  assumes inv: "sched_inv n enabled r"
  shows "sched_inv n enabled (co_ends t r)"
proof (cases "dict_get (sr_cos r) t")
  case (Some c)
  let ?r = "co_ends t r" and ?f = "sc_phase c = Firing"
  note co = sched_invD(2) [OF inv]
  have cos: "sr_cos ?r = dict_pop t (sr_cos r)" "sr_running ?r = (if ?f then removeAll (sc_obj c) (sr_running r) else sr_running r)"
    "sr_permits ?r = (if ?f then map_option (\<lambda>k. k + 1) (sr_permits r) else sr_permits r)" "sr_items ?r = sr_items r" "sr_next ?r = sr_next r"
    using Some by (simp_all add: co_ends_def fire_finally_def Let_def)
  have "co_ok enabled ?r" by (rule co_ok_pop [OF co cos(1,4,5)])
  moreover have "firing ?r = firing r - (if ?f then 1 else 0)"
    using Some co_ok_wf [OF co] by (simp add: firing_def cos sum_dict_pop)
  moreover have "flag_ok ?r"
  proof (cases ?f)
    case True
    show ?thesis by (rule flag_ok_finally [OF sched_invD(3) [OF inv], of _ "sc_obj c"]) (use True Some in \<open>auto simp: cos\<close>)
  next
    case False
    show ?thesis by (rule flag_ok_step [OF sched_invD(3) [OF inv]]) (use False Some in \<open>auto simp: cos\<close>)
  qed
  ultimately show ?thesis using sched_invD(1) [OF inv] by (auto simp: sched_inv_def permits_ok_def cos split: if_splits)
qed (use inv in \<open>simp add: co_ends_def\<close>)

lemma sched_run_inv: "sched_run n enabled once name_of r \<Longrightarrow> sched_inv n enabled r"
proof (induction rule: sched_run.induct)
  case srun_start
  then show ?case by (simp add: sched_inv_def permits_ok_def co_ok_def flag_ok_def init_sched_def firing_def dict_wf_def dict_keys_def)
next
  case (srun_sweep r)
  moreover have "firing (sweep_checkpoints r) = firing r" by (simp add: sweep_checkpoints_def firing_def)
  ultimately show ?case by (simp add: sched_inv_def permits_ok_def co_ok_def flag_ok_def sweep_checkpoints_def)
qed (auto intro: unregister_inv arm_inv adhoc_inv tick_inv acquire_inv parks_inv ends_inv)

text \<open>C7: In every run of the job or task runner, registrations, cancellations, ticks, ad-hoc runs and ends in any
  order: with a concurrency limit the fires under way never exceed it and the free permits are exactly the rest,
  so none is ever lost, whichever way a fire ends; a scheduled coroutine that is not cancelled is the one of the
  present registration of its path, so each path has at most one, and its item is enabled; and a set
  \<open>running\<close> flag always belongs to an item some coroutine is firing, so it cannot block an item for ever.\<close>

theorem sched_reachable:
  assumes "sched_run max_concurrent enabled once name_of r"
  shows "(max_concurrent > 0 \<longrightarrow> firing r \<le> max_concurrent \<and> sr_permits r = Some (max_concurrent - firing r)) \<and>
    (\<forall>t c. dict_get (sr_cos r) t = Some c \<longrightarrow> \<not> sc_adhoc c \<longrightarrow>
       enabled (sc_item c) \<and> (\<not> sc_cancelled c \<longrightarrow>
         dict_get (sr_items r) (sc_path c) = Some \<lparr>se_item = sc_item c, se_obj = sc_obj c, se_task = Some t\<rparr>)) \<and>
    (\<forall>obj\<in>set (sr_running r). \<exists>t c. dict_get (sr_cos r) t = Some c \<and> sc_obj c = obj \<and> sc_phase c = Firing)"
proof -
  note inv = sched_run_inv [OF assms]
  show ?thesis using sched_invD(1,3) [OF inv] co_okD(2,3) [OF sched_invD(2) [OF inv]] by (auto simp: permits_ok_def flag_ok_def)
qed

section \<open>Runs of note\<close>

definition demo_co :: "pystr \<Rightarrow> nat \<Rightarrow> sched_phase \<Rightarrow> nat sched_co" where
  "demo_co path obj phase = \<lparr>sc_path = path, sc_item = 10, sc_obj = obj, sc_phase = phase, sc_adhoc = False, sc_cancelled = False\<rparr>"

abbreviation demo_sched_runs :: "int \<Rightarrow> nat sched_runner \<Rightarrow> bool" where
  "demo_sched_runs n \<equiv> sched_run n (\<lambda>_. True) (\<lambda>_. False) (\<lambda>_. ''n'')"

definition demo_armed :: "int \<Rightarrow> nat sched_runner" where
  "demo_armed n = sched_arm (\<lambda>_. True) ''/j/a.md'' 10 (init_sched n)"

lemma demo_armed_run: "demo_sched_runs n (demo_armed n)"
  unfolding demo_armed_def by (intro srun_arm srun_start) (simp add: init_sched_def)

lemma demo_armed_co: "dict_get (sr_cos (demo_armed n)) 0 = Some (demo_co ''/j/a.md'' 0 Parked)"
  by (simp add: demo_armed_def sched_arm_def init_sched_def Let_def demo_co_def)

text \<open>Two items with room for one: the first fires, the second waits.\<close>

definition demo_sched :: "nat sched_runner" where
  "demo_sched = sched_tick (\<lambda>_. False) True 1 (sched_arm (\<lambda>_. True) ''/j/b.md'' 10 (sched_acquire True 0 (sched_tick (\<lambda>_. False) True 0 (demo_armed 1))))"

lemma demo_sched_run: "demo_sched_runs 1 demo_sched"
proof -
  let ?s1 = "sched_tick (\<lambda>_. False) True 0 (demo_armed 1)"
  let ?s2 = "sched_acquire True 0 ?s1"
  let ?s3 = "sched_arm (\<lambda>_. True) ''/j/b.md'' 10 ?s2"
  have g: "dict_get (sr_cos ?s1) 0 = Some (demo_co ''/j/a.md'' 0 Waiting)" "case sr_permits ?s1 of Some k \<Rightarrow> k > 0 | None \<Rightarrow> True"
    "dict_get (sr_items ?s2) ''/j/b.md'' = None" "dict_get (sr_cos ?s3) 1 = Some (demo_co ''/j/b.md'' 1 Parked)"
    by code_simp+
  have "demo_sched_runs 1 ?s1" by (rule srun_tick [OF demo_armed_run demo_armed_co]) (simp_all add: demo_co_def)
  then have "demo_sched_runs 1 ?s2" by (rule srun_acquire [OF _ g(1) _ _ g(2)]) (simp_all add: demo_co_def)
  then have "demo_sched_runs 1 ?s3" by (rule srun_arm [OF _ g(3)])
  then show ?thesis unfolding demo_sched_def by (rule srun_tick [OF _ g(4)]) (simp_all add: demo_co_def)
qed

theorem sched_reachable_witness:
  "firing demo_sched \<le> 1 \<and> map (\<lambda>(t, c). (t, sc_phase c)) (sr_cos demo_sched) = [(0, Firing), (1, Waiting)]"
proof -
  have "map (\<lambda>(t, c). (t, sc_phase c)) (sr_cos demo_sched) = [(0, Firing), (1, Waiting)]" by code_simp
  then show ?thesis using sched_reachable [OF demo_sched_run] by simp
qed

text \<open>Deleting the file of a firing item and creating it again arms a second coroutine while the first still
  fires: deletion cancels the task without waiting for it, and the new item object has a flag of its own. When the
  first one ends it removes the checkpoint of the second.\<close>

lemma delete_recreate_overlaps:
  fixes r :: "nat sched_runner"
  defines "r \<equiv> sched_tick (\<lambda>_. False) True 1 (sched_arm (\<lambda>_. True) ''/j/a.md'' 10 (sched_unregister ''/j/a.md'' (sched_tick (\<lambda>_. False) True 0 (demo_armed 0))))"
  shows "demo_sched_runs 0 r \<and>
    map (\<lambda>(t, c). (sc_path c, sc_phase c)) (sr_cos r) = [(''/j/a.md'', Firing), (''/j/a.md'', Firing)] \<and>
    sr_checkpoints (co_ends 0 r) = []"
proof (intro conjI)
  let ?s2 = "sched_unregister ''/j/a.md'' (sched_tick (\<lambda>_. False) True 0 (demo_armed 0))"
  let ?s3 = "sched_arm (\<lambda>_. True) ''/j/a.md'' 10 ?s2"
  have g: "dict_get (sr_items ?s2) ''/j/a.md'' = None" "dict_get (sr_cos ?s3) 1 = Some (demo_co ''/j/a.md'' 1 Parked)"
    by code_simp+
  have "demo_sched_runs 0 (sched_tick (\<lambda>_. False) True 0 (demo_armed 0))"
    by (rule srun_tick [OF demo_armed_run demo_armed_co]) (simp_all add: demo_co_def)
  then have "demo_sched_runs 0 ?s3" by (intro srun_arm [OF srun_unregister g(1)])
  then show "demo_sched_runs 0 r" unfolding r_def by (rule srun_tick [OF _ g(2)]) (simp_all add: demo_co_def)
  show "map (\<lambda>(t, c). (sc_path c, sc_phase c)) (sr_cos r) = [(''/j/a.md'', Firing), (''/j/a.md'', Firing)]"
    "sr_checkpoints (co_ends 0 r) = []"
    unfolding r_def by code_simp+
qed

text \<open>Two ad-hoc requests in a row are both accepted, because the flag is set only when the first coroutine has begun
  to fire; then both fire on the same item.\<close>

lemma adhoc_requests_overlap:
  fixes r :: "nat sched_runner"
  defines "r1 \<equiv> sched_adhoc (\<lambda>_. ''n'') True Waiting ''n'' (demo_armed 0)"
  defines "r2 \<equiv> sched_adhoc (\<lambda>_. ''n'') True Waiting ''n'' (snd r1)"
  shows "fst r1 = Accepted \<and> fst r2 = Accepted \<and>
    map (\<lambda>(t, c). (sc_obj c, sc_phase c)) (sr_cos (sched_acquire True 2 (sched_acquire True 1 (snd r2)))) =
      [(0, Parked), (0, Firing), (0, Firing)]"
  unfolding r1_def r2_def by code_simp

text \<open>A request is also accepted when the background pool has no room, and then nothing runs.\<close>

lemma adhoc_shed_accepted: "sched_adhoc (\<lambda>_. ''n'') False start ''n'' (demo_armed n) = (Accepted, demo_armed n)"
  by (simp add: sched_adhoc_def find_item_def demo_armed_def sched_arm_def init_sched_def Let_def)

text \<open>An ad-hoc run of a scheduled task outlives its file: the coroutine it starts is the whole scheduling loop and is
  not the task of the registration, so that deleting the file does not cancel it; it fires on until the time of the
  background pool is up.\<close>

lemma adhoc_loop_outlives_file:
  fixes r :: "nat sched_runner"
  defines "r \<equiv> sched_unregister ''/j/a.md'' (snd (sched_adhoc (\<lambda>_. ''n'') True Parked ''n'' (demo_armed 0)))"
  shows "demo_sched_runs 0 r \<and> sr_items r = [] \<and>
    map (\<lambda>(t, c). (t, sc_cancelled c)) (sr_cos r) = [(0, True), (1, False)] \<and>
    demo_sched_runs 0 (sched_tick (\<lambda>_. False) True 1 r) \<and> map (\<lambda>(t, c). (t, sc_phase c)) (sr_cos (sched_tick (\<lambda>_. False) True 1 r)) = [(0, Parked), (1, Firing)]"
proof (intro conjI)
  have g: "dict_get (sr_cos r) 1 = Some ((demo_co ''/j/a.md'' 0 Parked)\<lparr>sc_adhoc := True\<rparr>)" unfolding r_def by code_simp
  show run: "demo_sched_runs 0 r" unfolding r_def by (intro srun_unregister srun_adhoc demo_armed_run) simp
  show "demo_sched_runs 0 (sched_tick (\<lambda>_. False) True 1 r)" by (rule srun_tick [OF run g]) (simp_all add: demo_co_def)
  show "sr_items r = []" "map (\<lambda>(t, c). (t, sc_cancelled c)) (sr_cos r) = [(0, True), (1, False)]"
    "map (\<lambda>(t, c). (t, sc_phase c)) (sr_cos (sched_tick (\<lambda>_. False) True 1 r)) = [(0, Parked), (1, Firing)]"
    unfolding r_def by code_simp+
qed

section \<open>The registry and the directory\<close>

text \<open>What a registry holds for a path, without the task.\<close>

definition sched_lookup :: "'i sched_runner \<Rightarrow> pystr \<Rightarrow> 'i option" where
  "sched_lookup r path = map_option se_item (dict_get (sr_items r) path)"

lemma sched_lookup_unregister: "sched_lookup (sched_unregister p r) = (sched_lookup r)(p := None)"
  by (auto simp: sched_lookup_def sched_unregister_def task_cancel_def Let_def fun_eq_iff split: option.split)

lemma sched_lookup_ends: "sched_lookup (co_ends t r) = sched_lookup r"
  by (auto simp: sched_lookup_def co_ends_def fire_finally_def Let_def fun_eq_iff split: option.split)

lemma sched_lookup_arm: "sched_lookup (sched_arm enabled p i r) = (sched_lookup r)(p \<mapsto> i)"
  by (auto simp: sched_lookup_def sched_arm_def Let_def fun_eq_iff)

lemma sched_lookup_register:
  "sched_lookup (sched_register enabled p parsed r) =
     (case parsed of None \<Rightarrow> sched_lookup r | Some i \<Rightarrow> (sched_lookup r)(p \<mapsto> i))"
  by (auto simp: sched_register_def Let_def sched_lookup_arm sched_lookup_ends sched_lookup_unregister fun_eq_iff
      split: option.split)

lemma sched_lookup_paths: "set (sched_paths r) = dom (sched_lookup r)"
  by (force simp: sched_paths_def dict_keys_def sched_lookup_def dom_def dom_map_of_conv_image_fst [symmetric])

lemma sched_lookup_init: "sched_lookup (init_sched n) = Map.empty"
  by (simp add: sched_lookup_def init_sched_def fun_eq_iff)

section \<open>Cron ticks\<close>

text \<open>One turn of the cron loop of a job or of the heartbeat: the next run is taken after the later of the clock
  and the run scheduled last; times are in microseconds. \<open>cron_next\<close> stands for
  \<open>croniter(schedule, anchor).get_next\<close>.\<close>

definition cron_step :: "(pystr \<Rightarrow> int \<Rightarrow> int) \<Rightarrow> pystr \<Rightarrow> int \<Rightarrow> int option \<Rightarrow> int \<times> int" where
  "cron_step cron_next schedule now last_scheduled =
     (let anchor = (case last_scheduled of None \<Rightarrow> now | Some t \<Rightarrow> max now t);
          next_run = cron_next schedule anchor
      in (next_run, max 0 (next_run - now)))"

text \<open>The runs scheduled when the clock reads \<open>nows\<close> at the top of the turns.\<close>

fun cron_ticks :: "(pystr \<Rightarrow> int \<Rightarrow> int) \<Rightarrow> pystr \<Rightarrow> int option \<Rightarrow> int list \<Rightarrow> int list" where
  "cron_ticks cron_next schedule last_scheduled [] = []"
| "cron_ticks cron_next schedule last_scheduled (now # nows) =
     (let next_run = fst (cron_step cron_next schedule now last_scheduled)
      in next_run # cron_ticks cron_next schedule (Some next_run) nows)"

text \<open>What \<open>get_next\<close> is documented to return: the first time the schedule matches after the anchor.\<close>

definition first_after :: "(int \<Rightarrow> bool) \<Rightarrow> (int \<Rightarrow> int) \<Rightarrow> bool" where
  "first_after matches nxt = (\<forall>a. a < nxt a \<and> matches (nxt a) \<and> (\<forall>t. a < t \<longrightarrow> matches t \<longrightarrow> nxt a \<le> t))"

lemma cron_ticks_length [simp]: "length (cron_ticks nx s l nows) = length nows"
  by (induction nows arbitrary: l) (simp_all add: Let_def)

lemma cron_ticks_nth:
  "i < length nows \<Longrightarrow> cron_ticks nx s l nows ! i =
     fst (cron_step nx s (nows ! i) (if i = 0 then l else Some (cron_ticks nx s l nows ! (i - 1))))"
  by (induction nows arbitrary: l i) (auto simp: Let_def nth_Cons' split: if_splits)

text \<open>However the clock jumps, forwards or backwards, the runs a cron loop schedules lie on the schedule, each
  is after the clock reading it was computed from and after every run scheduled before it, so no tick fires
  twice; and a tick between two of them is left out only when it had already passed by the clock at the top of
  the later turn.\<close>

theorem cron_ticks_advance:
  assumes cron: "first_after matches (cron_next schedule)" and i: "i < length nows"
  defines "ticks \<equiv> cron_ticks cron_next schedule None nows"
  shows "matches (ticks ! i) \<and> nows ! i < ticks ! i \<and> (\<forall>j<i. ticks ! j < ticks ! i) \<and>
    (\<forall>t. 0 < i \<longrightarrow> ticks ! (i - 1) < t \<longrightarrow> t < ticks ! i \<longrightarrow> matches t \<longrightarrow> t \<le> nows ! i)"
proof -
  have nx: "a < cron_next schedule a" "matches (cron_next schedule a)" "a < t \<Longrightarrow> matches t \<Longrightarrow> cron_next schedule a \<le> t" for a t
    using cron unfolding first_after_def by blast+
  have step: "matches (ticks ! k) \<and> nows ! k < ticks ! k \<and> (0 < k \<longrightarrow> ticks ! (k - 1) < ticks ! k)" if "k < length nows" for k
    using nx(1) [of "nows ! k"] nx(1) [of "max (nows ! k) (ticks ! (k - 1))"] nx(2)
      cron_ticks_nth [OF that, of cron_next schedule None, folded ticks_def]
    by (cases "k = 0") (simp_all add: cron_step_def Let_def)
  have "ticks ! j < ticks ! k" if "j < k" "k < length nows" for j k
    using that
  proof (induction k)
    case (Suc k)
    then show ?case using step [of "Suc k"] by (cases "j = k") auto
  qed simp
  moreover have "t \<le> nows ! i" if "0 < i" "ticks ! (i - 1) < t" "t < ticks ! i" "matches t" for t
  proof (rule ccontr)
    assume "\<not> t \<le> nows ! i"
    with that(2) have "max (nows ! i) (ticks ! (i - 1)) < t" by simp
    then have "cron_next schedule (max (nows ! i) (ticks ! (i - 1))) \<le> t" using that(4) by (rule nx(3))
    then show False using cron_ticks_nth [OF i, of cron_next schedule None, folded ticks_def] that(1,3)
      by (simp add: cron_step_def Let_def)
  qed
  ultimately show ?thesis using step [OF i] i by blast
qed

theorem cron_ticks_advance_witness:
  "cron_ticks (\<lambda>_ a. 60 * (a div 60 + 1)) ''* * * * *'' None [5, 3, 200] = [60, 120, 240] \<and>
   (200::int) < cron_ticks (\<lambda>_ a. 60 * (a div 60 + 1)) ''* * * * *'' None [5, 3, 200] ! 2"
proof -
  have "first_after ((dvd) 60) (\<lambda>a. 60 * (a div 60 + 1))"
  proof -
    have m: "60 * (a div 60) + a mod 60 = a" "0 \<le> a mod 60" "a mod 60 < 60" for a :: int by simp_all
    have "60 * (a div 60 + 1) \<le> t" if lt: "a < t" and dv: "60 dvd t" for a t :: int
    proof -
      obtain k where "t = 60 * k" using dv by (rule dvdE)
      moreover have "a div 60 < k" using lt m [of a] \<open>t = 60 * k\<close> by linarith
      ultimately show ?thesis by simp
    qed
    moreover have "a < 60 * (a div 60 + 1)" for a :: int
    proof -
      have "a < 60 * (a div 60) + 60" using m [of a] by (metis add_strict_left_mono)
      then show ?thesis by simp
    qed
    ultimately show ?thesis unfolding first_after_def by simp
  qed
  from cron_ticks_advance [where cron_next = "\<lambda>_ a. 60 * (a div 60 + 1)" and schedule = "''* * * * *''" and i = 2 and nows = "[5, 3, 200]",
      OF this]
  show ?thesis by (simp add: cron_step_def Let_def)
qed

end
