(* ===== verification/Jobs.thy ===== *)
theory Jobs
  imports Scheduler
begin

text \<open>
  Model of \<open>harness/jobs.py\<close>: job files, the message and the event of a fire, and the runner, which is the
  shared scheduler of \<open>Scheduler\<close> on job items. The cron library, YAML and UUID version 5 are arguments.
\<close>

section \<open>Job files\<close>

record job_item =
  ji_path :: pystr
  ji_name :: pystr
  ji_schedule :: "pystr option"
  ji_session_id :: pystr
  ji_content :: pystr
  ji_model :: "pystr option"
  ji_backend_id :: "pystr option"
  ji_consensus :: "consensus_entry list"
  ji_max_tokens :: "int option"
  ji_enabled :: bool

text \<open>What parsing an item reads from outside the file.\<close>

record item_env =
  ie_yaml :: "pystr \<Rightarrow> pyval option"
  ie_max_yaml :: int
  ie_cron_valid :: "pystr \<Rightarrow> bool"
  ie_uuid5 :: "pystr \<Rightarrow> pystr"
  ie_agent_name :: pystr

definition parse_job_file :: "item_env \<Rightarrow> pystr \<Rightarrow> pystr option \<Rightarrow> job_item option" where
  "parse_job_file ie path contents =
     (case contents of
        None \<Rightarrow> None
      | Some raw \<Rightarrow>
          (case (parse_frontmatter (ie_max_yaml ie) (ie_yaml ie) raw, parse_frontmatter_raw (ie_max_yaml ie) (ie_yaml ie) raw) of
             (Inr (flds, content), Inr (raw_flds, _)) \<Rightarrow>
               (let schedule = or_none (dict_get flds ''schedule'');
                    enabled = enabled_field flds
                in if enabled \<and> (case schedule of Some s \<Rightarrow> \<not> ie_cron_valid ie s | None \<Rightarrow> False) then None
                   else Some
                     \<lparr>ji_path = path, ji_name = name_field flds path, ji_schedule = schedule,
                      ji_session_id =
                        (case or_none (dict_get flds ''session'') of
                           Some s \<Rightarrow> s
                         | None \<Rightarrow> ie_uuid5 ie (ie_agent_name ie @ ''.'' @ path_stem path)),
                      ji_content = content,
                      ji_model = or_none (dict_get flds ''model''),
                      ji_backend_id = or_none (dict_get flds ''agent''),
                      ji_consensus = parse_consensus (get_or_none raw_flds ''consensus''),
                      ji_max_tokens = max_tokens_field flds,
                      ji_enabled = enabled\<rparr>)
           | _ \<Rightarrow> None))"

section \<open>A fire\<close>

definition job_message ::
  "(pystr \<Rightarrow> pystr \<Rightarrow> bool) \<Rightarrow> int \<Rightarrow> (pystr \<rightharpoonup> pystr) \<Rightarrow> job_item \<Rightarrow> prompt_state \<Rightarrow> message \<times> prompt_state" where
  "job_message fnm rearm env item st =
     (case resolve_prompt_env fnm rearm env (''Job: '' @ ji_name item @ [CHR 0x0A, CHR 0x0A] @ ji_content item) st of
        (prompt, st') \<Rightarrow>
          (make_message prompt (Some (ji_session_id item)) (''job:'' @ ji_name item) (ji_model item) (ji_backend_id item)
             (ji_consensus item) (ji_max_tokens item) None, st'))"

text \<open>The event of a fire that ended; \<open>err\<close> is the printed exception of a failed one. A cancelled fire publishes
  nothing.\<close>

definition outcome_fields :: "pystr option \<Rightarrow> payload" where
  "outcome_fields err =
     (case err of
        None \<Rightarrow> [(''outcome'', PStr ''success'')]
      | Some e \<Rightarrow> [(''outcome'', PStr ''error''), (''error'', PStr (take 512 e))])"

definition job_payload :: "job_item \<Rightarrow> int \<Rightarrow> pystr option \<Rightarrow> payload" where
  "job_payload item duration_ms err =
     [(''name'', PStr (ji_name item)),
      (''schedule'', PStr (case ji_schedule item of Some s \<Rightarrow> s | None \<Rightarrow> [])),
      (''duration_ms'', PInt duration_ms)] @ outcome_fields err"

definition job_finished ::
  "(nat \<Rightarrow> pystr) \<Rightarrow> pystr \<Rightarrow> job_item \<Rightarrow> int \<Rightarrow> pystr option \<Rightarrow> event_stream \<Rightarrow> publish_result \<times> event_stream" where
  "job_finished clock agent_name item duration_ms err s =
     publish clock ''job.fired'' (job_payload item duration_ms err) (Some agent_name) 1 s"

section \<open>The runner\<close>

type_synonym job_runner = "job_item sched_runner"

definition job_register :: "item_env \<Rightarrow> pystr \<Rightarrow> pystr option \<Rightarrow> job_runner \<Rightarrow> job_runner" where
  "job_register ie path contents r = sched_register ji_enabled path (parse_job_file ie path contents) r"

definition job_unregister :: "pystr \<Rightarrow> job_runner \<Rightarrow> job_runner" where
  "job_unregister = sched_unregister"

interpretation job_files: file_registry sched_lookup "parse_job_file ie" "job_register ie" job_unregister sched_paths
    "init_sched max_concurrent"
  for ie max_concurrent
  by unfold_locales (simp_all add: sched_lookup_init job_register_def job_unregister_def sched_lookup_register
      sched_lookup_unregister sched_lookup_paths parse_job_file_def)

text \<open>The jobs of a watched directory are those its files describe.\<close>

lemma jobs_mirror_directory:
  assumes "watch_run (job_register ie) job_unregister sched_paths (init_sched max_concurrent) w missed"
    and "wt_phase w = Watching" "wt_pending w = []" "md_file p" "p \<notin> set missed"
  shows "in_sync (parse_job_file ie) p (dict_get (wt_fs w) p) (sched_lookup (wt_state w) p)"
  using assms by (rule job_files.watcher_in_sync)

section \<open>What is parsed can be reported\<close>

lemma basename_nonempty:
  assumes "p \<noteq> []" "last p \<noteq> CHR ''/''"
  shows "basename p \<noteq> []"
proof (cases "CHR ''/'' \<in> set p")
  case True
  then obtain d b where p: "p = d @ CHR ''/'' # b" and b: "CHR ''/'' \<notin> set b" by (metis split_list_last)
  with assms(2) have "b \<noteq> []" by auto
  with p b show ?thesis by (simp add: basename_append)
qed (use assms(1) in \<open>simp add: basename_self\<close>)

lemma path_stem_nonempty:
  assumes "md_file path"
  shows "path_stem path \<noteq> []"
proof -
  obtain q where "path = q @ ''.md''" using assms by (auto simp: md_file_def FILE_SUFFIX_def endswith_suffix suffix_def)
  then have "basename path \<noteq> []" by (intro basename_nonempty) simp_all
  then show ?thesis by (auto simp: path_stem_def Let_def)
qed

lemma name_field_nonempty: "md_file path \<Longrightarrow> name_field flds path \<noteq> []"
  using path_stem_nonempty [of path] by (auto simp: name_field_def or_none_def split: option.split list.split)

lemma max_tokens_positive: "max_tokens_field flds = Some n \<Longrightarrow> n \<ge> 1"
  by (auto simp: max_tokens_field_def at_least_one_def split: option.splits)

lemmas fired_checks = validate_with_def dict_has_def is_nonempty_str_def is_str_def is_nonneg_int_def in_str_set_def hashable_def
  OUTCOMES_def

lemma job_payload_valid:
  assumes "ji_name item \<noteq> []" "d \<ge> 0"
  shows "validate_job_fired (job_payload item d err) = VOk"
  using assms by (cases err) (simp_all add: validate_job_fired_def job_payload_def outcome_fields_def fired_checks)

text \<open>C33: Whatever a job file holds, if it is accepted then the item has a name, an enabled item has a schedule the
  cron library accepts or none, its token budget is positive when set, and the event of each of its fires, success or
  error, is accepted by the event stream with the outcome it had.\<close>

theorem parsed_job_reports:
  assumes parse: "parse_job_file ie path contents = Some item" and md: "md_file path"
    and "duration_ms \<ge> 0" "clock 0 \<noteq> []"
  shows "ji_path item = path \<and> (ji_enabled item \<longrightarrow> list_all (ie_cron_valid ie) (case ji_schedule item of None \<Rightarrow> [] | Some s \<Rightarrow> [s])) \<and>
    (case ji_max_tokens item of None \<Rightarrow> True | Some n \<Rightarrow> n \<ge> 1) \<and>
    (\<exists>env t. job_finished clock agent_name item duration_ms err s = (Published env, t) \<and> ev_type env = ''job.fired'' \<and>
       dict_get (ev_payload env) ''outcome'' = Some (PStr (if err = None then ''success'' else ''error'')))"
proof -
  have item: "ji_path item = path" "\<exists>flds. ji_name item = name_field flds path" "\<exists>flds. ji_max_tokens item = max_tokens_field flds"
    "ji_enabled item \<longrightarrow> list_all (ie_cron_valid ie) (case ji_schedule item of None \<Rightarrow> [] | Some s \<Rightarrow> [s])"
    using parse by (auto simp: parse_job_file_def Let_def split: option.splits sum.splits prod.splits if_splits)
  have "dict_get VALIDATORS ''job.fired'' = Some validate_job_fired" by (simp add: VALIDATORS_def)
  moreover have "validate_job_fired (job_payload item duration_ms err) = VOk"
    using item(2) name_field_nonempty [OF md] assms(3) by (intro job_payload_valid) metis+
  ultimately obtain env t where "job_finished clock agent_name item duration_ms err s = (Published env, t)" "ev_type env = ''job.fired''"
      "ev_payload env = job_payload item duration_ms err"
    unfolding job_finished_def using assms(4) publish_accepts_ex by blast
  moreover have "dict_get (job_payload item duration_ms err) ''outcome'' = Some (PStr (if err = None then ''success'' else ''error''))"
    by (cases err) (simp_all add: job_payload_def outcome_fields_def)
  moreover have "case ji_max_tokens item of None \<Rightarrow> True | Some n \<Rightarrow> n \<ge> 1"
    using item(3) max_tokens_positive by (auto split: option.split)
  ultimately show ?thesis using item(1,4) by auto
qed

text \<open>A scheduled job, parsed from its file.\<close>

definition demo_job_env :: item_env where
  "demo_job_env = \<lparr>ie_yaml = (\<lambda>_. Some (PDict [(''schedule'', PStr ''0 * * * *''), (''max-tokens'', PInt 0)])), ie_max_yaml = 65536,
     ie_cron_valid = (\<lambda>_. True), ie_uuid5 = (\<lambda>s. s), ie_agent_name = ''iris''\<rparr>"

definition demo_job :: job_item where
  "demo_job = \<lparr>ji_path = ''/j/a.md'', ji_name = ''a'', ji_schedule = Some ''0 * * * *'', ji_session_id = ''iris.a'', ji_content = ''go'',
     ji_model = None, ji_backend_id = None, ji_consensus = [], ji_max_tokens = Some 1, ji_enabled = True\<rparr>"

theorem parsed_job_reports_witness:
  "\<exists>env t. job_finished (\<lambda>_. ''now'') ''iris'' demo_job 12 (Some ''boom'') (init_event_stream 1 1) = (Published env, t) \<and>
     dict_get (ev_payload env) ''outcome'' = Some (PStr ''error'')"
proof -
  have "parse_job_file demo_job_env ''/j/a.md'' (Some (''---'' @ [CHR 0x0A] @ ''x'' @ [CHR 0x0A] @ ''---'' @ [CHR 0x0A] @ ''go'')) =
      Some demo_job" "md_file ''/j/a.md''" by code_simp+
  from parsed_job_reports [OF this, of 12 "\<lambda>_. ''now''" "''iris''" "Some ''boom''" "init_event_stream 1 1"] show ?thesis by auto
qed

end
