(* ===== verification/Py_Date.thy ===== *)
theory Py_Date
  imports Prelude
begin

text \<open>
  The calendar of Python's \<open>datetime\<close> module as far as the schedulers use it: proleptic Gregorian dates,
  their ordinals, \<open>date.isoformat\<close> and \<open>date.fromisoformat\<close> with its basic, extended and week forms.
\<close>

datatype pydate = Date (dt_year: int) (dt_month: int) (dt_day: int)

definition MAX_ORDINAL :: int where
  "MAX_ORDINAL = 3652059"

definition is_leap :: "int \<Rightarrow> bool" where
  "is_leap y = (4 dvd y \<and> (\<not> 100 dvd y \<or> 400 dvd y))"

definition days_in_month :: "int \<Rightarrow> int \<Rightarrow> int" where
  "days_in_month y m = (if m = 2 then (if is_leap y then 29 else 28) else if m \<in> {4, 6, 9, 11} then 30 else 31)"

definition DAYS_BEFORE_MONTH :: "int list" where
  "DAYS_BEFORE_MONTH = [0, 31, 59, 90, 120, 151, 181, 212, 243, 273, 304, 334]"

definition days_before_month :: "int \<Rightarrow> int \<Rightarrow> int" where
  "days_before_month y m = DAYS_BEFORE_MONTH ! nat (m - 1) + (if m > 2 \<and> is_leap y then 1 else 0)"

definition days_before_year :: "int \<Rightarrow> int" where
  "days_before_year y = (let z = y - 1 in z * 365 + z div 4 - z div 100 + z div 400)"

definition ymd2ord :: "int \<Rightarrow> int \<Rightarrow> int \<Rightarrow> int" where
  "ymd2ord y m d = days_before_year y + days_before_month y m + d"

definition toordinal :: "pydate \<Rightarrow> int" where
  "toordinal dt = ymd2ord (dt_year dt) (dt_month dt) (dt_day dt)"

definition valid_ymd :: "int \<Rightarrow> int \<Rightarrow> int \<Rightarrow> bool" where
  "valid_ymd y m d = (1 \<le> y \<and> y \<le> 9999 \<and> 1 \<le> m \<and> m \<le> 12 \<and> 1 \<le> d \<and> d \<le> days_in_month y m)"

definition valid_date :: "pydate \<Rightarrow> bool" where
  "valid_date dt = valid_ymd (dt_year dt) (dt_month dt) (dt_day dt)"

section \<open>Printing and reading\<close>

text \<open>Decimal digits of a fixed width.\<close>

definition digit_at :: "int \<Rightarrow> int \<Rightarrow> char" where
  "digit_at n p = digit_char (nat (n div p mod 10))"

definition isoformat :: "pydate \<Rightarrow> pystr" where
  "isoformat dt =
     [digit_at (dt_year dt) 1000, digit_at (dt_year dt) 100, digit_at (dt_year dt) 10, digit_at (dt_year dt) 1, CHR ''-'',
      digit_at (dt_month dt) 10, digit_at (dt_month dt) 1, CHR ''-'', digit_at (dt_day dt) 10, digit_at (dt_day dt) 1]"

definition digit_of :: "char \<Rightarrow> int option" where
  "digit_of c = (let n = (of_char c :: nat) in if 48 \<le> n \<and> n \<le> 57 then Some (int n - 48) else None)"

fun digits_value :: "int \<Rightarrow> pystr \<Rightarrow> int option" where
  "digits_value acc [] = Some acc"
| "digits_value acc (c # cs) = (case digit_of c of None \<Rightarrow> None | Some d \<Rightarrow> digits_value (10 * acc + d) cs)"

definition isoweek1monday :: "int \<Rightarrow> int" where
  "isoweek1monday y =
     (let firstday = ymd2ord y 1 1; firstweekday = (firstday + 6) mod 7; monday = firstday - firstweekday
      in if firstweekday > 3 then monday + 7 else monday)"

definition isoweek_to_ord :: "int \<Rightarrow> int \<Rightarrow> int \<Rightarrow> int option" where
  "isoweek_to_ord y w d =
     (let first = ymd2ord y 1 1 mod 7;
          week_ok = (0 < w \<and> w < 53 \<or> w = 53 \<and> (first = 4 \<or> (first = 3 \<and> is_leap y)));
          ord = isoweek1monday y + (w - 1) * 7 + (d - 1)
      in if 1 \<le> y \<and> y \<le> 9999 \<and> week_ok \<and> 0 < d \<and> d < 8 \<and> 1 \<le> ord \<and> ord \<le> MAX_ORDINAL then Some ord else None)"

text \<open>The part after the year and its separator: a week date or month and day.\<close>

definition parse_week :: "bool \<Rightarrow> int \<Rightarrow> pystr \<Rightarrow> int option" where
  "parse_week sep y rest =
     (case digits_value 0 (take 2 rest) of
        None \<Rightarrow> None
      | Some w \<Rightarrow>
          if length rest < 2 then None
          else if length rest = 2 then isoweek_to_ord y w 1
          else if sep then
            (case drop 2 rest of
               [s, c] \<Rightarrow> if s = CHR ''-'' then (case digit_of c of None \<Rightarrow> None | Some d \<Rightarrow> isoweek_to_ord y w d) else None
             | _ \<Rightarrow> None)
          else
            (case drop 2 rest of
               [c] \<Rightarrow> (case digit_of c of None \<Rightarrow> None | Some d \<Rightarrow> isoweek_to_ord y w d)
             | _ \<Rightarrow> None))"

definition parse_month_day :: "bool \<Rightarrow> int \<Rightarrow> pystr \<Rightarrow> int option" where
  "parse_month_day sep y rest =
     (let md = (if sep then (if length rest = 5 \<and> rest ! 2 = CHR ''-'' then take 2 rest @ drop 3 rest else []) else rest)
      in if length md \<noteq> 4 then None
         else case (digits_value 0 (take 2 md), digits_value 0 (drop 2 md)) of
                (Some m, Some d) \<Rightarrow> if valid_ymd y m d then Some (ymd2ord y m d) else None
              | _ \<Rightarrow> None)"

definition date_fromisoformat :: "pystr \<Rightarrow> int option" where
  "date_fromisoformat s =
     (if length s \<notin> {7, 8, 10} then None
      else
        (case digits_value 0 (take 4 s) of
           None \<Rightarrow> None
         | Some y \<Rightarrow>
             (let sep = (s ! 4 = CHR ''-''); rest = (if sep then drop 5 s else drop 4 s)
              in case rest of
                   c # rest' \<Rightarrow> if c = CHR ''W'' then parse_week sep y rest' else parse_month_day sep y rest
                 | [] \<Rightarrow> None)))"

section \<open>Printing and reading agree\<close>

lemma digit_of_char: "k < 10 \<Longrightarrow> digit_of (digit_char k) = Some (int k)"
  by (simp add: digit_of_def digit_char_def Let_def)

lemma digit_of_at: "digit_of (digit_at n p) = Some (n div p mod 10)"
  using digit_of_char [of "nat (n div p mod 10)"] by (simp add: digit_at_def)

lemma digit_at_not: "digit_at n p \<noteq> CHR ''-''" "digit_at n p \<noteq> CHR ''W''"
  using digit_of_at [of n p] by (auto simp: digit_of_def Let_def)

lemma div_mod_ten: "10 * (a div 10) + a mod 10 = (a::int)"
  by (rule mult_div_mod_eq)

lemma two_digits:
  assumes "0 \<le> (m::int)" "m < 100"
  shows "10 * (m div 10 mod 10) + m mod 10 = m"
proof -
  have "m div 10 mod 10 = m div 10" using assms by (intro mod_pos_pos_trivial) simp_all
  then show ?thesis by (simp only: div_mod_ten)
qed

lemma four_digits:
  assumes "0 \<le> (y::int)" "y \<le> 9999"
  shows "10 * (10 * (10 * (y div 1000 mod 10) + y div 100 mod 10) + y div 10 mod 10) + y mod 10 = y"
proof -
  have e: "y div 1000 = y div 100 div 10" "y div 100 = y div 10 div 10"
    using zdiv_zmult2_eq [of 10 y 100] zdiv_zmult2_eq [of 10 y 10] by simp_all
  have "0 \<le> y div 100" "y div 100 < 100" using assms by simp_all
  then have "10 * (y div 1000 mod 10) + y div 100 mod 10 = y div 100" unfolding e(1) by (rule two_digits)
  moreover have "10 * (y div 100) + y div 10 mod 10 = y div 10" unfolding e(2) by (rule div_mod_ten)
  ultimately show ?thesis by (simp only: div_mod_ten)
qed

lemma digits_four:
  "0 \<le> y \<Longrightarrow> y \<le> 9999 \<Longrightarrow> digits_value 0 [digit_at y 1000, digit_at y 100, digit_at y 10, digit_at y 1] = Some y"
  by (simp only: digits_value.simps digit_of_at option.case mult_zero_right add_0 div_by_1 four_digits)

lemma digits_two: "0 \<le> m \<Longrightarrow> m < 100 \<Longrightarrow> digits_value 0 [digit_at m 10, digit_at m 1] = Some m"
  by (simp only: digits_value.simps digit_of_at option.case mult_zero_right add_0 div_by_1 two_digits)

lemma valid_ymd_bounds: "valid_ymd y m d \<Longrightarrow> 0 \<le> y \<and> y \<le> 9999 \<and> 0 \<le> m \<and> m < 100 \<and> 0 \<le> d \<and> d < 100"
  by (auto simp: valid_ymd_def days_in_month_def split: if_splits)

text \<open>A valid date printed by \<open>isoformat\<close> is read back by \<open>fromisoformat\<close>.\<close>

theorem isodate_roundtrip:
  assumes "valid_date dt"
  shows "date_fromisoformat (isoformat dt) = Some (toordinal dt)"
proof (cases dt)
  case (Date y m d)
  have v: "valid_ymd y m d" using assms by (simp add: valid_date_def Date)
  note b = valid_ymd_bounds [OF v]
  have y: "digits_value 0 (take 4 (isoformat dt)) = Some y" using digits_four [of y] b by (simp add: isoformat_def Date del: digits_value.simps)
  have "digits_value 0 [digit_at m 10, digit_at m 1] = Some m" "digits_value 0 [digit_at d 10, digit_at d 1] = Some d"
    using digits_two b by blast+
  moreover have "parse_month_day True y (drop 5 (isoformat dt)) =
      (case (digits_value 0 [digit_at m 10, digit_at m 1], digits_value 0 [digit_at d 10, digit_at d 1]) of
         (Some m, Some d) \<Rightarrow> if valid_ymd y m d then Some (ymd2ord y m d) else None | _ \<Rightarrow> None)"
    unfolding parse_month_day_def isoformat_def Date by (simp del: digits_value.simps)
  ultimately have "parse_month_day True y (drop 5 (isoformat dt)) = Some (ymd2ord y m d)" using v by (simp del: digits_value.simps)
  moreover have "length (isoformat dt) = 10" "isoformat dt ! 4 = CHR ''-''" "drop 5 (isoformat dt) =
      digit_at m 10 # [digit_at m 1, CHR ''-'', digit_at d 10, digit_at d 1]" by (simp_all add: isoformat_def Date)
  ultimately show ?thesis
    using y by (simp add: date_fromisoformat_def Let_def digit_at_not toordinal_def Date del: digits_value.simps)
qed

theorem isodate_roundtrip_witness: "date_fromisoformat (isoformat (Date 2024 2 29)) = Some 738945"
  using isodate_roundtrip [of "Date 2024 2 29"]
  by (simp add: valid_date_def valid_ymd_def days_in_month_def is_leap_def toordinal_def ymd2ord_def days_before_year_def
      days_before_month_def DAYS_BEFORE_MONTH_def Let_def)

end
