(* ===== verification/Tasks.thy ===== *)
theory Tasks
  imports Jobs Py_Date
begin

text \<open>
  Model of \<open>harness/tasks.py\<close>: task files, the arithmetic of daily windows, the decision at start-up, the loop
  of fires inside a window, and the runner, which is the shared scheduler on task items. A moment is the date and
  the time of day, in microseconds, that the clock shows in the time zone of the task; a date is its ordinal.
  Python adds a duration to an aware time by the wall clock, so that the end of a window is the start plus the
  duration modulo a day, whatever the zone does in between.
\<close>

section \<open>Task files\<close>

definition US_DAY :: int where
  "US_DAY = 86400000000"

definition US_SECOND :: int where
  "US_SECOND = 1000000"

record task_item =
  ti_path :: pystr
  ti_name :: pystr
  ti_days_expr :: pystr
  ti_tz :: pystr
  ti_window_start :: "int option"
  ti_window_end :: "int option"
  ti_loop :: bool
  ti_loop_gap :: "int option"
  ti_done_when :: "pystr option"
  ti_content :: pystr
  ti_start :: "int option"
  ti_end :: "int option"
  ti_model :: "pystr option"
  ti_backend_id :: "pystr option"
  ti_consensus :: "consensus_entry list"
  ti_max_tokens :: "int option"
  ti_enabled :: bool

definition DAY_ABBREVS :: "(pystr \<times> pystr) list" where
  "DAY_ABBREVS = [(''sun'', ''0''), (''mon'', ''1''), (''tue'', ''2''), (''wed'', ''3''), (''thu'', ''4''), (''fri'', ''5''), (''sat'', ''6'')]"

text \<open>The pattern matches a weekday between two word boundaries, that is, a whole run of word characters.\<close>

function translate_day_abbrevs :: "pystr \<Rightarrow> pystr" where
  "translate_day_abbrevs [] = []"
| "translate_day_abbrevs (c # cs) =
     (if re_word c then
        (let word = takeWhile re_word (c # cs)
         in (case dict_get DAY_ABBREVS (lower word) of Some n \<Rightarrow> n | None \<Rightarrow> word) @
            translate_day_abbrevs (dropWhile re_word (c # cs)))
      else c # translate_day_abbrevs cs)"
  by pat_completeness auto
termination
  by (relation "measure length") (auto simp: le_imp_less_Suc length_dropWhile_le)

text \<open>What parsing reads from outside the file: besides what jobs read, which zones exist and the date they have
  now.\<close>

record task_env = item_env +
  te_tz_known :: "pystr \<Rightarrow> bool"
  te_today :: "pystr \<Rightarrow> int"

text \<open>\<open>HH:MM\<close>\<close>

definition parse_clock :: "pystr \<Rightarrow> int option" where
  "parse_clock s =
     (case split_char CHR '':'' s of
        [h, m] \<Rightarrow>
          (case (int_of_str h, int_of_str m) of
             (Some h, Some m) \<Rightarrow>
               if 0 \<le> h \<and> h < 24 \<and> 0 \<le> m \<and> m < 60 then Some ((h * 60 + m) * 60 * US_SECOND) else None
           | _ \<Rightarrow> None)
      | _ \<Rightarrow> None)"

text \<open>The close of the window; a sum past the last date of the calendar raises.\<close>

definition window_close :: "int \<Rightarrow> int \<Rightarrow> int \<Rightarrow> int option" where
  "window_close today start secs =
     (let t = start + secs * US_SECOND
      in if today + t div US_DAY > MAX_ORDINAL then None else Some (t mod US_DAY))"

text \<open>\<open>Some None\<close> is the absence of the field, \<^const>\<open>None\<close> a field that makes the file invalid.\<close>

definition window_start_field :: "(pystr \<times> pystr) list \<Rightarrow> int option option" where
  "window_start_field flds =
     (case or_none (or_field (dict_get flds ''window-start'') (dict_get flds ''window_start'')) of
        None \<Rightarrow> Some None
      | Some s \<Rightarrow> map_option Some (parse_clock s))"

definition window_end_field :: "int \<Rightarrow> int option \<Rightarrow> (pystr \<times> pystr) list \<Rightarrow> int option option" where
  "window_end_field today window_start flds =
     (case or_none (or_field (dict_get flds ''window-duration'') (dict_get flds ''window_duration'')) of
        None \<Rightarrow> Some None
      | Some s \<Rightarrow>
          (case (window_start, parse_duration s) of
             (Some ws, Some secs) \<Rightarrow> map_option Some (window_close today ws secs)
           | _ \<Rightarrow> None))"

definition date_field :: "(pystr \<times> pystr) list \<Rightarrow> pystr \<Rightarrow> int option" where
  "date_field flds key = (case or_none (dict_get flds key) of None \<Rightarrow> None | Some s \<Rightarrow> date_fromisoformat s)"

text \<open>The listing of a disabled task; its days are shown as written, or as a dash.\<close>

definition disabled_task :: "pystr \<Rightarrow> (pystr \<times> pystr) list \<Rightarrow> pystr \<Rightarrow> task_item" where
  "disabled_task path flds content =
     \<lparr>ti_path = path, ti_name = name_field flds path,
      ti_days_expr = (case or_none (dict_get flds ''days'') of Some d \<Rightarrow> d | None \<Rightarrow> ''-''),
      ti_tz = ''UTC'', ti_window_start = None, ti_window_end = None, ti_loop = False, ti_loop_gap = None,
      ti_done_when = None, ti_content = content, ti_start = None, ti_end = None,
      ti_model = or_none (dict_get flds ''model''), ti_backend_id = or_none (dict_get flds ''agent''),
      ti_consensus = [], ti_max_tokens = None, ti_enabled = False\<rparr>"

definition enabled_task ::
  "pystr \<Rightarrow> (pystr \<times> pystr) list \<Rightarrow> (pystr \<times> pyval) list \<Rightarrow> pystr \<Rightarrow> pystr \<Rightarrow> pystr \<Rightarrow> int option \<Rightarrow> int option \<Rightarrow> task_item" where
  "enabled_task path flds raw_flds content tz days ws we =
     \<lparr>ti_path = path, ti_name = name_field flds path, ti_days_expr = days, ti_tz = tz,
      ti_window_start = ws, ti_window_end = we,
      ti_loop = (flag_field flds ''loop'' [''false'', []] False \<and> we \<noteq> None),
      ti_loop_gap =
        (case or_none (or_field (dict_get flds ''loop-gap'') (dict_get flds ''loop_gap'')) of
           None \<Rightarrow> None | Some s \<Rightarrow> parse_duration s),
      ti_done_when = or_none (or_field (dict_get flds ''done-when'') (dict_get flds ''done_when'')),
      ti_content = content, ti_start = date_field flds ''start'', ti_end = date_field flds ''end'',
      ti_model = or_none (dict_get flds ''model''), ti_backend_id = or_none (dict_get flds ''agent''),
      ti_consensus = parse_consensus (get_or_none raw_flds ''consensus''),
      ti_max_tokens = max_tokens_field flds, ti_enabled = True\<rparr>"

definition parse_task_file :: "task_env \<Rightarrow> pystr \<Rightarrow> pystr option \<Rightarrow> task_item option" where
  "parse_task_file te path contents =
     (case contents of
        None \<Rightarrow> None
      | Some raw \<Rightarrow>
          (case (parse_frontmatter (ie_max_yaml te) (ie_yaml te) raw, parse_frontmatter_raw (ie_max_yaml te) (ie_yaml te) raw) of
             (Inr (flds, content), Inr (raw_flds, _)) \<Rightarrow>
               if \<not> enabled_field flds then Some (disabled_task path flds content)
               else
                 (let tz = (case or_none (dict_get flds ''timezone'') of Some z \<Rightarrow> z | None \<Rightarrow> ''UTC'');
                      days = translate_day_abbrevs (strip (case or_none (dict_get flds ''days'') of Some d \<Rightarrow> d | None \<Rightarrow> ''*''))
                  in if \<not> te_tz_known te tz then None
                     else if \<not> ie_cron_valid te (''0 0 * * '' @ days) then None
                     else
                       (case window_start_field flds of
                          None \<Rightarrow> None
                        | Some ws \<Rightarrow>
                            (case window_end_field (te_today te tz) ws flds of
                               None \<Rightarrow> None
                             | Some we \<Rightarrow> Some (enabled_task path flds raw_flds content tz days ws we))))
           | _ \<Rightarrow> None))"

section \<open>Windows\<close>

definition day_matches :: "(pystr \<Rightarrow> int \<Rightarrow> int) \<Rightarrow> task_item \<Rightarrow> int \<Rightarrow> bool" where
  "day_matches cron_next item d =
     (cron_next (''0 0 * * '' @ ti_days_expr item) (d * US_DAY - US_SECOND) div US_DAY = d)"

datatype next_open = Opens int | Expired | DateOverflow

text \<open>The search for the next eligible day; the calendar ends at its last date.\<close>

fun find_day :: "(pystr \<Rightarrow> int \<Rightarrow> int) \<Rightarrow> task_item \<Rightarrow> nat \<Rightarrow> int \<Rightarrow> next_open" where
  "find_day cron_next item 0 d = Expired"
| "find_day cron_next item (Suc n) d =
     (let later = (if d \<ge> MAX_ORDINAL then DateOverflow else find_day cron_next item n (d + 1))
      in if (case ti_start item of Some s \<Rightarrow> d < s | None \<Rightarrow> False) then later
         else if (case ti_end item of Some e \<Rightarrow> d > e | None \<Rightarrow> False) then Expired
         else if day_matches cron_next item d then Opens d
         else later)"

definition spans_midnight :: "task_item \<Rightarrow> int \<Rightarrow> bool" where
  "spans_midnight item ws = (case ti_window_end item of Some we \<Rightarrow> we < ws | None \<Rightarrow> False)"

definition in_tail :: "task_item \<Rightarrow> int \<Rightarrow> int \<Rightarrow> bool" where
  "in_tail item ws t = (spans_midnight item ws \<and> (case ti_window_end item of Some we \<Rightarrow> t < we | None \<Rightarrow> False))"

definition first_day :: "task_item \<Rightarrow> int \<Rightarrow> int \<Rightarrow> int \<Rightarrow> int" where
  "first_day item ws d t = (if in_tail item ws t then d + 1 else if t \<ge> ws then d + 1 else d)"

definition search_days :: "task_item \<Rightarrow> int \<Rightarrow> nat" where
  "search_days item d = (case ti_end item of Some e \<Rightarrow> nat (e - d + 2) | None \<Rightarrow> 366 * 10)"

text \<open>\<open>_next_window_open\<close> after the moment \<open>(d, t)\<close>: the day on which the window opens next.\<close>

definition next_window_open :: "(pystr \<Rightarrow> int \<Rightarrow> int) \<Rightarrow> task_item \<Rightarrow> int \<Rightarrow> int \<Rightarrow> next_open" where
  "next_window_open cron_next item d t =
     (case ti_window_start item of
        None \<Rightarrow> Expired
      | Some ws \<Rightarrow>
          (let first = first_day item ws d t
           in if first > MAX_ORDINAL then DateOverflow else find_day cron_next item (search_days item first) first))"

definition inside_window :: "(pystr \<Rightarrow> int \<Rightarrow> int) \<Rightarrow> task_item \<Rightarrow> int \<Rightarrow> int \<Rightarrow> int \<Rightarrow> bool" where
  "inside_window cron_next item ws d t =
     (\<not> (case ti_start item of Some s \<Rightarrow> d < s | None \<Rightarrow> False) \<and>
      \<not> (case ti_end item of Some e \<Rightarrow> d > e | None \<Rightarrow> False) \<and>
      day_matches cron_next item d \<and>
      (case ti_window_end item of
         Some we \<Rightarrow> if we < ws then t \<ge> ws \<or> t < we else \<not> t < ws \<and> \<not> t \<ge> we
       | None \<Rightarrow> \<not> t < ws))"

section \<open>Fires\<close>

text \<open>The session of a fire: one per agent, file and calendar day, or one for all time in run-once mode.\<close>

definition day_session_id :: "task_env \<Rightarrow> task_item \<Rightarrow> pydate \<Rightarrow> pystr" where
  "day_session_id te item today =
     ie_uuid5 te (ie_agent_name te @ ''.'' @ path_stem (ti_path item) @ ''.'' @ isoformat today)"

definition once_session_id :: "task_env \<Rightarrow> task_item \<Rightarrow> pystr" where
  "once_session_id te item = ie_uuid5 te (ie_agent_name te @ ''.'' @ path_stem (ti_path item))"

definition task_message ::
  "(pystr \<Rightarrow> pystr \<Rightarrow> bool) \<Rightarrow> int \<Rightarrow> (pystr \<rightharpoonup> pystr) \<Rightarrow> task_item \<Rightarrow> pystr \<Rightarrow> prompt_state \<Rightarrow> message \<times> prompt_state" where
  "task_message fnm rearm env item session_id st =
     (case resolve_prompt_env fnm rearm env (''Task: '' @ ti_name item @ [CHR 0x0A, CHR 0x0A] @ ti_content item) st of
        (prompt, st') \<Rightarrow>
          (make_message prompt (Some session_id) (''task:'' @ ti_name item) (ti_model item) (ti_backend_id item)
             (ti_consensus item) (ti_max_tokens item) None, st'))"

text \<open>\<open>strftime('%H:%M')\<close> of a time of day.\<close>

definition clock_text :: "int \<Rightarrow> pystr" where
  "clock_text t =
     (let m = t div (60 * US_SECOND)
      in [digit_at (m div 60) 10, digit_at (m div 60) 1, CHR '':'', digit_at (m mod 60) 10, digit_at (m mod 60) 1])"

definition task_payload :: "task_item \<Rightarrow> int \<Rightarrow> pystr option \<Rightarrow> payload" where
  "task_payload item duration_ms err =
     [(''name'', PStr (ti_name item)), (''duration_ms'', PInt duration_ms)] @ outcome_fields err @
     (case (ti_window_start item, ti_window_end item) of
        (Some ws, Some we) \<Rightarrow> [(''window'', PStr (clock_text ws @ ''-'' @ clock_text we))]
      | _ \<Rightarrow> [])"

definition task_finished ::
  "(nat \<Rightarrow> pystr) \<Rightarrow> pystr \<Rightarrow> task_item \<Rightarrow> int \<Rightarrow> pystr option \<Rightarrow> event_stream \<Rightarrow> publish_result \<times> event_stream" where
  "task_finished clock agent_name item duration_ms err s =
     publish clock ''task.fired'' (task_payload item duration_ms err) (Some agent_name) 1 s"

section \<open>The loop inside a window\<close>

text \<open>How the dispatch of a fire ended.\<close>

datatype fire_result = Replied pystr | Failed pystr | FireCancelled

text \<open>What one turn of the loop meets: the end of the dispatch, the moment after it, whether the task is cancelled while it
  sleeps through the gap, the moment after the gap, and the moment at which the day is read again.\<close>

record turn =
  tn_result :: fire_result
  tn_after :: "pydate \<times> int"
  tn_gap_cancelled :: bool
  tn_after_gap :: "pydate \<times> int"
  tn_next :: "pydate \<times> int"

datatype stop_reason = StopOnce | StopDone | StopClosed | StopClosedAfterGap | StopError | StopCancelled | Unfinished

definition at_moment :: "(int \<Rightarrow> int \<Rightarrow> bool) \<Rightarrow> pydate \<times> int \<Rightarrow> bool" where
  "at_moment f m = f (toordinal (fst m)) (snd m)"

text \<open>A gap of zero is no sleep, and so no place to be cancelled.\<close>

definition sleeps_gap :: "task_item \<Rightarrow> bool" where
  "sleeps_gap item = (case ti_loop_gap item of Some gap \<Rightarrow> gap \<noteq> 0 | None \<Rightarrow> False)"

definition turn_stop :: "(pystr \<Rightarrow> int \<Rightarrow> int) \<Rightarrow> task_item \<Rightarrow> int \<Rightarrow> turn \<Rightarrow> stop_reason option" where
  "turn_stop cron_next item ws tn =
     (case tn_result tn of
        FireCancelled \<Rightarrow> Some StopCancelled
      | Failed _ \<Rightarrow> Some StopError
      | Replied response \<Rightarrow>
          if \<not> ti_loop item \<or> ti_window_end item = None then Some StopOnce
          else if (case ti_done_when item of Some dw \<Rightarrow> response \<noteq> [] \<and> substring dw response | None \<Rightarrow> False) then Some StopDone
          else if \<not> at_moment (inside_window cron_next item ws) (tn_after tn) then Some StopClosed
          else if sleeps_gap item \<and> tn_gap_cancelled tn then Some StopCancelled
          else if \<not> at_moment (inside_window cron_next item ws) (tn_after_gap tn) then Some StopClosedAfterGap
          else None)"

text \<open>The sessions of the fires of one window, and why the loop stopped; it has not when the turns run out.\<close>

fun window_fires ::
  "(pystr \<Rightarrow> int \<Rightarrow> int) \<Rightarrow> task_env \<Rightarrow> task_item \<Rightarrow> int \<Rightarrow> pydate \<Rightarrow> turn list \<Rightarrow> pystr list \<times> stop_reason" where
  "window_fires cron_next te item ws today [] = ([], Unfinished)"
| "window_fires cron_next te item ws today (tn # tns) =
     (case turn_stop cron_next item ws tn of
        Some reason \<Rightarrow> ([day_session_id te item today], reason)
      | None \<Rightarrow>
          (case window_fires cron_next te item ws (fst (tn_next tn)) tns of
             (sessions, reason) \<Rightarrow> (day_session_id te item today # sessions, reason)))"

text \<open>At start-up the task fires at once when the window is open, with or without a checkpoint; a checkpoint is
  removed either way.\<close>

definition startup_fires :: "(pystr \<Rightarrow> int \<Rightarrow> int) \<Rightarrow> task_item \<Rightarrow> int \<Rightarrow> int \<Rightarrow> int \<Rightarrow> bool \<Rightarrow> bool \<times> bool" where
  "startup_fires cron_next item ws d t checkpoint =
     (if checkpoint then (inside_window cron_next item ws d t, False)
      else (inside_window cron_next item ws d t, checkpoint))"

section \<open>The runner\<close>

type_synonym task_runner = "task_item sched_runner"

definition task_register :: "task_env \<Rightarrow> pystr \<Rightarrow> pystr option \<Rightarrow> task_runner \<Rightarrow> task_runner" where
  "task_register te path contents r = sched_register ti_enabled path (parse_task_file te path contents) r"

definition task_unregister :: "pystr \<Rightarrow> task_runner \<Rightarrow> task_runner" where
  "task_unregister = sched_unregister"

interpretation task_files: file_registry sched_lookup "parse_task_file te" "task_register te" task_unregister sched_paths
    "init_sched max_concurrent"
  for te max_concurrent
  by unfold_locales (simp_all add: sched_lookup_init task_register_def task_unregister_def sched_lookup_register
      sched_lookup_unregister sched_lookup_paths parse_task_file_def)

text \<open>The tasks of a watched directory are those its files describe.\<close>

lemma tasks_mirror_directory:
  assumes "watch_run (task_register te) task_unregister sched_paths (init_sched max_concurrent) w missed"
    and "wt_phase w = Watching" "wt_pending w = []" "md_file p" "p \<notin> set missed"
  shows "in_sync (parse_task_file te) p (dict_get (wt_fs w) p) (sched_lookup (wt_state w) p)"
  using assms by (rule task_files.watcher_in_sync)

section \<open>The search finds the first eligible day\<close>

text \<open>What the cron library is documented to do with the expression of a task: it matches at midnight of some days
  and \<open>get_next\<close> is the first match after the anchor.\<close>

definition days_cron :: "(int \<Rightarrow> bool) \<Rightarrow> (int \<Rightarrow> int) \<Rightarrow> bool" where
  "days_cron day_ok nxt = first_after (\<lambda>t. US_DAY dvd t \<and> day_ok (t div US_DAY)) nxt"

lemma day_matches_iff:
  assumes "days_cron day_ok (cron_next (''0 0 * * '' @ ti_days_expr item))"
  shows "day_matches cron_next item d \<longleftrightarrow> day_ok d"
proof -
  let ?n = "cron_next (''0 0 * * '' @ ti_days_expr item) (d * US_DAY - US_SECOND)"
  have n: "d * US_DAY - US_SECOND < ?n" "US_DAY dvd ?n" "day_ok (?n div US_DAY)"
    and least: "d * US_DAY - US_SECOND < t \<Longrightarrow> US_DAY dvd t \<Longrightarrow> day_ok (t div US_DAY) \<Longrightarrow> ?n \<le> t" for t
    using assms unfolding days_cron_def first_after_def by blast+
  obtain k where k: "?n = US_DAY * k" using n(2) by (rule dvdE)
  have "day_matches cron_next item d \<longleftrightarrow> k = d" unfolding day_matches_def k by (simp add: US_DAY_def)
  moreover have "day_ok k" using n(3) unfolding k by (simp add: US_DAY_def)
  moreover have "d \<le> k" using n(1) unfolding k by (simp add: US_DAY_def US_SECOND_def)
  moreover have "k \<le> d" if "day_ok d" using least [of "US_DAY * d"] that unfolding k by (simp add: US_DAY_def US_SECOND_def)
  ultimately show ?thesis by auto
qed

definition eligible :: "task_item \<Rightarrow> (int \<Rightarrow> bool) \<Rightarrow> int \<Rightarrow> bool" where
  "eligible item day_ok d =
     (day_ok d \<and> (case ti_start item of Some s \<Rightarrow> s \<le> d | None \<Rightarrow> True) \<and> (case ti_end item of Some e \<Rightarrow> d \<le> e | None \<Rightarrow> True))"

definition none_before :: "task_item \<Rightarrow> (int \<Rightarrow> bool) \<Rightarrow> int \<Rightarrow> int \<Rightarrow> bool" where
  "none_before item day_ok d e = (\<forall>x. d \<le> x \<longrightarrow> x < e \<longrightarrow> \<not> eligible item day_ok x)"

lemma none_before_step: "\<not> eligible item day_ok d \<Longrightarrow> none_before item day_ok (d + 1) e \<Longrightarrow> none_before item day_ok d e"
  unfolding none_before_def by (metis less_le_not_le zless_imp_add1_zle le_less)

lemma none_past_end: "ti_end item = Some e \<Longrightarrow> e < d \<Longrightarrow> none_before item day_ok d k"
  by (simp add: none_before_def eligible_def)

lemma find_day_Suc:
  assumes "\<And>d. day_matches cron_next item d \<longleftrightarrow> day_ok d"
  shows "find_day cron_next item (Suc n) d =
    (if eligible item day_ok d then Opens d
     else if (case ti_end item of Some e \<Rightarrow> d > e | None \<Rightarrow> False) \<and> (case ti_start item of Some s \<Rightarrow> s \<le> d | None \<Rightarrow> True) then Expired
     else if d \<ge> MAX_ORDINAL then DateOverflow else find_day cron_next item n (d + 1))"
  by (cases "ti_start item"; cases "ti_end item") (auto simp: assms eligible_def)

text \<open>Every way the search can end.\<close>

lemma find_day_opens:
  assumes m: "\<And>d. day_matches cron_next item d \<longleftrightarrow> day_ok d" and "find_day cron_next item n d = Opens k"
  shows "eligible item day_ok k \<and> d \<le> k \<and> none_before item day_ok d k"
  using assms(2)
proof (induction n arbitrary: d)
  case (Suc n)
  then show ?case
  proof (cases "eligible item day_ok d")
    case True
    then show ?thesis using Suc.prems unfolding find_day_Suc [OF m] by (simp add: none_before_def)
  next
    case False
    then have "find_day cron_next item n (d + 1) = Opens k"
      using Suc.prems unfolding find_day_Suc [OF m] by (simp split: if_splits)
    from Suc.IH [OF this] False show ?thesis by (auto intro: none_before_step)
  qed
qed simp

lemma find_day_expired:
  assumes m: "\<And>d. day_matches cron_next item d \<longleftrightarrow> day_ok d" and "find_day cron_next item n d = Expired"
  shows "none_before item day_ok d (d + int n)"
  using assms(2)
proof (induction n arbitrary: d)
  case (Suc n)
  have no: "\<not> eligible item day_ok d" using Suc.prems unfolding find_day_Suc [OF m] by (simp split: if_splits)
  show ?case
  proof (cases "case ti_end item of Some e \<Rightarrow> d > e | None \<Rightarrow> False")
    case True
    then show ?thesis by (auto split: option.splits intro: none_past_end)
  next
    case False
    then have "find_day cron_next item n (d + 1) = Expired"
      using no Suc.prems unfolding find_day_Suc [OF m] by (simp split: if_splits)
    from none_before_step [OF no Suc.IH [OF this]] show ?thesis by (simp add: algebra_simps)
  qed
qed (simp add: none_before_def)

lemma find_day_overflow:
  assumes m: "\<And>d. day_matches cron_next item d \<longleftrightarrow> day_ok d" and "find_day cron_next item n d = DateOverflow"
  shows "none_before item day_ok d (MAX_ORDINAL + 1)"
  using assms(2)
proof (induction n arbitrary: d)
  case (Suc n)
  have no: "\<not> eligible item day_ok d" using Suc.prems unfolding find_day_Suc [OF m] by (simp split: if_splits)
  show ?case
  proof (cases "d \<ge> MAX_ORDINAL")
    case True
    have "x = d" if "d \<le> x" "x < MAX_ORDINAL + 1" for x using True that by simp
    then show ?thesis using no unfolding none_before_def by blast
  next
    case False
    then have "find_day cron_next item n (d + 1) = DateOverflow"
      using no Suc.prems unfolding find_day_Suc [OF m] by (simp split: if_splits)
    from none_before_step [OF no Suc.IH [OF this]] show ?thesis .
  qed
qed simp

lemma inside_eligible:
  assumes "\<And>d. day_matches cron_next item d \<longleftrightarrow> day_ok d"
  shows "inside_window cron_next item ws d t \<longleftrightarrow> eligible item day_ok d \<and>
    (case ti_window_end item of Some we \<Rightarrow> if we < ws then t \<ge> ws \<or> t < we else ws \<le> t \<and> t < we | None \<Rightarrow> ws \<le> t)"
  by (cases "ti_start item"; cases "ti_end item"; cases "ti_window_end item") (auto simp: inside_window_def assms eligible_def)


text \<open>An expression that matches every day, and a task with a window of two hours from ten in the evening.\<close>

definition every_day :: "pystr \<Rightarrow> int \<Rightarrow> int" where
  "every_day expr a = US_DAY * (a div US_DAY + 1)"

definition hours :: "int \<Rightarrow> int" where
  "hours h = h * 3600 * US_SECOND"

definition demo_task :: task_item where
  "demo_task = \<lparr>ti_path = ''/t/a.md'', ti_name = ''a'', ti_days_expr = ''*'', ti_tz = ''UTC'', ti_window_start = Some (hours 22),
     ti_window_end = Some (hours 23), ti_loop = True, ti_loop_gap = None, ti_done_when = Some ''DONE'', ti_content = ''go'',
     ti_start = None, ti_end = None, ti_model = None, ti_backend_id = None, ti_consensus = [], ti_max_tokens = None, ti_enabled = True\<rparr>"

lemma every_day_cron: "days_cron (\<lambda>_. True) (every_day expr)"
proof -
  have m: "US_DAY * (a div US_DAY) + a mod US_DAY = a" "a mod US_DAY < US_DAY" "0 \<le> a mod US_DAY" for a
    by (simp_all add: US_DAY_def)
  have "a < every_day expr a" for a unfolding every_day_def distrib_left using m(1,2) [of a] by linarith
  moreover have "every_day expr a \<le> t" if lt: "a < t" and dv: "US_DAY dvd t" for a t
  proof -
    obtain k where k: "t = US_DAY * k" using dv by (rule dvdE)
    then have "US_DAY * (a div US_DAY) < US_DAY * k" using lt m(1,3) [of a] by linarith
    then have "a div US_DAY < k" by (simp add: US_DAY_def)
    then show ?thesis unfolding every_day_def k by (simp add: US_DAY_def)
  qed
  ultimately show ?thesis by (simp add: days_cron_def first_after_def every_day_def)
qed

lemma every_day_opens:
  assumes "ti_start item = None" "ti_end item = None" "ti_window_start item = Some ws" "first_day item ws d t \<le> MAX_ORDINAL"
  shows "next_window_open every_day item d t = Opens (first_day item ws d t)"
proof -
  have m: "day_matches every_day item d \<longleftrightarrow> True" for d by (rule day_matches_iff [OF every_day_cron])
  let ?f = "first_day item ws d t"
  have n: "search_days item ?f = Suc 3659" using assms(2) by (simp add: search_days_def)
  have "find_day every_day item (Suc 3659) ?f = Opens ?f"
    using assms find_day_Suc [where day_ok = "\<lambda>_. True" and n = 3659 and d = ?f, OF m] by (simp only: eligible_def option.case simp_thms if_True)
  then show ?thesis using assms(3,4) n by (simp add: next_window_open_def)
qed


text \<open>In the tail of a window that spans midnight the opening of the same evening is skipped: at one o'clock, in the window
  from ten to two, the next opening returned is not the one in twenty-one hours but the one a day later.\<close>

lemma tail_skips_tonight:
  defines "night \<equiv> demo_task\<lparr>ti_window_end := Some (hours 2)\<rparr>"
  shows "in_tail night (hours 22) (hours 1) \<and> next_window_open every_day night 738945 (hours 1) = Opens 738946 \<and>
    inside_window every_day night (hours 22) 738945 (hours 22)"
proof (intro conjI)
  have tail: "in_tail night (hours 22) (hours 1)" unfolding night_def by code_simp
  then have "first_day night (hours 22) 738945 (hours 1) = 738946" by (simp add: first_day_def)
  then show "next_window_open every_day night 738945 (hours 1) = Opens 738946"
    using every_day_opens [of night "hours 22" 738945 "hours 1"] by (simp add: night_def demo_task_def MAX_ORDINAL_def)
  show "inside_window every_day night (hours 22) 738945 (hours 22)" unfolding night_def by code_simp
  show "in_tail night (hours 22) (hours 1)" by (rule tail)
qed

text \<open>A window as long as a day is never open.\<close>

lemma full_day_never_open: "ti_window_end item = Some ws \<Longrightarrow> \<not> inside_window cron_next item ws d t"
  by (auto simp: inside_window_def)

lemma full_day_duration: "0 \<le> ws \<Longrightarrow> ws < US_DAY \<Longrightarrow> today + 1 \<le> MAX_ORDINAL \<Longrightarrow> window_close today ws 86400 = Some ws"
  by (simp add: window_close_def US_DAY_def US_SECOND_def Let_def)

text \<open>The early-morning part of a window that spans midnight is judged by the day it falls on, not by the evening the
  window opened: with a window on one day only, it is closed after midnight, and open in the morning before it first opens.\<close>

lemma spanning_day_mismatch:
  assumes "\<And>d. day_matches cron_next item d \<longleftrightarrow> d = k" "ti_start item = None" "ti_end item = None"
    and "ti_window_end item = Some we" "we < ws" "0 < we"
  shows "inside_window cron_next item ws k ws \<and> \<not> inside_window cron_next item ws (k + 1) 0 \<and> inside_window cron_next item ws k 0"
  using assms by (simp add: inside_window_def)

section \<open>The loop stays inside its window\<close>

lemma fires_decided:
  assumes "window_fires cron_next te item ws today tns = (sessions, reason)" "i < length sessions"
  shows "sessions ! i = day_session_id te item (if i = 0 then today else fst (tn_next (tns ! (i - 1)))) \<and> i < length tns \<and>
    (0 < i \<longrightarrow> ti_loop item \<and> (\<exists>response. tn_result (tns ! (i - 1)) = Replied response \<and>
        (\<forall>dw. ti_done_when item = Some dw \<longrightarrow> response = [] \<or> \<not> substring dw response)) \<and>
      at_moment (inside_window cron_next item ws) (tn_after (tns ! (i - 1))) \<and>
      at_moment (inside_window cron_next item ws) (tn_after_gap (tns ! (i - 1))))"
  using assms
proof (induction tns arbitrary: today sessions i)
  case (Cons tn tns)
  show ?case
  proof (cases "turn_stop cron_next item ws tn")
    case (Some r)
    then show ?thesis using Cons.prems by auto
  next
    case None
    obtain ss where ss: "window_fires cron_next te item ws (fst (tn_next tn)) tns = (ss, reason)"
        "sessions = day_session_id te item today # ss"
      using Cons.prems(1) None by (auto split: prod.splits)
    have cont: "ti_loop item" "\<exists>response. tn_result tn = Replied response \<and>
        (\<forall>dw. ti_done_when item = Some dw \<longrightarrow> response = [] \<or> \<not> substring dw response)"
      "at_moment (inside_window cron_next item ws) (tn_after tn)" "at_moment (inside_window cron_next item ws) (tn_after_gap tn)"
      using None by (auto simp: turn_stop_def split: fire_result.splits if_splits)
    show ?thesis
    proof (cases i)
      case 0
      then show ?thesis by (simp add: ss)
    next
      case (Suc j)
      with Cons.prems(2) have "j < length ss" by (simp add: ss)
      from Cons.IH [OF ss(1) this] show ?thesis using Suc cont by (cases j) (simp_all add: ss)
    qed
  qed
qed simp

lemma window_fires_reason:
  assumes "window_fires cron_next te item ws today tns = (sessions, reason)" "tns \<noteq> []"
  shows "turn_stop cron_next item ws (tns ! (length sessions - 1)) = (if reason = Unfinished then None else Some reason) \<and>
    sessions \<noteq> [] \<and> (reason = Unfinished \<longrightarrow> length sessions = length tns)"
  using assms
proof (induction tns arbitrary: today sessions)
  case (Cons tn tns)
  show ?case
  proof (cases "turn_stop cron_next item ws tn")
    case (Some r)
    then have "r \<noteq> Unfinished" by (auto simp: turn_stop_def split: fire_result.splits if_splits)
    then show ?thesis using Some Cons.prems(1) by auto
  next
    case None
    obtain ss where ss: "window_fires cron_next te item ws (fst (tn_next tn)) tns = (ss, reason)" "sessions = day_session_id te item today # ss"
      using Cons.prems(1) None by (auto split: prod.splits)
    show ?thesis
    proof (cases "tns = []")
      case True
      then show ?thesis using ss None by simp
    next
      case False
      then show ?thesis using Cons.IH [OF ss(1) False] ss(2) by (cases ss) simp_all
    qed
  qed
qed simp

text \<open>C10: After the first fire of a window the task fires again only if it loops, its last reply came and did not carry
  the done signal, and the window was open both after that reply and after the gap. Each fire uses the session of the
  day on which it was decided. The reason for which the loop stops is the one that its last turn shows: an error or a
  cancellation of the dispatch, a cancellation in the gap, a task that does not loop, the done signal in the reply, or
  a window closed after the reply or after the gap; the loop only goes on as long as there are turns.\<close>

theorem loop_stays_inside:
  assumes "window_fires cron_next te item ws today tns = (sessions, reason)" "i < length sessions"
  shows "sessions ! i = day_session_id te item (if i = 0 then today else fst (tn_next (tns ! (i - 1)))) \<and> i < length tns \<and>
    (0 < i \<longrightarrow> ti_loop item \<and> (\<exists>response. tn_result (tns ! (i - 1)) = Replied response \<and>
        (\<forall>dw. ti_done_when item = Some dw \<longrightarrow> response = [] \<or> \<not> substring dw response)) \<and>
      at_moment (inside_window cron_next item ws) (tn_after (tns ! (i - 1))) \<and>
      at_moment (inside_window cron_next item ws) (tn_after_gap (tns ! (i - 1)))) \<and>
    (let tn = tns ! (length sessions - 1);
         open_at = at_moment (inside_window cron_next item ws);
         loops = (ti_loop item \<and> ti_window_end item \<noteq> None)
     in case reason of
          StopError \<Rightarrow> \<exists>err. tn_result tn = Failed err
        | StopCancelled \<Rightarrow> tn_result tn = FireCancelled \<or>
            (\<exists>response. tn_result tn = Replied response) \<and> loops \<and> open_at (tn_after tn) \<and> sleeps_gap item \<and> tn_gap_cancelled tn
        | StopOnce \<Rightarrow> (\<exists>response. tn_result tn = Replied response) \<and> \<not> loops
        | StopDone \<Rightarrow> \<exists>response dw. tn_result tn = Replied response \<and> loops \<and> ti_done_when item = Some dw \<and> response \<noteq> [] \<and> substring dw response
        | StopClosed \<Rightarrow> (\<exists>response. tn_result tn = Replied response) \<and> loops \<and> \<not> open_at (tn_after tn)
        | StopClosedAfterGap \<Rightarrow>
            (\<exists>response. tn_result tn = Replied response) \<and> loops \<and> open_at (tn_after tn) \<and> \<not> open_at (tn_after_gap tn)
        | Unfinished \<Rightarrow> length sessions = length tns \<and> loops \<and> open_at (tn_after_gap tn))"
  proof -
  have "tns \<noteq> []" using fires_decided [OF assms] by auto
  from window_fires_reason [OF assms(1) this] fires_decided [OF assms] show ?thesis
    unfolding Let_def by (cases reason) (auto simp: turn_stop_def split: fire_result.splits if_splits option.splits)
qed

definition demo_turn :: "pystr \<Rightarrow> turn" where
  "demo_turn reply = \<lparr>tn_result = Replied reply, tn_after = (Date 2024 2 29, hours 22), tn_gap_cancelled = False, tn_after_gap = (Date 2024 2 29, hours 22),
     tn_next = (Date 2024 2 29, hours 22)\<rparr>"

definition demo_task_env :: task_env where
  "demo_task_env = \<lparr>ie_yaml = (\<lambda>_. None), ie_max_yaml = 65536, ie_cron_valid = (\<lambda>_. True), ie_uuid5 = (\<lambda>s. s),
     ie_agent_name = ''iris'', te_tz_known = (\<lambda>_. True), te_today = (\<lambda>_. 738945)\<rparr>"

theorem loop_stays_inside_witness:
  "window_fires every_day demo_task_env demo_task (hours 22) (Date 2024 2 29) [demo_turn ''more'', demo_turn ''DONE'', demo_turn ''x''] =
     ([''iris.a.2024-02-29'', ''iris.a.2024-02-29''], StopDone) \<and>
   at_moment (inside_window every_day demo_task (hours 22)) (tn_after (demo_turn ''more''))"
proof -
  have eq: "window_fires every_day demo_task_env demo_task (hours 22) (Date 2024 2 29) [demo_turn ''more'', demo_turn ''DONE'', demo_turn ''x''] =
     ([''iris.a.2024-02-29'', ''iris.a.2024-02-29''], StopDone)" by code_simp
  from loop_stays_inside [OF this, of 1] eq show ?thesis by simp
qed

text \<open>The event of a fire is accepted by the event stream.\<close>

lemma task_event_accepted:
  assumes "parse_task_file te path contents = Some item" "md_file path" "duration_ms \<ge> 0" "clock 0 \<noteq> []"
  shows "\<exists>env t. task_finished clock agent_name item duration_ms err s = (Published env, t) \<and> ev_type env = ''task.fired''"
proof -
  have "\<exists>flds. ti_name item = name_field flds path"
    using assms(1) by (auto simp: parse_task_file_def disabled_task_def enabled_task_def Let_def
        split: option.splits sum.splits prod.splits if_splits)
  then have "ti_name item \<noteq> []" using name_field_nonempty [OF assms(2)] by metis
  then have "validate_task_fired (task_payload item duration_ms err) = VOk"
    using assms(3) by (cases err; cases "ti_window_start item"; cases "ti_window_end item")
      (simp_all add: validate_task_fired_def task_payload_def outcome_fields_def fired_checks)
  moreover have "dict_get VALIDATORS ''task.fired'' = Some validate_task_fired" by (simp add: VALIDATORS_def)
  ultimately show ?thesis unfolding task_finished_def using assms(4) publish_accepts_ex by blast
qed

end
