(* ===== verification/Heartbeat.thy ===== *)
theory Heartbeat
  imports Jobs
begin

text \<open>
  Model of \<open>harness/heartbeat.py\<close>: the file \<open>HEARTBEAT.md\<close>, one turn of the fire loop, and the supervisor that
  restarts the loop when the file changes. The times of the turns are those of the cron loop of \<open>Scheduler\<close>.
\<close>

section \<open>The file\<close>

definition DEFAULT_SCHEDULE :: pystr where
  "DEFAULT_SCHEDULE = ''*/30 * * * *''"

record heartbeat =
  hb_schedule :: pystr
  hb_content :: pystr
  hb_model :: "pystr option"
  hb_backend_id :: "pystr option"
  hb_consensus :: "consensus_entry list"
  hb_max_tokens :: "int option"

text \<open>\<open>load_heartbeat\<close>; the file is \<^const>\<open>None\<close> when it does not exist. \<^const>\<open>Inl\<close> is an exception of the front
  matter, which the caller catches.\<close>

definition load_heartbeat :: "item_env \<Rightarrow> pystr option \<Rightarrow> fm_error + heartbeat option" where
  "load_heartbeat ie contents =
     (case contents of
        None \<Rightarrow> Inr None
      | Some raw \<Rightarrow>
          (case (parse_frontmatter (ie_max_yaml ie) (ie_yaml ie) raw, parse_frontmatter_raw (ie_max_yaml ie) (ie_yaml ie) raw) of
             (Inl e, _) \<Rightarrow> Inl e
           | (_, Inl e) \<Rightarrow> Inl e
           | (Inr (flds, content), Inr (raw_flds, _)) \<Rightarrow>
               (let schedule = (case dict_get flds ''schedule'' of Some s \<Rightarrow> s | None \<Rightarrow> DEFAULT_SCHEDULE)
                in if \<not> enabled_field flds then Inr None
                   else if content = [] then Inr None
                   else Inr (Some
                     \<lparr>hb_schedule = (if ie_cron_valid ie schedule then schedule else DEFAULT_SCHEDULE),
                      hb_content = content, hb_model = or_none (dict_get flds ''model''),
                      hb_backend_id = or_none (dict_get flds ''agent''),
                      hb_consensus = parse_consensus (get_or_none raw_flds ''consensus''),
                      hb_max_tokens = max_tokens_field flds\<rparr>))))"

section \<open>A turn of the fire loop\<close>

definition heartbeat_session :: "item_env \<Rightarrow> pystr" where
  "heartbeat_session ie = ie_uuid5 ie (ie_agent_name ie @ ''.heartbeat'')"

definition heartbeat_message ::
  "(pystr \<Rightarrow> pystr \<Rightarrow> bool) \<Rightarrow> int \<Rightarrow> (pystr \<rightharpoonup> pystr) \<Rightarrow> item_env \<Rightarrow> heartbeat \<Rightarrow> prompt_state \<Rightarrow> message \<times> prompt_state" where
  "heartbeat_message fnm rearm env ie hb st =
     (case resolve_prompt_env fnm rearm env
             (''Heartbeat check. Follow these instructions:'' @ [CHR 0x0A, CHR 0x0A] @ hb_content hb) st of
        (prompt, st') \<Rightarrow>
          (make_message prompt (Some (heartbeat_session ie)) ''heartbeat'' (hb_model hb) (hb_backend_id hb)
             (hb_consensus hb) (hb_max_tokens hb) None, st'))"

datatype hb_outcome = HbLoadError | HbDisabled | HbStillPending | HbSent

text \<open>What happens when the tick has come: the file is read again, and the message goes out unless the last one is still
  in flight or the queue is full.\<close>

definition heartbeat_tick ::
  "(pystr \<Rightarrow> pystr \<Rightarrow> bool) \<Rightarrow> int \<Rightarrow> (pystr \<rightharpoonup> pystr) \<Rightarrow> item_env \<Rightarrow> int \<Rightarrow> pystr option \<Rightarrow> prompt_state \<Rightarrow> bus
   \<Rightarrow> hb_outcome \<times> prompt_state \<times> bus" where
  "heartbeat_tick fnm rearm env ie now contents st b =
     (case load_heartbeat ie contents of
        Inl _ \<Rightarrow> (HbLoadError, st, b)
      | Inr None \<Rightarrow> (HbDisabled, st, b)
      | Inr (Some hb) \<Rightarrow>
          (case heartbeat_message fnm rearm env ie hb st of
             (m, st') \<Rightarrow>
               (case try_send now m b of (sent, b') \<Rightarrow> (if sent then HbSent else HbStillPending, st', b'))))"

text \<open>The ad-hoc request \<open>POST /heartbeat/run\<close> of \<open>harness/main.py\<close>, past the checks of the request: the status code.\<close>

definition heartbeat_run ::
  "(pystr \<Rightarrow> pystr \<Rightarrow> bool) \<Rightarrow> int \<Rightarrow> (pystr \<rightharpoonup> pystr) \<Rightarrow> item_env \<Rightarrow> int \<Rightarrow> pystr option \<Rightarrow> prompt_state \<Rightarrow> bus
   \<Rightarrow> int \<times> prompt_state \<times> bus" where
  "heartbeat_run fnm rearm env ie now contents st b =
     (case heartbeat_tick fnm rearm env ie now contents st b of
        (outcome, st', b') \<Rightarrow>
          (case outcome of HbLoadError \<Rightarrow> 404 | HbDisabled \<Rightarrow> 404 | HbStillPending \<Rightarrow> 409 | HbSent \<Rightarrow> 202, st', b'))"

definition hb_fired_payload :: "pystr \<Rightarrow> int \<Rightarrow> pystr option \<Rightarrow> payload" where
  "hb_fired_payload schedule duration_ms err =
     [(''duration_ms'', PInt duration_ms)] @ outcome_fields err @
     (if schedule = [] then [] else [(''schedule'', PStr schedule)])"

definition heartbeat_finished ::
  "(nat \<Rightarrow> pystr) \<Rightarrow> pystr \<Rightarrow> pystr \<Rightarrow> int \<Rightarrow> pystr option \<Rightarrow> event_stream \<Rightarrow> publish_result \<times> event_stream" where
  "heartbeat_finished clock agent_name schedule duration_ms err s =
     publish clock ''heartbeat.fired'' (hb_fired_payload schedule duration_ms err) (Some agent_name) 1 s"

section \<open>The supervisor\<close>

text \<open>The loop that is running, by the configuration it was started with. A change of the file, and the end of the
  watch, stop it and start a new one when the file gives one.\<close>

definition supervisor_load :: "item_env \<Rightarrow> pystr option \<Rightarrow> heartbeat option" where
  "supervisor_load ie contents = (case load_heartbeat ie contents of Inl _ \<Rightarrow> None | Inr res \<Rightarrow> res)"

definition on_path_change :: "item_env \<Rightarrow> pystr \<Rightarrow> pystr option \<Rightarrow> heartbeat option \<Rightarrow> heartbeat option" where
  "on_path_change ie path contents running =
     (if endswith path ''HEARTBEAT.md'' then supervisor_load ie contents else running)"

section \<open>Properties\<close>

text \<open>The kinds under which the other parts of the harness call \<open>send\<close>.\<close>

definition other_kind :: "pystr \<Rightarrow> bool" where
  "other_kind k = (k = ''a2a'' \<or> list_ex (startswith k) [''job:'', ''task:'', ''trigger:'', ''continuation:''])"

lemma other_kind_not_heartbeat: "other_kind k \<Longrightarrow> k \<noteq> ''heartbeat''"
  by (auto simp: other_kind_def startswith_def)

lemma heartbeat_message_kind: "msg_kind (fst (heartbeat_message fnm rearm env ie hb st)) = ''heartbeat''"
  by (simp add: heartbeat_message_def make_message_def split: prod.split)

text \<open>C8: Whatever the rest of the harness does with the bus, as long as it sends under its own kinds, at most one
  heartbeat is queued or being processed; and a tick (or an ad-hoc request) puts a heartbeat on the bus
  exactly when the file is there, readable, enabled and not empty, none is in flight and the queue has room. The
  reply of the ad-hoc request is 202 in exactly that case.\<close>

theorem heartbeat_single_flight:
  assumes run: "(bus_step (\<lambda>m. other_kind (msg_kind m)))\<^sup>*\<^sup>* (init_bus depth) b"
  shows "in_flight ''heartbeat'' b \<le> 1 \<and>
    (fst (heartbeat_tick fnm rearm env ie now contents st b) = HbSent \<longleftrightarrow>
       supervisor_load ie contents \<noteq> None \<and> in_flight ''heartbeat'' b = 0 \<and> \<not> queue_full (bus_queue b)) \<and>
    (fst (heartbeat_run fnm rearm env ie now contents st b) = 202 \<longleftrightarrow>
       fst (heartbeat_tick fnm rearm env ie now contents st b) = HbSent)"
proof -
  have "bus_step (\<lambda>m. other_kind (msg_kind m)) \<le> bus_step (\<lambda>m. msg_kind m \<noteq> ''heartbeat'')"
    by (rule predicate2I) (erule bus_step_mono, rule other_kind_not_heartbeat)
  then have "(bus_step (\<lambda>m. msg_kind m \<noteq> ''heartbeat''))\<^sup>*\<^sup>* (init_bus depth) b"
    using run by (rule rtranclp_mono [THEN predicate2D])
  then have inv: "kind_inv ''heartbeat'' b" "queue_wf (bus_queue b)" using bus_reachable_inv by blast+
  have sent: "fst (heartbeat_tick fnm rearm env ie now contents st b) = HbSent \<longleftrightarrow>
      in_flight ''heartbeat'' b = 0 \<and> \<not> queue_full (bus_queue b)" if "load_heartbeat ie contents = Inr (Some hb)" for hb
  proof -
    obtain m st' where m: "heartbeat_message fnm rearm env ie hb st = (m, st')" by (rule prod.exhaust)
    obtain sent b' where t: "try_send now m b = (sent, b')" by (rule prod.exhaust)
    have "msg_kind m = ''heartbeat''" using heartbeat_message_kind [of fnm rearm env ie hb st] m by simp
    then have "sent \<longleftrightarrow> in_flight ''heartbeat'' b = 0 \<and> \<not> queue_full (bus_queue b)"
      using try_send_iff [of m b now] inv t by simp
    then show ?thesis using that m t by (simp add: heartbeat_tick_def)
  qed
  have "fst (heartbeat_tick fnm rearm env ie now contents st b) \<noteq> HbSent" if "supervisor_load ie contents = None"
    using that by (auto simp: heartbeat_tick_def supervisor_load_def split: sum.splits)
  then have "fst (heartbeat_tick fnm rearm env ie now contents st b) = HbSent \<longleftrightarrow>
       supervisor_load ie contents \<noteq> None \<and> in_flight ''heartbeat'' b = 0 \<and> \<not> queue_full (bus_queue b)"
  proof (cases "supervisor_load ie contents")
    case (Some hb)
    then have "load_heartbeat ie contents = Inr (Some hb)" by (simp add: supervisor_load_def split: sum.splits)
    from sent [OF this] Some show ?thesis by simp
  qed simp
  moreover have "fst (heartbeat_run fnm rearm env ie now contents st b) = 202 \<longleftrightarrow>
       fst (heartbeat_tick fnm rearm env ie now contents st b) = HbSent"
    by (cases "fst (heartbeat_tick fnm rearm env ie now contents st b)") (auto simp: heartbeat_run_def split: prod.split)
  moreover have "in_flight ''heartbeat'' b \<le> 1" using inv(1) by (simp add: kind_inv_def)
  ultimately show ?thesis by blast
qed

definition demo_hb_env :: item_env where
  "demo_hb_env = \<lparr>ie_yaml = (\<lambda>_. None), ie_max_yaml = 100, ie_cron_valid = (\<lambda>_. True), ie_uuid5 = id, ie_agent_name = ''iris''\<rparr>"

theorem heartbeat_single_flight_witness:
  "in_flight ''heartbeat'' (init_bus 1) \<le> 1 \<and>
   fst (heartbeat_tick (\<lambda>_ _. False) 0 (\<lambda>_. None) demo_hb_env 5 (Some ''Say hi'') init_prompt_state (init_bus 1)) = HbSent"
proof -
  have run: "(bus_step (\<lambda>m. other_kind (msg_kind m)))\<^sup>*\<^sup>* (init_bus 1) (init_bus 1)" by simp
  have load: "supervisor_load demo_hb_env (Some ''Say hi'') \<noteq> None" by code_simp
  have free: "in_flight ''heartbeat'' (init_bus 1) = 0" "\<not> queue_full (bus_queue (init_bus 1))" by code_simp+
  show ?thesis
    using heartbeat_single_flight [OF run, of "\<lambda>_ _. False" 0 "\<lambda>_. None" demo_hb_env 5 "Some ''Say hi''" init_prompt_state] load free
    by simp
qed

text \<open>A loaded heartbeat has a schedule, and its token budget is positive when set.\<close>

lemma loaded_heartbeat:
  assumes "load_heartbeat ie contents = Inr (Some hb)"
  shows "(hb_schedule hb = DEFAULT_SCHEDULE \<or> ie_cron_valid ie (hb_schedule hb)) \<and> hb_content hb \<noteq> [] \<and>
    (case hb_max_tokens hb of None \<Rightarrow> True | Some n \<Rightarrow> n \<ge> 1)"
  using assms by (auto simp: load_heartbeat_def Let_def split: option.splits sum.splits prod.splits if_splits dest: max_tokens_positive)

text \<open>The event of a heartbeat that ended is accepted by the event stream.\<close>

lemma heartbeat_event_accepted:
  assumes "duration_ms \<ge> 0" "clock 0 \<noteq> []"
  shows "\<exists>env t. heartbeat_finished clock agent_name schedule duration_ms err s = (Published env, t) \<and> ev_type env = ''heartbeat.fired''"
proof -
  have "validate_heartbeat_fired (hb_fired_payload schedule duration_ms err) = VOk"
    using assms(1) by (cases err; cases "schedule = []")
      (simp_all add: validate_heartbeat_fired_def hb_fired_payload_def outcome_fields_def fired_checks)
  moreover have "dict_get VALIDATORS ''heartbeat.fired'' = Some validate_heartbeat_fired" by (simp add: VALIDATORS_def)
  ultimately show ?thesis unfolding heartbeat_finished_def using assms(2) publish_accepts_ex by blast
qed

end
