(* ===== verification/Backend_Config.thy ===== *)
theory Backend_Config
  imports Harness_Utils Event_Schema
begin

text \<open>
  Model of \<open>harness/backends/config.py\<close> and of the routing half of \<open>harness/executor.py\<close>: \<open>backend.yaml\<close> with its
  backends and routes, the checks of \<open>load_backends\<close>, the backend and the model a message goes to, and the table of recent
  sessions. Identifiers are whatever YAML yields, compared by value; equal numbers of different types (\<open>1\<close>,
  \<open>1.0\<close>, \<open>True\<close>), which Python identifies, are kept apart.
\<close>

section \<open>Backends\<close>

record backend_config =
  bc_id :: pyval
  bc_model :: "pyval option"
  bc_auth_env :: "pyval option"
  bc_url :: "pyval option"
  bc_extra :: "(pystr \<times> pyval) list"

datatype config_error =
    ConfigMissing
  | NotAMapping
  | NoAgents
  | EntryNotAMapping
  | MissingId
  | Unhashable
  | DuplicateIds
  | BadBackendId
  | NoBackendUrl
  | BadAuthEnv
  | UnknownAgent pystr

text \<open>\<open>d.get(k) or None\<close>\<close>

definition truthy_field :: "(pystr \<times> pyval) list \<Rightarrow> pystr \<Rightarrow> pyval option" where
  "truthy_field d k = (if truthy (dict_get d k) then dict_get d k else None)"

definition parse_backend_entry :: "pyval \<Rightarrow> config_error + backend_config" where
  "parse_backend_entry entry =
     (case entry of
        PDict d \<Rightarrow>
          (case truthy_field d ''id'' of
             None \<Rightarrow> Inl MissingId
           | Some i \<Rightarrow>
               Inr \<lparr>bc_id = i, bc_model = truthy_field d ''model'', bc_auth_env = truthy_field d ''auth-env'',
                    bc_url = truthy_field d ''url'',
                    bc_extra = filter (\<lambda>(k, v). k \<notin> set [''id'', ''model'', ''auth-env'', ''url'']) d\<rparr>)
      | _ \<Rightarrow> Inl EntryNotAMapping)"

fun parse_backend_entries :: "pyval list \<Rightarrow> config_error + backend_config list" where
  "parse_backend_entries [] = Inr []"
| "parse_backend_entries (e # es) =
     (case parse_backend_entry e of
        Inl err \<Rightarrow> Inl err
      | Inr c \<Rightarrow> (case parse_backend_entries es of Inl err \<Rightarrow> Inl err | Inr cs \<Rightarrow> Inr (c # cs)))"

definition load_backends_config :: "pyval \<Rightarrow> config_error + backend_config list" where
  "load_backends_config raw =
     (case raw of
        PDict top_level \<Rightarrow>
          (case dict_get top_level ''backend'' of
             Some (PDict b) \<Rightarrow>
               (case dict_get b ''agents'' of
                  None \<Rightarrow> Inl NotAMapping
                | Some (PList (e # es)) \<Rightarrow>
                    (case parse_backend_entries (e # es) of
                       Inl err \<Rightarrow> Inl err
                     | Inr configs \<Rightarrow>
                         if \<not> list_all (\<lambda>c. hashable (bc_id c)) configs then Inl Unhashable
                         else if \<not> distinct (map bc_id configs) then Inl DuplicateIds
                         else Inr configs)
                | Some _ \<Rightarrow> Inl NoAgents)
           | _ \<Rightarrow> Inl NotAMapping)
      | _ \<Rightarrow> Inl NotAMapping)"

section \<open>Routes\<close>

record routing_entry =
  re_agent :: pyval
  re_model :: "pyval option"

definition parse_routing_entry :: "pyval option \<Rightarrow> routing_entry option" where
  "parse_routing_entry value =
     (if \<not> truthy value then None
      else
        (case value of
           Some (PStr s) \<Rightarrow> Some \<lparr>re_agent = PStr s, re_model = None\<rparr>
         | Some (PDict d) \<Rightarrow>
             map_option (\<lambda>a. \<lparr>re_agent = a, re_model = truthy_field d ''model''\<rparr>) (truthy_field d ''agent'')
         | _ \<Rightarrow> None))"

record routing_config =
  rc_default :: "routing_entry option"
  rc_a2a :: "routing_entry option"
  rc_heartbeat :: "routing_entry option"
  rc_job :: "routing_entry option"
  rc_task :: "routing_entry option"
  rc_trigger :: "routing_entry option"
  rc_continuation :: "routing_entry option"

definition empty_routing :: routing_config where
  "empty_routing = \<lparr>rc_default = None, rc_a2a = None, rc_heartbeat = None, rc_job = None, rc_task = None, rc_trigger = None,
     rc_continuation = None\<rparr>"

definition load_routing_config :: "pyval \<Rightarrow> routing_config" where
  "load_routing_config raw =
     (case raw of
        PDict top_level \<Rightarrow>
          (case dict_get top_level ''backend'' of
             Some (PDict b) \<Rightarrow>
               (case dict_get b ''routing'' of
                  Some (PDict r) \<Rightarrow>
                    \<lparr>rc_default = parse_routing_entry (dict_get r ''default''), rc_a2a = parse_routing_entry (dict_get r ''a2a''),
                     rc_heartbeat = parse_routing_entry (dict_get r ''heartbeat''), rc_job = parse_routing_entry (dict_get r ''job''),
                     rc_task = parse_routing_entry (dict_get r ''task''), rc_trigger = parse_routing_entry (dict_get r ''trigger''),
                     rc_continuation = parse_routing_entry (dict_get r ''continuation'')\<rparr>
                | _ \<Rightarrow> empty_routing)
           | _ \<Rightarrow> empty_routing)
      | _ \<Rightarrow> empty_routing)"

definition routing_fields :: "routing_config \<Rightarrow> (pystr \<times> routing_entry option) list" where
  "routing_fields rc =
     [(''default'', rc_default rc), (''a2a'', rc_a2a rc), (''heartbeat'', rc_heartbeat rc), (''job'', rc_job rc), (''task'', rc_task rc),
      (''trigger'', rc_trigger rc), (''continuation'', rc_continuation rc)]"

text \<open>The first route that names no configured backend.\<close>

fun check_routes :: "pyval list \<Rightarrow> (pystr \<times> routing_entry option) list \<Rightarrow> config_error option" where
  "check_routes ids [] = None"
| "check_routes ids ((name, entry) # routes) =
     (case entry of
        None \<Rightarrow> check_routes ids routes
      | Some e \<Rightarrow>
          if \<not> hashable (re_agent e) then Some Unhashable
          else if re_agent e \<notin> set ids then Some (UnknownAgent name)
          else check_routes ids routes)"

text \<open>The checks of the constructor of a backend (\<open>harness/backends/a2a.py\<close>): an identifier that gives a variable name, an
  address from that variable or the configuration, and a string for the name of the token's variable.\<close>

definition backend_id_re :: "pystr \<Rightarrow> bool" where
  "backend_id_re s = (s \<noteq> [] \<and> slug_start (hd s) \<and> slug_start (last s) \<and> list_all slug_char s)"

definition url_variable :: "pystr \<Rightarrow> pystr" where
  "url_variable s =
     ''A2A_URL_'' @ map (\<lambda>c. if c = CHR ''-'' then CHR ''_'' else if 97 \<le> (of_char c :: nat) \<and> (of_char c :: nat) \<le> 122 then char_of (of_char c - 32 :: nat) else c) s"

definition build_backend :: "(pystr \<rightharpoonup> pystr) \<Rightarrow> backend_config \<Rightarrow> config_error + pyval" where
  "build_backend env c =
     (case bc_id c of
        PStr s \<Rightarrow>
          if \<not> backend_id_re s then Inl BadBackendId
          else
            (let var = env_get env (url_variable s)
             in case (if var \<noteq> [] then Some (PStr var) else bc_url c) of
                  None \<Rightarrow> Inl NoBackendUrl
                | Some url \<Rightarrow> (case bc_auth_env c of None \<Rightarrow> Inr url | Some (PStr _) \<Rightarrow> Inr url | Some _ \<Rightarrow> Inl BadAuthEnv))
      | _ \<Rightarrow> Inl BadBackendId)"

fun build_error :: "(pystr \<rightharpoonup> pystr) \<Rightarrow> backend_config list \<Rightarrow> config_error option" where
  "build_error env [] = None"
| "build_error env (c # cs) = (case build_backend env c of Inl err \<Rightarrow> Some err | Inr _ \<Rightarrow> build_error env cs)"

text \<open>Backends by identifier with the model of their configuration, the default, and the routes. The configuration is
  \<^const>\<open>None\<close> when the file does not exist.\<close>

record loaded =
  ld_backends :: "(pyval \<times> pyval option) list"
  ld_default :: "pyval option"
  ld_routing :: routing_config

definition load_backends :: "(pystr \<rightharpoonup> pystr) \<Rightarrow> pyval option \<Rightarrow> config_error + loaded" where
  "load_backends env file =
     (case file of
        None \<Rightarrow> Inl ConfigMissing
      | Some raw \<Rightarrow>
          (case load_backends_config raw of
             Inl err \<Rightarrow> Inl err
           | Inr configs \<Rightarrow>
               (case build_error env configs of
                  Some err \<Rightarrow> Inl err
                | None \<Rightarrow>
                    (let routing = load_routing_config raw
                     in case check_routes (map bc_id configs) (routing_fields routing) of
                          Some err \<Rightarrow> Inl err
                        | None \<Rightarrow>
                            Inr \<lparr>ld_backends = map (\<lambda>c. (bc_id c, bc_model c)) configs,
                                 ld_default = Some (case rc_default routing of Some e \<Rightarrow> re_agent e | None \<Rightarrow> bc_id (hd configs)),
                                 ld_routing = routing\<rparr>))))"

text \<open>What the executor starts with, and what a reload leaves; a failed reload keeps the previous configuration and
  is counted.\<close>

definition start_config :: "(pystr \<rightharpoonup> pystr) \<Rightarrow> pyval option \<Rightarrow> loaded" where
  "start_config env file =
     (case load_backends env file of
        Inr l \<Rightarrow> l | Inl _ \<Rightarrow> \<lparr>ld_backends = [], ld_default = None, ld_routing = empty_routing\<rparr>)"

definition reload_config :: "(pystr \<rightharpoonup> pystr) \<Rightarrow> pyval option \<Rightarrow> loaded \<times> nat \<Rightarrow> loaded \<times> nat" where
  "reload_config env file cur =
     (case load_backends env file of Inr l \<Rightarrow> (l, 0) | Inl _ \<Rightarrow> (fst cur, Suc (snd cur)))"

section \<open>Where a message goes\<close>

definition routing_entry_for_kind :: "routing_config \<Rightarrow> pystr \<Rightarrow> routing_entry option" where
  "routing_entry_for_kind rc kind =
     (if kind = ''a2a'' then rc_a2a rc
      else if kind = ''heartbeat'' then rc_heartbeat rc
      else if startswith kind ''job'' then rc_job rc
      else if startswith kind ''task'' then rc_task rc
      else if startswith kind ''trigger'' then rc_trigger rc
      else if startswith kind ''continuation'' then rc_continuation rc
      else None)"

definition or_val :: "pyval option \<Rightarrow> pyval option \<Rightarrow> pyval option" where
  "or_val a b = (if truthy a then a else b)"

text \<open>The model of a route counts when the route led to this backend; otherwise the backend is looked up.\<close>

definition route_model_applies :: "routing_entry option \<Rightarrow> pyval option \<Rightarrow> bool" where
  "route_model_applies entry backend_id =
     (case entry of Some e \<Rightarrow> truthy (re_model e) \<and> (re_agent e = PNone \<or> Some (re_agent e) = backend_id) | None \<Rightarrow> False)"

definition resolve_model ::
  "pyval option \<Rightarrow> routing_entry option \<Rightarrow> pyval option \<Rightarrow> (pyval \<times> pyval option) list \<Rightarrow> pyval option" where
  "resolve_model message_model entry backend_id backends =
     (if truthy message_model then message_model
      else if route_model_applies entry backend_id then Option.bind entry re_model
      else (case backend_id of None \<Rightarrow> None | Some b \<Rightarrow> (case dict_get backends b of Some (Some m) \<Rightarrow> Some m | _ \<Rightarrow> None)))"

text \<open>The backend of a bus message: its own choice, the route of its kind, the default.\<close>

definition routed_backend :: "loaded \<Rightarrow> pystr \<Rightarrow> pyval option \<Rightarrow> pyval option" where
  "routed_backend l kind chosen = or_val chosen (map_option re_agent (routing_entry_for_kind (ld_routing l) kind))"

definition resolved_backend :: "loaded \<Rightarrow> pystr \<Rightarrow> pyval option \<Rightarrow> pyval option" where
  "resolved_backend l kind chosen = or_val (routed_backend l kind chosen) (ld_default l)"

section \<open>Sessions\<close>

text \<open>The table of recent sessions with the time of their last use, least recent first. \<^const>\<open>None\<close> is the \<open>KeyError\<close>
  of \<open>popitem\<close> on an empty table, when no session at all is allowed.\<close>

definition track_session :: "int \<Rightarrow> int \<Rightarrow> pystr \<Rightarrow> (pystr \<times> int) list \<Rightarrow> (pystr \<times> int) list option" where
  "track_session max_sessions now sid sessions =
     (if dict_has sessions sid then Some (dict_set sid now (move_to_end sid sessions))
      else if int (length sessions) \<ge> max_sessions
      then (case sessions of [] \<Rightarrow> None | _ # rest \<Rightarrow> Some (dict_set sid now rest))
      else Some (dict_set sid now sessions))"

section \<open>A loaded configuration routes every message\<close>

definition routes_ok :: "loaded \<Rightarrow> bool" where
  "routes_ok l =
     (dict_wf (ld_backends l) \<and> (\<forall>b\<in>set (dict_keys (ld_backends l)). \<exists>s. b = PStr s \<and> backend_id_re s) \<and>
      (\<exists>d. ld_default l = Some d \<and> d \<in> set (dict_keys (ld_backends l)) \<and> truthy (Some d)) \<and>
      (\<forall>name e. (name, Some e) \<in> set (routing_fields (ld_routing l)) \<longrightarrow> re_agent e \<in> set (dict_keys (ld_backends l))))"

lemma check_routes_none: "check_routes ids routes = None \<Longrightarrow> (name, Some e) \<in> set routes \<Longrightarrow> re_agent e \<in> set ids"
  by (induction ids routes rule: check_routes.induct) (auto split: option.splits if_splits)

lemma truthy_field_truthy: "truthy_field d k = Some v \<Longrightarrow> truthy (Some v)"
  by (auto simp: truthy_field_def split: if_splits)

lemma entries_truthy: "parse_backend_entries es = Inr cs \<Longrightarrow> c \<in> set cs \<Longrightarrow> truthy (Some (bc_id c))"
proof (induction es arbitrary: cs)
  case (Cons e es)
  from Cons.prems(1) obtain c0 cs0 where c0: "parse_backend_entry e = Inr c0" "parse_backend_entries es = Inr cs0" "cs = c0 # cs0"
    by (auto split: sum.splits)
  have "truthy (Some (bc_id c0))" using c0(1) by (auto simp: parse_backend_entry_def dest: truthy_field_truthy split: pyval.splits option.splits)
  with Cons.IH [OF c0(2)] Cons.prems(2) c0(3) show ?case by auto
qed simp

lemma entries_length: "parse_backend_entries es = Inr cs \<Longrightarrow> length cs = length es"
  by (induction es arbitrary: cs) (auto split: sum.splits)

lemma load_backends_config_ok:
  assumes "load_backends_config raw = Inr cs"
  shows "cs \<noteq> []" "distinct (map bc_id cs)" "c \<in> set cs \<Longrightarrow> truthy (Some (bc_id c))" "c \<in> set cs \<Longrightarrow> hashable (bc_id c)"
proof -
  obtain e es where p: "parse_backend_entries (e # es) = Inr cs" "distinct (map bc_id cs)" "list_all (\<lambda>c. hashable (bc_id c)) cs"
    using assms by (auto simp: load_backends_config_def simp del: parse_backend_entries.simps
        split: pyval.splits option.splits list.splits sum.splits if_splits)
  show "cs \<noteq> []" using entries_length [OF p(1)] by auto
  show "distinct (map bc_id cs)" by (rule p(2))
  show "c \<in> set cs \<Longrightarrow> truthy (Some (bc_id c))" by (rule entries_truthy [OF p(1)])
  show "c \<in> set cs \<Longrightarrow> hashable (bc_id c)" using p(3) by (simp add: list_all_iff)
qed

lemma build_error_none: "build_error env cs = None \<Longrightarrow> c \<in> set cs \<Longrightarrow> \<exists>s. bc_id c = PStr s \<and> backend_id_re s"
proof (induction cs)
  case (Cons c' cs)
  have "\<exists>s. bc_id c' = PStr s \<and> backend_id_re s"
    using Cons.prems(1) by (cases "bc_id c'") (auto simp: build_backend_def split: if_splits)
  then show ?case using Cons by (auto split: sum.splits)
qed simp

lemma load_backends_ok:
  assumes "load_backends env file = Inr l"
  shows "routes_ok l"
proof -
  obtain raw cs where raw: "file = Some raw" and cs: "load_backends_config raw = Inr cs"
    and built: "build_error env cs = None" and chk: "check_routes (map bc_id cs) (routing_fields (load_routing_config raw)) = None"
    and l: "l = \<lparr>ld_backends = map (\<lambda>c. (bc_id c, bc_model c)) cs,
      ld_default = Some (case rc_default (load_routing_config raw) of Some e \<Rightarrow> re_agent e | None \<Rightarrow> bc_id (hd cs)),
      ld_routing = load_routing_config raw\<rparr>"
    using assms by (auto simp: load_backends_def Let_def split: option.splits sum.splits)
  note ok = load_backends_config_ok [OF cs]
  have keys: "dict_keys (ld_backends l) = map bc_id cs" by (simp add: l dict_keys_def comp_def)
  have routes: "re_agent e \<in> set (map bc_id cs)" if "(name, Some e) \<in> set (routing_fields (ld_routing l))" for name e
    using check_routes_none [OF chk] that by (simp add: l)
  have "hd cs \<in> set cs" using ok(1) by simp
  then have d: "(case rc_default (load_routing_config raw) of Some e \<Rightarrow> re_agent e | None \<Rightarrow> bc_id (hd cs)) \<in> set (map bc_id cs)"
    using routes [of "''default''"] by (auto simp: l routing_fields_def split: option.split)
  then have "truthy (Some (case rc_default (load_routing_config raw) of Some e \<Rightarrow> re_agent e | None \<Rightarrow> bc_id (hd cs)))"
    using ok(3) by auto
  moreover have "ld_default l = Some (case rc_default (load_routing_config raw) of Some e \<Rightarrow> re_agent e | None \<Rightarrow> bc_id (hd cs))"
    by (simp add: l)
  moreover have "dict_wf (ld_backends l)" unfolding dict_wf_def keys by (rule ok(2))
  moreover have "\<forall>b\<in>set (map bc_id cs). \<exists>s. b = PStr s \<and> backend_id_re s" using build_error_none [OF built] by auto
  ultimately show ?thesis unfolding routes_ok_def keys using d routes by blast
qed

lemma routes_field: "routing_entry_for_kind rc kind = Some e \<Longrightarrow> \<exists>name. (name, Some e) \<in> set (routing_fields rc)"
proof -
  assume e: "routing_entry_for_kind rc kind = Some e"
  have s: "snd ` set (routing_fields rc) = {rc_default rc, rc_a2a rc, rc_heartbeat rc, rc_job rc, rc_task rc, rc_trigger rc, rc_continuation rc}"
    by (simp add: routing_fields_def)
  have "Some e \<in> snd ` set (routing_fields rc)" unfolding s using e unfolding routing_entry_for_kind_def by (metis (no_types, lifting) insertCI option.distinct(1))
  then show ?thesis by force
qed

lemma resolved_configured:
  assumes "routes_ok l"
  shows "\<exists>b. resolved_backend l kind None = Some b \<and> b \<in> set (dict_keys (ld_backends l))"
proof (cases "routing_entry_for_kind (ld_routing l) kind")
  case None
  then show ?thesis using assms by (auto simp: resolved_backend_def routed_backend_def or_val_def truthy_def routes_ok_def)
next
  case (Some e)
  then have "re_agent e \<in> set (dict_keys (ld_backends l))" using routes_field assms unfolding routes_ok_def by blast
  then show ?thesis using Some assms by (auto simp: resolved_backend_def routed_backend_def or_val_def routes_ok_def truthy_def)
qed

text \<open>The configurations among some versions of the file that can be loaded, in their order.\<close>

definition valid_configs :: "(pystr \<rightharpoonup> pystr) \<Rightarrow> pyval option list \<Rightarrow> loaded list" where
  "valid_configs env files = concat (map (\<lambda>f. case load_backends env f of Inr l \<Rightarrow> [l] | Inl _ \<Rightarrow> []) files)"

lemma valid_configs_ok:
  assumes "l \<in> set (valid_configs env files)"
  shows "routes_ok l"
proof -
  obtain f where "load_backends env f = Inr l" using assms by (auto simp: valid_configs_def split: sum.splits)
  then show ?thesis by (rule load_backends_ok)
qed

lemma reloads_last_valid:
  "fold (reload_config env) files (start_config env first, 0) =
     (if valid_configs env (first # files) = [] then \<lparr>ld_backends = [], ld_default = None, ld_routing = empty_routing\<rparr>
      else last (valid_configs env (first # files)),
      length (takeWhile (\<lambda>f. valid_configs env [f] = []) (rev files)))"
proof (induction files rule: rev_induct)
  case Nil
  show ?case by (cases "load_backends env first") (simp_all add: start_config_def valid_configs_def)
next
  case (snoc f files)
  then show ?case by (cases "load_backends env f") (simp_all add: reload_config_def valid_configs_def)
qed

text \<open>C17: Whatever versions of \<open>backend.yaml\<close> the executor meets, valid or not, the configuration in force is that of the last
  valid one, the empty one as long as there was none, and the counter tells how many invalid ones were met since. In a
  valid one the backends have distinct identifiers, each a slug, and every kind of message without a backend of its
  own resolves to a configured one.\<close>

theorem reloads_keep_routing:
  assumes "fold (reload_config env) files (start_config env first, 0) = (l, failures)"
  shows "failures = length (takeWhile (\<lambda>f. valid_configs env [f] = []) (rev files)) \<and>
    (if valid_configs env (first # files) = [] then l = \<lparr>ld_backends = [], ld_default = None, ld_routing = empty_routing\<rparr>
     else l = last (valid_configs env (first # files)) \<and>
       dict_wf (ld_backends l) \<and> (\<forall>b\<in>set (dict_keys (ld_backends l)). \<exists>s. b = PStr s \<and> backend_id_re s) \<and>
       (\<exists>b. resolved_backend l kind None = Some b \<and> b \<in> set (dict_keys (ld_backends l))))"
proof (cases "valid_configs env (first # files) = []")
  case True
  then show ?thesis using assms reloads_last_valid [of env files first] by simp
next
  case False
  then have l: "l = last (valid_configs env (first # files))" "failures = length (takeWhile (\<lambda>f. valid_configs env [f] = []) (rev files))"
    using assms reloads_last_valid [of env files first] by simp_all
  then have "routes_ok l" using valid_configs_ok [of l env "first # files"] False by simp
  then show ?thesis using l False resolved_configured [of l kind] by (simp add: routes_ok_def)
qed

definition demo_backend_yaml :: "pystr \<Rightarrow> pyval option" where
  "demo_backend_yaml agent = Some (PDict [(''backend'', PDict
     [(''agents'', PList [PDict [(''id'', PStr ''claude''), (''model'', PStr ''m1''), (''url'', PStr ''http://c'')],
       PDict [(''id'', PStr ''echo''), (''url'', PStr ''http://e'')]]),
      (''routing'', PDict [(''job'', PStr agent)])])])"

theorem reloads_keep_routing_witness:
  "\<exists>l n. fold (reload_config Map.empty) [demo_backend_yaml ''echo'', demo_backend_yaml ''gone''] (start_config Map.empty None, 0) = (l, n) \<and> n = 1 \<and>
     load_backends Map.empty (demo_backend_yaml ''echo'') = Inr l \<and>
     (\<exists>b. resolved_backend l ''job:x'' None = Some b \<and> b \<in> set (dict_keys (ld_backends l)))"
proof -
  obtain l n where r: "fold (reload_config Map.empty) [demo_backend_yaml ''echo'', demo_backend_yaml ''gone''] (start_config Map.empty None, 0) = (l, n)"
    by (rule prod.exhaust)
  have "(case load_backends Map.empty (demo_backend_yaml ''echo'') of Inr _ \<Rightarrow> True | Inl _ \<Rightarrow> False)"
    "(case load_backends Map.empty (demo_backend_yaml ''gone'') of Inr _ \<Rightarrow> False | Inl _ \<Rightarrow> True)"
    "load_backends Map.empty None = Inl ConfigMissing" by code_simp+
  then obtain c e where v: "load_backends Map.empty (demo_backend_yaml ''echo'') = Inr c" "load_backends Map.empty (demo_backend_yaml ''gone'') = Inl e"
    "load_backends Map.empty None = Inl ConfigMissing" by (auto split: sum.splits)
  then show ?thesis using reloads_keep_routing [OF r, of "''job:x''"] r by (auto simp: valid_configs_def)
qed

section \<open>The table of sessions\<close>

lemma move_to_end_has: "dict_get d k = Some v \<Longrightarrow> dict_wf d \<Longrightarrow> dict_set k w (move_to_end k d) = dict_pop k d @ [(k, w)]"
proof -
  assume "dict_get d k = Some v" "dict_wf d"
  moreover have "dict_set k w (es @ [(k, v)]) = es @ [(k, w)]" if "k \<notin> fst ` set es" for es using that by (induction es) auto
  moreover have "k \<notin> fst ` set (dict_pop k d)" by (auto simp: dict_pop_def)
  ultimately show ?thesis by (simp add: move_to_end_def)
qed

text \<open>The table stays within its bound without duplicates, and the session just used is the last to be dropped.\<close>

lemma track_session_ok:
  assumes "dict_wf sessions" "int (length sessions) \<le> max_sessions" "max_sessions > 0"
  shows "\<exists>s'. track_session max_sessions now sid sessions = Some s' \<and> dict_wf s' \<and> int (length s') \<le> max_sessions \<and> last s' = (sid, now)"
proof (cases "dict_get sessions sid")
  case (Some v)
  have "length (dict_pop sid sessions) < length sessions" by (rule length_dict_pop_less [OF Some])
  moreover have "dict_wf (dict_pop sid sessions @ [(sid, now)])" using assms(1) by (auto simp: dict_wf_def dict_keys_def dict_pop_def distinct_map_filter)
  ultimately show ?thesis using Some assms move_to_end_has [OF Some assms(1), of now] by (simp add: track_session_def dict_has_def)
next
  case None
  have new: "\<not> dict_has sessions sid" "\<not> dict_has (tl sessions) sid"
    using None dict_get_tl [OF assms(1), of sid] by (cases "dict_get (tl sessions) sid"; auto simp: dict_has_def)+
  have wf: "dict_wf (dict_set sid now sessions)" "dict_wf (dict_set sid now (tl sessions))" using assms(1) dict_wf_tl by blast+
  show ?thesis using new wf assms dict_set_fresh [OF new(1), of now] dict_set_fresh [OF new(2), of now]
    by (cases sessions) (auto simp: track_session_def)
qed

end
