(* ===== verification/Consensus.thy ===== *)
theory Consensus
  imports Backend_Config
begin

text \<open>
  Model of \<open>_run_inner\<close> and \<open>run_consensus\<close> of \<open>harness/executor.py\<close>: a prompt sent to one backend, and the same prompt sent
  to several, whose answers are put to the vote or merged. The backends are an argument, a function from the call to its
  answer; the calls made are part of the result.
\<close>

section \<open>One prompt\<close>

record backend_call =
  bq_backend :: pyval
  bq_prompt :: pystr
  bq_session :: pystr
  bq_is_new :: bool
  bq_model :: "pyval option"
  bq_max_tokens :: "int option"

datatype run_error = NoBackendResolved | NoBackend pyval | RunTypeError | RunKeyError | QueryFailed pystr | AllBackendsFailed

type_synonym session_table = "(pystr \<times> int) list"

text \<open>What a run works with: the backends, the default, the bound of the session table, the clock and the answers.\<close>

record run_env =
  rn_backends :: "(pyval \<times> pyval option) list"
  rn_default :: "pyval option"
  rn_max_sessions :: int
  rn_now :: int
  rn_query :: "backend_call \<Rightarrow> pystr + pystr list"

text \<open>\<open>_run_inner\<close>: the answer, the session table and the calls made.\<close>

definition run_inner ::
  "run_env \<Rightarrow> session_table \<Rightarrow> pystr \<Rightarrow> pystr \<Rightarrow> pyval option \<Rightarrow> pyval option \<Rightarrow> int option
   \<Rightarrow> (run_error + pystr) \<times> session_table \<times> backend_call list" where
  "run_inner rn sessions prompt sid backend_id model max_tokens =
     (case or_val backend_id (rn_default rn) of
        None \<Rightarrow> (Inl NoBackendResolved, sessions, [])
      | Some b \<Rightarrow>
          if \<not> hashable b then (Inl RunTypeError, sessions, [])
          else
            (case dict_get (rn_backends rn) b of
               None \<Rightarrow> (Inl (NoBackend b), sessions, [])
             | Some _ \<Rightarrow>
                 (case track_session (rn_max_sessions rn) (rn_now rn) sid sessions of
                    None \<Rightarrow> (Inl RunKeyError, sessions, [])
                  | Some sessions' \<Rightarrow>
                      (let call = \<lparr>bq_backend = b, bq_prompt = prompt, bq_session = sid, bq_is_new = \<not> dict_has sessions sid,
                                   bq_model = model, bq_max_tokens = max_tokens\<rparr>
                       in (case rn_query rn call of
                             Inl e \<Rightarrow> Inl (QueryFailed e)
                           | Inr texts \<Rightarrow> Inr (join [CHR 0x0A, CHR 0x0A] texts), sessions', [call])))))"

section \<open>Consensus\<close>

definition BINARY_YES :: "pystr list" where
  "BINARY_YES = [''yes'', ''true'', ''agree'', ''correct'', ''approved'', ''confirmed'', ''positive'', ''1'']"

definition BINARY_NO :: "pystr list" where
  "BINARY_NO = [''no'', ''false'', ''disagree'', ''incorrect'', ''rejected'', ''denied'', ''negative'', ''0'']"

definition classify_binary :: "pystr \<Rightarrow> pystr option" where
  "classify_binary t =
     (let normalised = rstrip_by (\<lambda>c. c = CHR ''.'') (lower (strip t))
      in if str_in normalised BINARY_YES then Some ''yes'' else if str_in normalised BINARY_NO then Some ''no'' else None)"

text \<open>The pairs of backend and model the entries stand for, in order and without repetition; matching a backend that is
  not a string and putting a pair with an unhashable model into a set raise.\<close>

definition entry_pairs ::
  "(pystr \<Rightarrow> pystr \<Rightarrow> bool) \<Rightarrow> (pyval \<times> pyval option) list \<Rightarrow> consensus_entry \<Rightarrow> (pyval \<times> pyval option) list" where
  "entry_pairs fnm backends e =
     map (\<lambda>(b, m). (b, or_val (map_option PStr (ce_model e)) m)) (filter (\<lambda>(b, m). fnm (str_val b) (ce_backend e)) backends)"

definition add_new :: "'a \<Rightarrow> 'a list \<Rightarrow> 'a list" where
  "add_new x xs = (if x \<in> set xs then xs else xs @ [x])"

definition is_str_val :: "pyval \<Rightarrow> bool" where
  "is_str_val v = (case v of PStr _ \<Rightarrow> True | _ \<Rightarrow> False)"

definition consensus_pairs ::
  "(pystr \<Rightarrow> pystr \<Rightarrow> bool) \<Rightarrow> (pyval \<times> pyval option) list \<Rightarrow> consensus_entry list \<Rightarrow> (pyval \<times> pyval option) list option" where
  "consensus_pairs fnm backends entries =
     (let pairs = concat (map (entry_pairs fnm backends) entries)
      in if entries \<noteq> [] \<and> \<not> list_all (\<lambda>(b, m). is_str_val b) backends then None
         else if \<not> list_all (\<lambda>(b, m). case m of Some v \<Rightarrow> hashable v | None \<Rightarrow> True) pairs then None
         else Some (fold add_new pairs []))"

definition call_key :: "pyval \<times> pyval option \<Rightarrow> pystr" where
  "call_key p = (case p of (b, m) \<Rightarrow> (if truthy m then str_val b @ '':'' @ str_val (the m) else str_val b))"

text \<open>The legs start in order; each is caught on its own.\<close>

fun run_legs ::
  "run_env \<Rightarrow> pystr \<Rightarrow> pystr \<Rightarrow> int option \<Rightarrow> (pyval option \<times> pyval option) list \<Rightarrow> session_table
   \<Rightarrow> (run_error + pystr) list \<times> session_table \<times> backend_call list" where
  "run_legs rn prompt sid max_tokens [] sessions = ([], sessions, [])"
| "run_legs rn prompt sid max_tokens ((b, m) # legs) sessions =
     (case run_inner rn sessions prompt sid b m max_tokens of
        (res, s1, c1) \<Rightarrow>
          (case run_legs rn prompt sid max_tokens legs s1 of (rest, s2, c2) \<Rightarrow> (res # rest, s2, c1 @ c2)))"

text \<open>The answers by key of their call; a later one replaces an earlier one with the same key.\<close>

definition collect_responses :: "pystr list \<Rightarrow> (run_error + pystr) list \<Rightarrow> (pystr \<times> pystr) list" where
  "collect_responses keys outcomes =
     fold (\<lambda>(k, res) d. case res of Inl _ \<Rightarrow> d | Inr t \<Rightarrow> dict_set k t d) (zip keys outcomes) []"

fun str_less :: "pystr \<Rightarrow> pystr \<Rightarrow> bool" where
  "str_less _ [] = False"
| "str_less [] (_ # _) = True"
| "str_less (a # as) (b # bs) =
     ((of_char a :: nat) < of_char b \<or> (a = b \<and> str_less as bs))"

definition min_key :: "pystr \<Rightarrow> pystr list \<Rightarrow> pystr" where
  "min_key k ks = fold (\<lambda>x m. if str_less x m then x else m) ks k"

definition votes :: "pystr \<Rightarrow> (pystr \<times> pystr option) list \<Rightarrow> nat" where
  "votes v classes = length (filter (\<lambda>(k, c). c = Some v) classes)"

text \<open>The vote; in a tie the first call of the default backend decides when it answered, else the least key.\<close>

definition binary_winner :: "pystr option \<Rightarrow> (pystr \<times> pystr option) list \<Rightarrow> pystr" where
  "binary_winner default_key classes =
     (let yes = votes ''yes'' classes; no = votes ''no'' classes
      in if yes \<noteq> no then (if yes > no then ''yes'' else ''no'')
         else
           (let decider = (case default_key of
                             Some k \<Rightarrow> if dict_has classes k then k else min_key (fst (hd classes)) (map fst classes)
                           | None \<Rightarrow> min_key (fst (hd classes)) (map fst classes))
            in case dict_get classes decider of Some (Some w) \<Rightarrow> w | _ \<Rightarrow> []))"

definition response_parts :: "(pystr \<times> pystr) list \<Rightarrow> pystr" where
  "response_parts responses = join [CHR 0x0A, CHR 0x0A] (map (\<lambda>(k, t). ''['' @ k @ '']: '' @ t) responses)"

definition synthesis_prompt :: "pystr \<Rightarrow> pystr \<Rightarrow> pystr" where
  "synthesis_prompt prompt parts =
     ''The following responses were collected from multiple AI agents for the same prompt. '' @
     ''Synthesise them into a single coherent, balanced answer, preserving the most important '' @
     ''insights and noting any significant disagreements.'' @ [CHR 0x0A, CHR 0x0A] @
     ''Original prompt: '' @ prompt @ [CHR 0x0A, CHR 0x0A] @ ''Agent responses:'' @ [CHR 0x0A] @ parts"

text \<open>The call a resolved entry leads to; without a match the default is asked.\<close>

definition consensus_legs :: "run_env \<Rightarrow> (pyval \<times> pyval option) list \<Rightarrow> (pystr \<times> pyval option \<times> pyval option) list" where
  "consensus_legs rn pairs =
     (if pairs = []
      then [(case rn_default rn of Some d \<Rightarrow> str_val d | None \<Rightarrow> ''None'', rn_default rn, None)]
      else map (\<lambda>(b, m). (call_key (b, m), Some b, m)) pairs)"

definition run_consensus ::
  "run_env \<Rightarrow> (pystr \<Rightarrow> pystr \<Rightarrow> bool) \<Rightarrow> session_table \<Rightarrow> pystr \<Rightarrow> pystr \<Rightarrow> consensus_entry list \<Rightarrow> pyval option \<Rightarrow> pyval option
   \<Rightarrow> int option \<Rightarrow> (run_error + pystr) \<times> session_table \<times> backend_call list" where
  "run_consensus rn fnm sessions prompt sid entries synthesis_id synthesis_model max_tokens =
     (case consensus_pairs fnm (rn_backends rn) entries of
        None \<Rightarrow> (Inl RunTypeError, sessions, [])
      | Some pairs \<Rightarrow>
          (let legs = consensus_legs rn pairs
           in case run_legs rn prompt sid max_tokens (map snd legs) sessions of
                (outcomes, s1, calls) \<Rightarrow>
                  (let responses = collect_responses (map fst legs) outcomes;
                       classes = map (\<lambda>(k, t). (k, classify_binary t)) responses
                   in if responses = [] then (Inl AllBackendsFailed, s1, calls)
                      else if list_all (\<lambda>(k, c). c \<noteq> None) classes
                      then (Inr (binary_winner (map_option fst (find (\<lambda>(k, b, m). b = rn_default rn) legs)) classes), s1, calls)
                      else
                        (case run_inner rn s1 (synthesis_prompt prompt (response_parts responses)) sid
                                (or_val synthesis_id (rn_default rn)) synthesis_model max_tokens of
                           (Inl _, s2, c2) \<Rightarrow> (Inr (response_parts responses), s2, calls @ c2)
                         | (Inr t, s2, c2) \<Rightarrow> (Inr t, s2, calls @ c2)))))"

section \<open>Every vote counts\<close>

text \<open>Identifiers and models as configurations have them: non-empty strings, the identifiers without a colon.\<close>

definition plain_backends :: "(pyval \<times> pyval option) list \<Rightarrow> bool" where
  "plain_backends backends =
     list_all (\<lambda>(b, m). (case b of PStr s \<Rightarrow> s \<noteq> [] \<and> CHR '':'' \<notin> set s | _ \<Rightarrow> False) \<and>
       (case m of None \<Rightarrow> True | Some (PStr t) \<Rightarrow> t \<noteq> [] | _ \<Rightarrow> False)) backends"

definition string_models :: "(pyval \<times> pyval option) list \<Rightarrow> bool" where
  "string_models backends = list_all (\<lambda>(b, m). case m of None \<Rightarrow> True | Some (PStr t) \<Rightarrow> t \<noteq> [] | _ \<Rightarrow> False) backends"

text \<open>The identifiers of a configuration are always plain, since a backend is only built for a slug.\<close>

lemma routes_plain:
  assumes "routes_ok l" "string_models (ld_backends l)"
  shows "plain_backends (ld_backends l)"
proof -
  have "s \<noteq> [] \<and> CHR '':'' \<notin> set s" if "backend_id_re s" for s
    using that by (auto simp: backend_id_re_def slug_char_def slug_start_def list_all_iff)
  then have "case b of PStr s \<Rightarrow> s \<noteq> [] \<and> CHR '':'' \<notin> set s | _ \<Rightarrow> False" if "b \<in> set (dict_keys (ld_backends l))" for b
    using assms(1) that unfolding routes_ok_def by fastforce
  then show ?thesis using assms(2) by (fastforce simp: plain_backends_def string_models_def list_all_iff dict_keys_def)
qed

definition plain_pair :: "pyval \<times> pyval option \<Rightarrow> bool" where
  "plain_pair p = (\<exists>s m. p = (PStr s, m) \<and> s \<noteq> [] \<and> CHR '':'' \<notin> set s \<and> (m = None \<or> (\<exists>t. m = Some (PStr t) \<and> t \<noteq> [])))"

text \<open>The vote of a call, and of an outcome.\<close>

definition vote_of :: "run_env \<Rightarrow> backend_call \<Rightarrow> pystr option" where
  "vote_of rn c = (case rn_query rn c of Inl _ \<Rightarrow> None | Inr texts \<Rightarrow> classify_binary (join [CHR 0x0A, CHR 0x0A] texts))"

definition outcome_vote :: "run_error + pystr \<Rightarrow> pystr option" where
  "outcome_vote res = (case res of Inl _ \<Rightarrow> None | Inr t \<Rightarrow> classify_binary t)"

lemma run_inner_calls:
  assumes "run_inner rn s prompt sid b m mt = (res, s1, cs)"
  shows "(cs = [] \<and> (\<exists>e. res = Inl e)) \<or>
    (\<exists>c. cs = [c] \<and> Some (bq_backend c) = or_val b (rn_default rn) \<and> bq_model c = m \<and> bq_prompt c = prompt \<and> bq_session c = sid \<and> bq_max_tokens c = mt \<and>
       res = (case rn_query rn c of Inl e \<Rightarrow> Inl (QueryFailed e) | Inr ts \<Rightarrow> Inr (join [CHR 0x0A, CHR 0x0A] ts)))"
  using assms by (auto simp: run_inner_def Let_def split: option.splits if_splits)

lemma run_inner_vote:
  assumes "run_inner rn s prompt sid b m mt = (res, s1, cs)"
  shows "filter (\<lambda>v. v \<noteq> None) (map (vote_of rn) cs) = filter (\<lambda>v. v \<noteq> None) [outcome_vote res]"
  using run_inner_calls [OF assms]
proof
  assume "\<exists>c. cs = [c] \<and> Some (bq_backend c) = or_val b (rn_default rn) \<and> bq_model c = m \<and> bq_prompt c = prompt \<and> bq_session c = sid \<and> bq_max_tokens c = mt \<and>
    res = (case rn_query rn c of Inl e \<Rightarrow> Inl (QueryFailed e) | Inr ts \<Rightarrow> Inr (join [CHR 0x0A, CHR 0x0A] ts))"
  then obtain c where "cs = [c]" "res = (case rn_query rn c of Inl e \<Rightarrow> Inl (QueryFailed e) | Inr ts \<Rightarrow> Inr (join [CHR 0x0A, CHR 0x0A] ts))"
    by blast
  then show ?thesis by (cases "rn_query rn c") (simp_all add: vote_of_def outcome_vote_def)
qed (auto simp: outcome_vote_def)

lemma run_legs_votes:
  "run_legs rn prompt sid mt legs s = (outcomes, s1, calls) \<Longrightarrow>
     length outcomes = length legs \<and>
     filter (\<lambda>v. v \<noteq> None) (map (vote_of rn) calls) = filter (\<lambda>v. v \<noteq> None) (map outcome_vote outcomes)"
proof (induction legs arbitrary: s outcomes s1 calls)
  case (Cons leg legs)
  obtain b m where leg: "leg = (b, m)" by (cases leg)
  obtain res sa ca where i: "run_inner rn s prompt sid b m mt = (res, sa, ca)" by (rule prod_cases3)
  obtain rest sb cb where l: "run_legs rn prompt sid mt legs sa = (rest, sb, cb)" by (rule prod_cases3)
  have o: "outcomes = res # rest" "calls = ca @ cb" using Cons.prems leg i l by auto
  show ?case using Cons.IH [OF l] run_inner_vote [OF i] unfolding o by simp
qed simp

lemma run_legs_calls:
  "run_legs rn prompt sid mt (map (\<lambda>(b, m). (Some b, m)) pairs) s = (outcomes, s1, calls) \<Longrightarrow> list_all plain_pair pairs \<Longrightarrow> distinct pairs \<Longrightarrow>
     set (map (\<lambda>c. (bq_backend c, bq_model c)) calls) \<subseteq> set pairs \<and> distinct (map (\<lambda>c. (bq_backend c, bq_model c)) calls)"
proof (induction pairs arbitrary: s outcomes s1 calls)
  case (Cons pair pairs)
  obtain b m where pair: "pair = (b, m)" by (cases pair)
  obtain res sa ca where i: "run_inner rn s prompt sid (Some b) m mt = (res, sa, ca)" by (rule prod_cases3)
  obtain rest sb cb where l: "run_legs rn prompt sid mt (map (\<lambda>(b, m). (Some b, m)) pairs) sa = (rest, sb, cb)" by (rule prod_cases3)
  have o: "calls = ca @ cb" using Cons.prems(1) pair i l by auto
  have "or_val (Some b) (rn_default rn) = Some b" using Cons.prems(2) pair by (auto simp: plain_pair_def or_val_def truthy_def)
  then have "map (\<lambda>c. (bq_backend c, bq_model c)) ca = [] \<or> map (\<lambda>c. (bq_backend c, bq_model c)) ca = [pair]"
    using run_inner_calls [OF i] pair by auto
  then show ?case using Cons.IH [OF l] Cons.prems(2,3) unfolding o by auto
qed simp

lemma run_legs_prompt:
  "run_legs rn prompt sid mt legs s = (outcomes, s1, calls) \<Longrightarrow> c \<in> set calls \<Longrightarrow> bq_prompt c = prompt \<and> bq_session c = sid"
proof (induction legs arbitrary: s outcomes s1 calls)
  case (Cons leg legs)
  obtain b m where leg: "leg = (b, m)" by (cases leg)
  obtain res sa ca where i: "run_inner rn s prompt sid b m mt = (res, sa, ca)" by (rule prod_cases3)
  obtain rest sb cb where l: "run_legs rn prompt sid mt legs sa = (rest, sb, cb)" by (rule prod_cases3)
  show ?case using Cons.IH [OF l] Cons.prems run_inner_calls [OF i] leg i l by auto
qed simp

lemma collect_distinct:
  "distinct keys \<Longrightarrow> length outcomes = length keys \<Longrightarrow> set keys \<inter> fst ` set d = {} \<Longrightarrow>
   fold (\<lambda>(k, res) d. case res of Inl _ \<Rightarrow> d | Inr t \<Rightarrow> dict_set k t d) (zip keys outcomes) d =
     d @ List.map_filter (\<lambda>(k, res). case res of Inl _ \<Rightarrow> None | Inr t \<Rightarrow> Some (k, t)) (zip keys outcomes)"
proof (induction keys arbitrary: outcomes d)
  case (Cons k keys)
  then obtain res rest where o: "outcomes = res # rest" by (cases outcomes) auto
  show ?case
  proof (cases res)
    case (Inl e)
    then show ?thesis using Cons o by (simp add: map_filter_simps)
  next
    case (Inr t)
    have "dict_set k t d = d @ [(k, t)]" using Cons.prems(3) by (intro dict_set_fresh) (auto simp: dict_has_keys dict_keys_def)
    then show ?thesis using Cons.IH [of rest "d @ [(k, t)]"] Cons.prems o Inr by (auto simp: map_filter_simps)
  qed
qed (simp add: map_filter_simps)

lemma collect_votes:
  assumes "distinct keys" "length outcomes = length keys" "v \<noteq> None"
  shows "length (filter (\<lambda>(k, t). classify_binary t = v) (collect_responses keys outcomes)) = length (filter (\<lambda>r. outcome_vote r = v) outcomes)"
proof -
  have "length (filter (\<lambda>(k, t). classify_binary t = v) (List.map_filter (\<lambda>(k, res). case res of Inl _ \<Rightarrow> None | Inr t \<Rightarrow> Some (k, t)) (zip keys outcomes))) =
      length (filter (\<lambda>r. outcome_vote r = v) outcomes)"
    using assms(2)
  proof (induction keys outcomes rule: list_induct2')
    case (4 k ks r rs)
    then show ?case using assms(3) by (cases r) (auto simp: map_filter_simps outcome_vote_def)
  qed (simp_all add: map_filter_simps)
  then show ?thesis unfolding collect_responses_def using collect_distinct [OF assms(1,2), of "[]"] by simp
qed

text \<open>The key of a call tells the pair.\<close>

lemma plain_key_split:
  assumes "plain_pair p"
  shows "p = (PStr (takeWhile (\<lambda>c. c \<noteq> CHR '':'') (call_key p)),
    (case dropWhile (\<lambda>c. c \<noteq> CHR '':'') (call_key p) of [] \<Rightarrow> None | _ # t \<Rightarrow> Some (PStr t)))"
proof -
  obtain s m where p: "p = (PStr s, m)" "CHR '':'' \<notin> set s" "m = None \<or> (\<exists>t. m = Some (PStr t) \<and> t \<noteq> [])"
    using assms unfolding plain_pair_def by blast
  have tw: "takeWhile (\<lambda>c. c \<noteq> CHR '':'') s = s" "dropWhile (\<lambda>c. c \<noteq> CHR '':'') s = []"
    using p(2) by (auto simp: takeWhile_eq_all_conv)
  have "\<forall>x\<in>set s. x \<noteq> CHR '':''" using p(2) by blast
  then have ap: "takeWhile (\<lambda>c. c \<noteq> CHR '':'') (s @ '':'' @ t) = s" "dropWhile (\<lambda>c. c \<noteq> CHR '':'') (s @ '':'' @ t) = '':'' @ t" for t
    by (simp_all add: takeWhile_append2 dropWhile_append2)
  show ?thesis using p(3)
  proof
    assume "m = None"
    then have "call_key p = s" by (simp add: p(1) call_key_def truthy_def str_val_def)
    then show ?thesis using \<open>m = None\<close> by (simp add: p(1) tw)
  next
    assume "\<exists>t. m = Some (PStr t) \<and> t \<noteq> []"
    then obtain t where t: "m = Some (PStr t)" "t \<noteq> []" by blast
    then have "call_key p = s @ '':'' @ t" by (simp add: p(1) call_key_def truthy_def str_val_def)
    then show ?thesis using t ap [of t] by (simp add: p(1))
  qed
qed

lemma plain_keys_distinct:
  assumes "list_all plain_pair pairs" "distinct pairs"
  shows "distinct (map call_key pairs)"
proof -
  have "inj_on call_key (set pairs)" using assms(1) plain_key_split by (intro inj_onI) (metis (no_types, lifting) list_all_iff)
  then show ?thesis using assms(2) by (simp add: distinct_map)
qed

lemma fold_add_new: "distinct (fold add_new xs ys) = distinct ys \<and> set (fold add_new xs ys) = set xs \<union> set ys" if "distinct ys" for xs ys
  using that by (induction xs arbitrary: ys) (auto simp: add_new_def)

lemma consensus_pairs_plain:
  assumes "consensus_pairs fnm backends entries = Some pairs" "plain_backends backends"
  shows "distinct pairs" "list_all plain_pair pairs"
proof -
  have pairs: "pairs = fold add_new (concat (map (entry_pairs fnm backends) entries)) []"
    using assms(1) by (auto simp: consensus_pairs_def Let_def split: if_splits)
  show "distinct pairs" unfolding pairs using fold_add_new [of "[]" "concat (map (entry_pairs fnm backends) entries)"] by simp
  have "plain_pair p" if p: "p \<in> set (entry_pairs fnm backends e)" for p e
  proof -
    obtain b m where bm: "(b, m) \<in> set backends" "p = (b, or_val (map_option PStr (ce_model e)) m)"
      using p by (auto simp: entry_pairs_def)
    then have plain: "(case b of PStr s \<Rightarrow> s \<noteq> [] \<and> CHR '':'' \<notin> set s | _ \<Rightarrow> False)" "(case m of None \<Rightarrow> True | Some (PStr t) \<Rightarrow> t \<noteq> [] | _ \<Rightarrow> False)"
      using assms(2) unfolding plain_backends_def list_all_iff by auto
    from plain(1) obtain s where s: "b = PStr s" "s \<noteq> []" "CHR '':'' \<notin> set s" by (cases b) auto
    from plain(2) have m: "m = None \<or> (\<exists>t. m = Some (PStr t) \<and> t \<noteq> [])" by (cases m) (auto split: pyval.splits)
    have "or_val (map_option PStr (ce_model e)) m = m \<or> (\<exists>t. or_val (map_option PStr (ce_model e)) m = Some (PStr t) \<and> t \<noteq> [])"
      by (cases "ce_model e") (auto simp: or_val_def truthy_def)
    with m s show ?thesis unfolding bm(2) plain_pair_def by auto
  qed
  then show "list_all plain_pair pairs" using fold_add_new [of "[]" "concat (map (entry_pairs fnm backends) entries)"]
    by (auto simp: pairs list_all_iff)
qed

lemma min_key_in: "min_key k ks \<in> set (k # ks)"
proof -
  have "fold (\<lambda>x m. if str_less x m then x else m) ks k \<in> set (k # ks)" by (induction ks arbitrary: k) auto
  then show ?thesis by (simp add: min_key_def)
qed

lemma classify_cases: "classify_binary t = Some v \<Longrightarrow> v = ''yes'' \<or> v = ''no''"
  by (auto simp: classify_binary_def Let_def split: if_splits)

lemma binary_winner_majority:
  assumes "classes \<noteq> []" "\<And>k c. (k, c) \<in> set classes \<Longrightarrow> c = Some ''yes'' \<or> c = Some ''no''"
  shows "binary_winner dk classes \<in> {''yes'', ''no''}" "votes ''yes'' classes > votes ''no'' classes \<Longrightarrow> binary_winner dk classes = ''yes''"
    "votes ''no'' classes > votes ''yes'' classes \<Longrightarrow> binary_winner dk classes = ''no''"
proof -
  have m: "dict_has classes (min_key (fst (hd classes)) (map fst classes))"
    using min_key_in [of "fst (hd classes)" "map fst classes"] assms(1) by (cases classes) (auto simp: dict_has_keys dict_keys_def)
  have g: "\<exists>c. dict_get classes k = Some (Some c) \<and> c \<in> {''yes'', ''no''}" if "dict_has classes k" for k
  proof -
    obtain y where y: "dict_get classes k = Some y" using \<open>dict_has classes k\<close> by (auto simp: dict_has_def)
    from assms(2) [OF map_of_SomeD [OF y]] y show ?thesis by auto
  qed
  define d where "d = (case dk of Some k \<Rightarrow> if dict_has classes k then k else min_key (fst (hd classes)) (map fst classes)
    | None \<Rightarrow> min_key (fst (hd classes)) (map fst classes))"
  have d: "dict_has classes d" using m by (simp add: d_def split: option.split)
  have w: "binary_winner dk classes =
      (if votes ''yes'' classes \<noteq> votes ''no'' classes then if votes ''yes'' classes > votes ''no'' classes then ''yes'' else ''no''
       else case dict_get classes d of Some (Some w) \<Rightarrow> w | _ \<Rightarrow> [])"
    by (simp add: binary_winner_def Let_def d_def)
  show "binary_winner dk classes \<in> {''yes'', ''no''}" unfolding w using g [OF d] by auto
qed (auto simp: binary_winner_def Let_def)

lemma run_legs_answer:
  "run_legs rn prompt sid mt legs s = (outcomes, s1, calls) \<Longrightarrow> Inr t \<in> set outcomes \<Longrightarrow>
     \<exists>c ts. c \<in> set calls \<and> rn_query rn c = Inr ts \<and> t = join [CHR 0x0A, CHR 0x0A] ts"
proof (induction legs arbitrary: s outcomes s1 calls)
  case (Cons leg legs)
  obtain b m where leg: "leg = (b, m)" by (cases leg)
  obtain res sa ca where i: "run_inner rn s prompt sid b m mt = (res, sa, ca)" by (rule prod_cases3)
  obtain rest sb cb where l: "run_legs rn prompt sid mt legs sa = (rest, sb, cb)" by (rule prod_cases3)
  have eq: "outcomes = res # rest" "calls = ca @ cb" using Cons.prems(1) leg i l by auto
  show ?case
  proof (cases "Inr t \<in> set rest")
    case True
    then show ?thesis using Cons.IH [OF l] unfolding eq by auto
  next
    case False
    then have "res = Inr t" using Cons.prems(2) unfolding eq by auto
    then obtain c where "ca = [c]" "res = (case rn_query rn c of Inl e \<Rightarrow> Inl (QueryFailed e) | Inr ts \<Rightarrow> Inr (join [CHR 0x0A, CHR 0x0A] ts))"
      using run_inner_calls [OF i] by blast
    then show ?thesis using \<open>res = Inr t\<close> unfolding eq by (cases "rn_query rn c") auto
  qed
qed simp

lemma run_legs_one: "run_legs rn prompt sid mt [leg] s = (outcomes, s1, calls) \<Longrightarrow> length calls \<le> 1"
proof -
  assume run: "run_legs rn prompt sid mt [leg] s = (outcomes, s1, calls)"
  obtain b m where leg: "leg = (b, m)" by (cases leg)
  obtain res sa ca where i: "run_inner rn s prompt sid b m mt = (res, sa, ca)" by (rule prod_cases3)
  then have "calls = ca" using run leg by simp
  then show ?thesis using run_inner_calls [OF i] by auto
qed

lemma count_votes: "length (filter (\<lambda>c. f c = Some v) xs) = length (filter (\<lambda>x. x = Some v) (filter (\<lambda>x. x \<noteq> None) (map f xs)))"
  by (induction xs) auto

lemma legs_tally:
  assumes legs: "run_legs rn prompt sid mt legs sessions = (outcomes, s1, cs)" and keys: "distinct keys" "length keys = length legs"
    and binary: "\<And>c. c \<in> set cs \<Longrightarrow> (case rn_query rn c of Inl _ \<Rightarrow> True | Inr _ \<Rightarrow> vote_of rn c \<noteq> None)"
  defines "responses \<equiv> collect_responses keys outcomes"
  defines "classes \<equiv> map (\<lambda>(k, t). (k, classify_binary t)) responses"
  shows "(k, c) \<in> set classes \<Longrightarrow> c = Some ''yes'' \<or> c = Some ''no''"
    "votes v classes = length (filter (\<lambda>c. vote_of rn c = Some v) cs)"
proof -
  note lv = run_legs_votes [OF legs]
  have len: "length outcomes = length keys" using lv keys(2) by simp
  assume kc: "(k, c) \<in> set classes"
  obtain t where t: "(k, t) \<in> set responses" "c = classify_binary t" using kc by (auto simp: classes_def)
  have "responses = List.map_filter (\<lambda>(k, res). case res of Inl _ \<Rightarrow> None | Inr t \<Rightarrow> Some (k, t)) (zip keys outcomes)"
    unfolding responses_def collect_responses_def using collect_distinct [OF keys(1) len, of "[]"] by simp
  then obtain k' where "(k', Inr t) \<in> set (zip keys outcomes)" using t(1) by (auto simp: List.map_filter_def split: sum.splits)
  then have "Inr t \<in> set outcomes" by (auto dest: set_zip_rightD)
  then obtain cl ts where "cl \<in> set cs" "rn_query rn cl = Inr ts" "t = join [CHR 0x0A, CHR 0x0A] ts"
    using run_legs_answer [OF legs] by blast
  then have "classify_binary t \<noteq> None" using binary [of cl] by (auto simp: vote_of_def)
  then show "c = Some ''yes'' \<or> c = Some ''no''" using classify_cases [of t] t(2) by auto
next
  note lv = run_legs_votes [OF legs]
  have len: "length outcomes = length keys" using lv keys(2) by simp
  have "votes v classes = length (filter (\<lambda>(k, t). classify_binary t = Some v) responses)"
    by (simp add: votes_def classes_def filter_map comp_def split_def)
  also have "\<dots> = length (filter (\<lambda>r. outcome_vote r = Some v) outcomes)"
    unfolding responses_def by (rule collect_votes [OF keys(1) len]) simp
  also have "\<dots> = length (filter (\<lambda>c. vote_of rn c = Some v) cs)"
    unfolding count_votes [of outcome_vote] count_votes [of "vote_of rn"] using lv by simp
  finally show "votes v classes = length (filter (\<lambda>c. vote_of rn c = Some v) cs)" .
qed

lemma legs_distinct:
  assumes "run_legs rn prompt sid mt (map snd (consensus_legs rn pairs)) sessions = (outcomes, s1, cs)" "list_all plain_pair pairs" "distinct pairs"
  shows "distinct (map (\<lambda>c. (bq_backend c, bq_model c)) cs)" "distinct (map fst (consensus_legs rn pairs))"
proof -
  show "distinct (map (\<lambda>c. (bq_backend c, bq_model c)) cs)"
  proof (cases "pairs = []")
    case True
    then have "map snd (consensus_legs rn pairs) = [(rn_default rn, None)]" by (simp add: consensus_legs_def)
    from run_legs_one [OF assms(1) [unfolded this]] have "length cs \<le> 1" .
    then show ?thesis by (cases cs) auto
  next
    case False
    then have "map snd (consensus_legs rn pairs) = map (\<lambda>(b, m). (Some b, m)) pairs" by (simp add: consensus_legs_def case_prod_beta comp_def)
    then show ?thesis using run_legs_calls [OF _ assms(2,3)] assms(1) by auto
  qed
  show "distinct (map fst (consensus_legs rn pairs))"
    using plain_keys_distinct [OF assms(2,3)] by (simp add: consensus_legs_def case_prod_beta comp_def)
qed


text \<open>Three backends, two of which agree.\<close>

definition demo_three_yaml :: "pyval option" where
  "demo_three_yaml = Some (PDict [(''backend'', PDict [(''agents'', PList
     [PDict [(''id'', PStr ''a''), (''url'', PStr ''http://a'')], PDict [(''id'', PStr ''b''), (''url'', PStr ''http://b'')],
      PDict [(''id'', PStr ''c''), (''model'', PStr ''m''), (''url'', PStr ''http://c'')]]),
     (''routing'', PDict [(''default'', PStr ''b'')])])])"

definition demo_run_env :: run_env where
  "demo_run_env = \<lparr>rn_backends = ld_backends (start_config Map.empty demo_three_yaml),
     rn_default = ld_default (start_config Map.empty demo_three_yaml), rn_max_sessions = 2, rn_now = 7,
     rn_query = (\<lambda>c. if bq_backend c = PStr ''b'' then Inr [''No.''] else Inr ['' Yes ''])\<rparr>"

definition demo_entries :: "consensus_entry list" where
  "demo_entries = [\<lparr>ce_backend = ''*'', ce_model = None\<rparr>]"


end
