(* ===== verification/Executor.thy ===== *)
theory Executor
  imports Consensus Continuations Webhook_Runner "HOL-Library.Multiset"
begin

text \<open>
  Model of the class \<open>AgentExecutor\<close> of \<open>harness/executor.py\<close>: the pool of background tasks with its two caps, what a
  finished prompt sets off, the messages of the bus and the requests of the A2A protocol. Processing a message is one
  step; its completion waits in the pool until the task runs, or is handed over at once when the pool is full.
  The answers of the backends, the printed form of an exception, fresh identifiers, durations and the clock are arguments.
\<close>

section \<open>State\<close>

datatype bg_task = Completes completion | OtherTask

record executor =
  ex_config :: loaded
  ex_reload_failures :: nat
  ex_sessions :: session_table
  ex_background :: "(nat \<times> (pystr \<times> bg_task)) list"
  ex_next :: nat
  ex_cont :: runner
  ex_webhooks :: wh_runner

definition init_executor :: "(pystr \<rightharpoonup> pystr) \<Rightarrow> pyval option \<Rightarrow> executor" where
  "init_executor env file =
     \<lparr>ex_config = start_config env file, ex_reload_failures = 0, ex_sessions = [], ex_background = [], ex_next = 0,
      ex_cont = init_runner, ex_webhooks = init_wh_runner\<rparr>"

record ex_env =
  xe_bg_max :: int
  xe_critical_sources :: pystr
  xe_critical_max :: "int option"
  xe_max_sessions :: int
  xe_cont :: cont_config
  xe_webhooks :: webhook_config
  xe_fnmatch :: "pystr \<Rightarrow> pystr \<Rightarrow> bool"

definition backends_reload :: "(pystr \<rightharpoonup> pystr) \<Rightarrow> pyval option \<Rightarrow> executor \<Rightarrow> executor" where
  "backends_reload env file ex =
     (case reload_config env file (ex_config ex, ex_reload_failures ex) of
        (l, n) \<Rightarrow> ex\<lparr>ex_config := l, ex_reload_failures := n\<rparr>)"

section \<open>Background tasks\<close>

definition critical_sources :: "ex_env \<Rightarrow> pystr list" where
  "critical_sources xe = filter (\<lambda>s. s \<noteq> []) (map strip (split_char CHR '','' (xe_critical_sources xe)))"

definition effective_cap :: "ex_env \<Rightarrow> pystr \<Rightarrow> int" where
  "effective_cap xe source =
     (if source \<in> set (critical_sources xe)
      then (case xe_critical_max xe of Some n \<Rightarrow> n | None \<Rightarrow> xe_bg_max xe * 2)
      else xe_bg_max xe)"

text \<open>\<^const>\<open>None\<close> when the task is shed.\<close>

definition track_background :: "ex_env \<Rightarrow> pystr \<Rightarrow> bg_task \<Rightarrow> executor \<Rightarrow> nat option \<times> executor" where
  "track_background xe source task ex =
     (if int (length (ex_background ex)) \<ge> effective_cap xe source then (None, ex)
      else (Some (ex_next ex), ex\<lparr>ex_next := Suc (ex_next ex), ex_background := dict_set (ex_next ex) (source, task) (ex_background ex)\<rparr>))"

definition background_done :: "nat \<Rightarrow> executor \<Rightarrow> executor" where
  "background_done t ex = ex\<lparr>ex_background := dict_pop t (ex_background ex)\<rparr>"

section \<open>A finished prompt\<close>

definition upstream_of :: "completion \<Rightarrow> upstream" where
  "upstream_of c = \<lparr>up_kind = cp_kind c, up_session = cp_session_id c, up_success = cp_success c, up_response = cp_response c\<rparr>"

definition on_prompt_completed :: "ex_env \<Rightarrow> int \<Rightarrow> completion \<Rightarrow> executor \<Rightarrow> executor" where
  "on_prompt_completed xe now c ex =
     ex\<lparr>ex_cont := snd (notify (xe_cont xe) (xe_fnmatch xe) now (upstream_of c) (ex_cont ex)),
        ex_webhooks := fire (xe_webhooks xe) (xe_fnmatch xe) c (ex_webhooks ex)\<rparr>"

text \<open>The end of \<open>process_bus\<close> and of \<open>execute\<close>: a background task, or both runners at once when it is shed. The flag
  tells whether the completion was handed over.\<close>

definition complete_prompt :: "ex_env \<Rightarrow> int \<Rightarrow> completion \<Rightarrow> executor \<Rightarrow> bool \<times> executor" where
  "complete_prompt xe now c ex =
     (case track_background xe (cp_source c) (Completes c) ex of
        (Some _, ex') \<Rightarrow> (False, ex')
      | (None, ex') \<Rightarrow> (True, on_prompt_completed xe now c ex'))"

text \<open>The end of the fire of a trigger (\<open>harness/main.py\<close>) does not look at the answer of the pool.\<close>

definition trigger_completed :: "ex_env \<Rightarrow> completion \<Rightarrow> executor \<Rightarrow> nat option \<times> executor" where
  "trigger_completed xe c ex = track_background xe ''trigger'' (Completes c) ex"

section \<open>Messages of the bus\<close>

definition run_env_of :: "ex_env \<Rightarrow> int \<Rightarrow> (backend_call \<Rightarrow> pystr + pystr list) \<Rightarrow> executor \<Rightarrow> run_env" where
  "run_env_of xe now query ex =
     \<lparr>rn_backends = ld_backends (ex_config ex), rn_default = ld_default (ex_config ex), rn_max_sessions = xe_max_sessions xe,
      rn_now = now, rn_query = query\<rparr>"

definition completion_of ::
  "pystr \<Rightarrow> pystr \<Rightarrow> pystr \<Rightarrow> (run_error \<Rightarrow> pystr) \<Rightarrow> pystr \<Rightarrow> pyval option \<Rightarrow> pystr option \<Rightarrow> run_error + pystr \<Rightarrow> completion" where
  "completion_of source kind sid show_error duration model traceparent res =
     \<lparr>cp_source = source, cp_kind = kind, cp_session_id = sid,
      cp_success = (case res of Inr _ \<Rightarrow> True | Inl _ \<Rightarrow> False), cp_response = (case res of Inr t \<Rightarrow> t | Inl _ \<Rightarrow> []),
      cp_duration = duration, cp_error = (case res of Inr _ \<Rightarrow> None | Inl e \<Rightarrow> Some (show_error e)),
      cp_model = map_option str_val model, cp_child_traceparent = traceparent\<rparr>"

text \<open>The session and the model of a message, and its run.\<close>

definition bus_session :: "pystr \<Rightarrow> message \<Rightarrow> pystr" where
  "bus_session uuid m = (case or_none (msg_session_id m) of Some s \<Rightarrow> s | None \<Rightarrow> uuid)"

definition bus_model :: "loaded \<Rightarrow> message \<Rightarrow> pyval option" where
  "bus_model l m =
     resolve_model (map_option PStr (msg_model m)) (routing_entry_for_kind (ld_routing l) (msg_kind m))
       (resolved_backend l (msg_kind m) (map_option PStr (msg_backend_id m))) (ld_backends l)"

definition bus_run ::
  "ex_env \<Rightarrow> int \<Rightarrow> (backend_call \<Rightarrow> pystr + pystr list) \<Rightarrow> pystr \<Rightarrow> message \<Rightarrow> executor
   \<Rightarrow> (run_error + pystr) \<times> session_table \<times> backend_call list" where
  "bus_run xe now query uuid m ex =
     (let rn = run_env_of xe now query ex; l = ex_config ex; chosen = map_option PStr (msg_backend_id m)
      in if msg_consensus m \<noteq> []
         then run_consensus rn (xe_fnmatch xe) (ex_sessions ex) (msg_prompt m) (bus_session uuid m) (msg_consensus m)
                (resolved_backend l (msg_kind m) chosen) (bus_model l m) (msg_max_tokens m)
         else run_inner rn (ex_sessions ex) (msg_prompt m) (bus_session uuid m) (routed_backend l (msg_kind m) chosen)
                (bus_model l m) (msg_max_tokens m))"

text \<open>The outcome for the future of the message, the calls made, the completion and the flag of its hand-over.\<close>

definition process_bus ::
  "ex_env \<Rightarrow> int \<Rightarrow> (backend_call \<Rightarrow> pystr + pystr list) \<Rightarrow> pystr \<Rightarrow> (run_error \<Rightarrow> pystr) \<Rightarrow> pystr \<Rightarrow> pystr option \<Rightarrow> message \<Rightarrow> executor
   \<Rightarrow> (run_error + pystr) \<times> backend_call list \<times> completion \<times> bool \<times> executor" where
  "process_bus xe now query uuid show_error duration traceparent m ex =
     (case bus_run xe now query uuid m ex of
        (res, sessions, calls) \<Rightarrow>
          (let c = completion_of ''bus'' (msg_kind m) (bus_session uuid m) show_error duration (bus_model (ex_config ex) m) traceparent res
           in case complete_prompt xe now c (ex\<lparr>ex_sessions := sessions\<rparr>) of
                (handed, ex') \<Rightarrow> (res, calls, c, handed, ex')))"

section \<open>Requests of the A2A protocol\<close>

record a2a_request =
  ar_prompt :: pystr
  ar_context_id :: "pystr option"
  ar_metadata :: "(pystr \<times> pyval) list"
  ar_task_id :: "pystr option"
  ar_blocking :: bool

datatype a2a_event = Submitted | Working | Artifact pystr | Completed pystr | TaskFailed pystr | AgentMessage pystr

definition a2a_session_id :: "pystr \<Rightarrow> a2a_request \<Rightarrow> pystr" where
  "a2a_session_id uuid req =
     (let given = or_val (map_option PStr (ar_context_id req)) (truthy_field (ar_metadata req) ''session_id'');
          raw = filter (\<lambda>c. 32 \<le> (of_char c :: nat)) (take 256 (strip (case given of Some v \<Rightarrow> str_val v | None \<Rightarrow> [])))
      in if raw = [] then uuid else raw)"

definition prompt_oversize :: "int \<Rightarrow> pystr \<Rightarrow> bool" where
  "prompt_oversize cap prompt = (cap > 0 \<and> int (length (utf8_encode prompt)) > cap)"

text \<open>The token budget of a request; \<open>float_int\<close> is \<open>int()\<close> of a floating-point number. What is no number is ignored, but the
  \<open>OverflowError\<close> of an infinite one is not caught (\<^const>\<open>None\<close>).\<close>

definition json_int :: "(pystr \<Rightarrow> int_result) \<Rightarrow> pyval option \<Rightarrow> int option option" where
  "json_int float_int v =
     (case v of
        None \<Rightarrow> Some None
      | Some PNone \<Rightarrow> Some None
      | Some raw \<Rightarrow>
          (case py_int float_int raw of
             IntOk n \<Rightarrow> Some (Some n)
           | IntOverflow \<Rightarrow> None
           | _ \<Rightarrow> Some None))"

definition a2a_received :: "pyval option \<Rightarrow> payload" where
  "a2a_received model = (''concern'', PStr ''a2a'') # (case model of Some m \<Rightarrow> [(''model'', m)] | None \<Rightarrow> [])"

definition a2a_completed :: "completion \<Rightarrow> int \<Rightarrow> payload" where
  "a2a_completed c duration_ms =
     [(''concern'', PStr ''a2a''), (''outcome'', PStr (if cp_success c then ''success'' else ''error'')), (''duration_ms'', PInt duration_ms)] @
     (case or_none (cp_error c) of Some e \<Rightarrow> (if cp_success c then [] else [(''error'', PStr (take 512 e))]) | None \<Rightarrow> [])"

definition oversize_text :: "int \<Rightarrow> pystr \<Rightarrow> pystr" where
  "oversize_text cap prompt =
     ''Error: prompt '' @ str_of_int (int (length (utf8_encode prompt))) @ '' bytes exceeds A2A_MAX_PROMPT_BYTES='' @ str_of_int cap @ ''.''"

text \<open>What the caller sees of a run: a polled task goes through its states, a blocking call gets one message, or the
  exception (the flag); \<open>text_of\<close> is the text of an exception, without its class. The event queue takes what is put on it, except that the submission may fail (\<open>submit_ok\<close>).\<close>

definition a2a_events :: "bool \<Rightarrow> (run_error \<Rightarrow> pystr) \<Rightarrow> run_error + pystr \<Rightarrow> a2a_event list \<times> bool" where
  "a2a_events polled text_of res =
     (case res of
        Inr t \<Rightarrow>
          (if polled then [Submitted, Working] @ (if t = [] then [] else [Artifact t]) @ [Completed t] else [AgentMessage t], False)
      | Inl e \<Rightarrow> (if polled then [Submitted, Working, TaskFailed (''error: '' @ text_of e)] else [], True))"

text \<open>The model of a request, given or resolved; resolving looks the backend up unless the model of the route applies, which
  raises for an unhashable identifier (\<^const>\<open>None\<close>).\<close>

definition a2a_model :: "loaded \<Rightarrow> a2a_request \<Rightarrow> pyval option option" where
  "a2a_model l req =
     (let resolved = resolved_backend l ''a2a'' (truthy_field (ar_metadata req) ''backend_id'');
          entry = routing_entry_for_kind (ld_routing l) ''a2a''
      in case truthy_field (ar_metadata req) ''model'' of
           Some m \<Rightarrow> Some (Some m)
         | None \<Rightarrow>
             if \<not> route_model_applies entry resolved \<and> (case resolved of Some b \<Rightarrow> \<not> hashable b | None \<Rightarrow> False) then None
             else Some (resolve_model None entry resolved (ld_backends l)))"

definition a2a_run ::
  "ex_env \<Rightarrow> int \<Rightarrow> (backend_call \<Rightarrow> pystr + pystr list) \<Rightarrow> pystr \<Rightarrow> pyval option \<Rightarrow> int option \<Rightarrow> a2a_request \<Rightarrow> executor
   \<Rightarrow> (run_error + pystr) \<times> session_table \<times> backend_call list" where
  "a2a_run xe now query uuid model max_tokens req ex =
     run_inner (run_env_of xe now query ex) (ex_sessions ex) (ar_prompt req) (a2a_session_id uuid req)
       (routed_backend (ex_config ex) ''a2a'' (truthy_field (ar_metadata req) ''backend_id'')) model max_tokens"

definition execute ::
  "ex_env \<Rightarrow> int \<Rightarrow> int \<Rightarrow> (backend_call \<Rightarrow> pystr + pystr list) \<Rightarrow> pystr \<Rightarrow> (run_error \<Rightarrow> pystr) \<Rightarrow> (run_error \<Rightarrow> pystr)
   \<Rightarrow> (pystr \<Rightarrow> int_result) \<Rightarrow> int \<Rightarrow> pystr
   \<Rightarrow> pystr option \<Rightarrow> bool \<Rightarrow> (nat \<Rightarrow> pystr) \<Rightarrow> pystr \<Rightarrow> a2a_request \<Rightarrow> executor \<Rightarrow> event_stream
   \<Rightarrow> a2a_event list \<times> bool \<times> (completion \<times> bool) option \<times> executor \<times> event_stream" where
  "execute xe cap now query uuid show_error text_of float_int duration_ms duration traceparent submit_ok clock agent_name req ex es =
     (if prompt_oversize cap (ar_prompt req) then ([AgentMessage (oversize_text cap (ar_prompt req))], False, None, ex, es)
      else
        (case a2a_model (ex_config ex) req of
           None \<Rightarrow> ([], True, None, ex, es)
         | Some model \<Rightarrow>
           (case json_int float_int (dict_get (ar_metadata req) ''max_tokens'') of
              None \<Rightarrow> ([], True, None, ex, es)
            | Some max_tokens \<Rightarrow>
             (case a2a_run xe now query uuid model max_tokens req ex of
                (res, sessions, _) \<Rightarrow>
                  (let c = completion_of ''a2a'' ''a2a'' (a2a_session_id uuid req) show_error duration model traceparent res;
                       es1 = snd (publish clock ''a2a.request.received'' (a2a_received model) (Some agent_name) 1 es);
                       es2 = snd (publish clock ''a2a.request.completed'' (a2a_completed c duration_ms) (Some agent_name) 1 es1);
                       polled = (\<not> ar_blocking req \<and> or_none (ar_task_id req) \<noteq> None \<and> submit_ok)
                   in case complete_prompt xe now c (ex\<lparr>ex_sessions := sessions\<rparr>) of
                        (handed, ex1) \<Rightarrow>
                          (case a2a_events polled text_of res of
                             (evs, raised) \<Rightarrow> (evs, raised, Some (c, handed), ex1, es2)))))))"

section \<open>Runs\<close>

text \<open>\<open>done\<close> are the completions of all processed prompts, \<open>handed\<close> those handed to the runners, \<open>lost\<close> those whose task was
  cancelled (shutdown or time limit) before it ran and those of triggers the pool had no room for. Between the steps the two runners go on by themselves.\<close>

inductive exec_run :: "ex_env \<Rightarrow> executor \<Rightarrow> completion list \<Rightarrow> completion list \<Rightarrow> completion list \<Rightarrow> bool" for xe where
  xr_start: "exec_run xe (init_executor env file) [] [] []"
| xr_reload: "exec_run xe ex cs handed lost \<Longrightarrow> exec_run xe (backends_reload env file ex) cs handed lost"
| xr_runners: "exec_run xe ex cs handed lost \<Longrightarrow> exec_run xe (ex\<lparr>ex_cont := r, ex_webhooks := w\<rparr>) cs handed lost"
| xr_bus: "exec_run xe ex cs handed lost \<Longrightarrow>
    process_bus xe now query uuid show_error duration traceparent m ex = (res, calls, c, inline, ex') \<Longrightarrow>
    exec_run xe ex' (c # cs) (if inline then c # handed else handed) lost"
| xr_a2a: "exec_run xe ex cs handed lost \<Longrightarrow>
    execute xe cap now query uuid show_error text_of float_int duration_ms duration traceparent submit_ok clock agent_name req ex es =
      (evs, raised, Some (c, inline), ex', es') \<Longrightarrow>
    exec_run xe ex' (c # cs) (if inline then c # handed else handed) lost"
| xr_trigger: "exec_run xe ex cs handed lost \<Longrightarrow> trigger_completed xe c ex = (res, ex') \<Longrightarrow>
    exec_run xe ex' (c # cs) handed (if res = None then c # lost else lost)"
| xr_other: "exec_run xe ex cs handed lost \<Longrightarrow> exec_run xe (snd (track_background xe source OtherTask ex)) cs handed lost"
| xr_task: "exec_run xe ex cs handed lost \<Longrightarrow> dict_get (ex_background ex) t = Some (source, Completes c) \<Longrightarrow>
    exec_run xe (background_done t (on_prompt_completed xe now c ex)) cs (c # handed) lost"
| xr_cancelled: "exec_run xe ex cs handed lost \<Longrightarrow> dict_get (ex_background ex) t = Some (source, Completes c) \<Longrightarrow>
    exec_run xe (background_done t ex) cs handed (c # lost)"
| xr_other_ends: "exec_run xe ex cs handed lost \<Longrightarrow> dict_get (ex_background ex) t = Some (source, OtherTask) \<Longrightarrow>
    exec_run xe (background_done t ex) cs handed lost"

definition task_completion :: "nat \<times> (pystr \<times> bg_task) \<Rightarrow> completion option" where
  "task_completion e = (case e of (t, source, Completes c) \<Rightarrow> Some c | (t, source, OtherTask) \<Rightarrow> None)"

definition waiting :: "executor \<Rightarrow> completion list" where
  "waiting ex = List.map_filter task_completion (ex_background ex)"

definition pool_inv :: "ex_env \<Rightarrow> executor \<Rightarrow> bool" where
  "pool_inv xe ex =
     (dict_wf (ex_background ex) \<and> (\<forall>t\<in>set (dict_keys (ex_background ex)). t < ex_next ex) \<and>
      int (length (ex_background ex)) \<le> max 0 (max (xe_bg_max xe) (case xe_critical_max xe of Some n \<Rightarrow> n | None \<Rightarrow> xe_bg_max xe * 2)))"

lemma mset_dict_pop:
  assumes "dict_get d k = Some v" "dict_wf d"
  shows "mset d = add_mset (k, v) (mset (dict_pop k d))"
  using assms
proof (induction d)
  case (Cons e d)
  obtain k' v' where e: "e = (k', v')" by (cases e)
  have wf: "dict_wf d" using Cons.prems(2) by (simp add: dict_wf_def dict_keys_def)
  show ?case
  proof (cases "k' = k")
    case True
    then have "dict_pop k (e # d) = d" using Cons.prems(2) dict_pop_hd [of k v' d] by (simp add: e)
    with True Cons.prems(1) show ?thesis by (simp add: e)
  next
    case False
    then show ?thesis using Cons.IH Cons.prems(1) wf by (simp add: e dict_pop_def)
  qed
qed simp

lemma mset_map_filter: "mset (List.map_filter f xs) = image_mset (\<lambda>x. the (f x)) (filter_mset (\<lambda>x. f x \<noteq> None) (mset xs))"
  by (induction xs) (auto simp: map_filter_simps split: option.split)

text \<open>Adding and removing a task.\<close>

lemma track_pool:
  assumes "pool_inv xe ex" "track_background xe source task ex = (res, ex')"
  shows "pool_inv xe ex'"
    "mset (waiting ex') = mset (waiting ex) +
       (case res of None \<Rightarrow> {#} | Some _ \<Rightarrow> (case task of Completes c \<Rightarrow> {#c#} | OtherTask \<Rightarrow> {#}))"
    "res = None \<Longrightarrow> ex' = ex"
proof -
  have fresh: "\<not> dict_has (ex_background ex) (ex_next ex)" using assms(1) by (auto simp: pool_inv_def dict_has_keys)
  note set = dict_set_fresh [OF fresh, of "(source, task)"]
  have bound: "int (length (ex_background ex)) + 1 \<le> max (xe_bg_max xe) (case xe_critical_max xe of Some n \<Rightarrow> n | None \<Rightarrow> xe_bg_max xe * 2)"
    if "\<not> int (length (ex_background ex)) \<ge> effective_cap xe source" using that by (auto simp: effective_cap_def split: if_splits)
  show "pool_inv xe ex'"
  proof (cases res)
    case (Some t)
    then have r: "ex_background ex' = ex_background ex @ [(ex_next ex, source, task)]" "ex_next ex' = Suc (ex_next ex)"
        "\<not> int (length (ex_background ex)) \<ge> effective_cap xe source"
      using assms(2) set by (auto simp: track_background_def split: if_splits)
    have "dict_wf (ex_background ex')" using assms(1) dict_wf_set [of "ex_background ex" "ex_next ex" "(source, task)"] set r(1)
      by (simp add: pool_inv_def)
    then show ?thesis using assms(1) bound [OF r(3)] r(1,2) by (auto simp: pool_inv_def dict_keys_def less_Suc_eq)
  qed (use assms in \<open>auto simp: track_background_def split: if_splits\<close>)
  show "mset (waiting ex') = mset (waiting ex) +
       (case res of None \<Rightarrow> {#} | Some _ \<Rightarrow> (case task of Completes c \<Rightarrow> {#c#} | OtherTask \<Rightarrow> {#}))"
    using assms(2) set by (cases task) (auto simp: track_background_def waiting_def mset_map_filter task_completion_def split: if_splits)
  show "res = None \<Longrightarrow> ex' = ex" using assms(2) by (auto simp: track_background_def split: if_splits)
qed

lemma done_pool:
  assumes "pool_inv xe ex" "dict_get (ex_background ex) t = Some (source, task)"
  shows "pool_inv xe (background_done t ex)"
    "mset (waiting ex) = mset (waiting (background_done t ex)) + (case task of Completes c \<Rightarrow> {#c#} | OtherTask \<Rightarrow> {#})"
proof -
  have wf: "dict_wf (ex_background ex)" using assms(1) by (simp add: pool_inv_def)
  show "pool_inv xe (background_done t ex)"
    using assms(1) length_dict_pop [of t "ex_background ex"] by (auto simp: pool_inv_def background_done_def dict_wf_pop)
  show "mset (waiting ex) = mset (waiting (background_done t ex)) + (case task of Completes c \<Rightarrow> {#c#} | OtherTask \<Rightarrow> {#})"
    using mset_dict_pop [OF assms(2) wf] by (cases task) (auto simp: waiting_def mset_map_filter background_done_def task_completion_def)
qed

lemma waiting_cong: "ex_background ex' = ex_background ex \<Longrightarrow> waiting ex' = waiting ex"
  by (simp add: waiting_def)

lemma pool_inv_cong: "ex_background ex' = ex_background ex \<Longrightarrow> ex_next ex' = ex_next ex \<Longrightarrow> pool_inv xe ex' = pool_inv xe ex"
  by (simp add: pool_inv_def)

lemma completed_pool [simp]:
  "ex_background (on_prompt_completed xe now c ex) = ex_background ex" "ex_next (on_prompt_completed xe now c ex) = ex_next ex"
  by (simp_all add: on_prompt_completed_def)

lemma complete_prompt_pool:
  assumes inv: "pool_inv xe ex" and eq: "complete_prompt xe now c ex = (inline, ex')"
  shows "pool_inv xe ex'" "mset (waiting ex') = mset (waiting ex) + (if inline then {#} else {#c#})"
proof -
  obtain res ex1 where t: "track_background xe (cp_source c) (Completes c) ex = (res, ex1)" by (rule prod.exhaust)
  note p = track_pool [OF inv t]
  have e: "inline = (res = None)" "ex' = (if res = None then on_prompt_completed xe now c ex1 else ex1)"
    using eq t by (auto simp: complete_prompt_def split: option.splits)
  show "pool_inv xe ex'" using p(1) e(2) pool_inv_cong [of "on_prompt_completed xe now c ex1" ex1 xe] by simp
  show "mset (waiting ex') = mset (waiting ex) + (if inline then {#} else {#c#})"
    using p(2) e waiting_cong [of "on_prompt_completed xe now c ex1" ex1] by (cases res) auto
qed

lemma process_bus_pool:
  assumes "pool_inv xe ex" "process_bus xe now query uuid show_error duration traceparent m ex = (res, calls, c, inline, ex')"
  shows "pool_inv xe ex'" "mset (waiting ex') = mset (waiting ex) + (if inline then {#} else {#c#})"
proof -
  obtain sessions where cp: "complete_prompt xe now c (ex\<lparr>ex_sessions := sessions\<rparr>) = (inline, ex')"
    using assms(2) by (auto simp: process_bus_def Let_def split: prod.splits)
  have "pool_inv xe (ex\<lparr>ex_sessions := sessions\<rparr>)" using assms(1) by (simp add: pool_inv_def)
  from complete_prompt_pool [OF this cp] show "pool_inv xe ex'" "mset (waiting ex') = mset (waiting ex) + (if inline then {#} else {#c#})"
    by (simp_all add: waiting_def)
qed

section \<open>Sessions and configuration of a run\<close>

definition sessions_ok :: "int \<Rightarrow> session_table \<Rightarrow> bool" where
  "sessions_ok n s = (dict_wf s \<and> int (length s) \<le> n)"

lemma run_inner_sessions:
  assumes "run_inner rn s prompt sid b m mt = (res, s1, cs)" "sessions_ok (rn_max_sessions rn) s" "rn_max_sessions rn > 0"
  shows "sessions_ok (rn_max_sessions rn) s1"
  using assms track_session_ok [of s "rn_max_sessions rn" "rn_now rn" sid]
  by (auto simp: run_inner_def sessions_ok_def Let_def split: option.splits if_splits)

lemma run_legs_sessions:
  "run_legs rn prompt sid mt legs s = (outcomes, s1, cs) \<Longrightarrow> sessions_ok (rn_max_sessions rn) s \<Longrightarrow> rn_max_sessions rn > 0 \<Longrightarrow>
     sessions_ok (rn_max_sessions rn) s1"
proof (induction legs arbitrary: s outcomes s1 cs)
  case (Cons leg legs)
  obtain b m where leg: "leg = (b, m)" by (cases leg)
  obtain res sa ca where i: "run_inner rn s prompt sid b m mt = (res, sa, ca)" by (rule prod_cases3)
  obtain rest sb cb where l: "run_legs rn prompt sid mt legs sa = (rest, sb, cb)" by (rule prod_cases3)
  show ?case using Cons.IH [OF l run_inner_sessions [OF i Cons.prems(2,3)] Cons.prems(3)] Cons.prems(1) leg i l by simp
qed simp

lemma run_consensus_sessions:
  assumes run: "run_consensus rn fnm s prompt sid entries sy sm mt = (res, s1, cs)"
    and s: "sessions_ok (rn_max_sessions rn) s" "rn_max_sessions rn > 0"
  shows "sessions_ok (rn_max_sessions rn) s1"
proof (cases "consensus_pairs fnm (rn_backends rn) entries")
  case (Some pairs)
  obtain outcomes sa ca where l: "run_legs rn prompt sid mt (map snd (consensus_legs rn pairs)) s = (outcomes, sa, ca)" by (rule prod_cases3)
  obtain r2 sb cb where i: "run_inner rn sa (synthesis_prompt prompt (response_parts (collect_responses (map fst (consensus_legs rn pairs)) outcomes)))
      sid (or_val sy (rn_default rn)) sm mt = (r2, sb, cb)" by (rule prod_cases3)
  note a = run_legs_sessions [OF l s]
  have "s1 = sa \<or> s1 = sb" using run Some l i by (auto simp: run_consensus_def Let_def split: if_splits sum.splits)
  then show ?thesis using a run_inner_sessions [OF i a s(2)] by auto
qed (use run s in \<open>simp add: run_consensus_def\<close>)

text \<open>What becomes of a completion: both runners get it, or it waits and they do not.\<close>

lemma complete_prompt_hands:
  assumes inv: "pool_inv xe ex" and eq: "complete_prompt xe now c ex = (inline, ex')"
  shows "if inline
    then ex_cont ex' = snd (notify (xe_cont xe) (xe_fnmatch xe) now (upstream_of c) (ex_cont ex)) \<and>
         ex_webhooks ex' = fire (xe_webhooks xe) (xe_fnmatch xe) c (ex_webhooks ex)
    else c \<in> set (waiting ex') \<and> ex_cont ex' = ex_cont ex \<and> ex_webhooks ex' = ex_webhooks ex"
proof -
  have "\<not> inline \<Longrightarrow> c \<in># mset (waiting ex')" using complete_prompt_pool(2) [OF inv eq] by simp
  then show ?thesis
    using eq by (auto simp: complete_prompt_def track_background_def on_prompt_completed_def split: if_splits)
qed

lemma complete_prompt_frame:
  "complete_prompt xe now c ex = (inline, ex') \<Longrightarrow> ex_sessions ex' = ex_sessions ex \<and> ex_config ex' = ex_config ex"
  by (auto simp: complete_prompt_def track_background_def on_prompt_completed_def split: if_splits)

lemma process_bus_frame:
  assumes run: "process_bus xe now query uuid show_error duration traceparent m ex = (res, calls, c, inline, ex')"
  shows "ex_config ex' = ex_config ex" "sessions_ok (xe_max_sessions xe) (ex_sessions ex) \<Longrightarrow> xe_max_sessions xe > 0 \<Longrightarrow>
    sessions_ok (xe_max_sessions xe) (ex_sessions ex')"
proof -
  obtain sessions where br: "bus_run xe now query uuid m ex = (res, sessions, calls)"
    and cp: "complete_prompt xe now c (ex\<lparr>ex_sessions := sessions\<rparr>) = (inline, ex')"
    using run by (auto simp: process_bus_def Let_def split: prod.splits)
  note f = complete_prompt_frame [OF cp]
  show "ex_config ex' = ex_config ex" using f by simp
  assume ok: "sessions_ok (xe_max_sessions xe) (ex_sessions ex)" "xe_max_sessions xe > 0"
  have "rn_max_sessions (run_env_of xe now query ex) = xe_max_sessions xe" by (simp add: run_env_of_def)
  then have "sessions_ok (xe_max_sessions xe) sessions"
    using br ok run_consensus_sessions [where rn = "run_env_of xe now query ex"] run_inner_sessions [where rn = "run_env_of xe now query ex"]
    unfolding bus_run_def Let_def by (metis (full_types))
  then show "sessions_ok (xe_max_sessions xe) (ex_sessions ex')" using f by simp
qed

text \<open>A request of the A2A protocol, when it gets as far as a run.\<close>

lemma execute_run:
  assumes "execute xe cap now query uuid show_error text_of float_int duration_ms duration traceparent submit_ok clock agent_name req ex es =
      (evs, raised, Some (c, inline), ex', es')"
  obtains model max_tokens res sessions calls where "a2a_run xe now query uuid model max_tokens req ex = (res, sessions, calls)"
    "c = completion_of ''a2a'' ''a2a'' (a2a_session_id uuid req) show_error duration model traceparent res"
    "complete_prompt xe now c (ex\<lparr>ex_sessions := sessions\<rparr>) = (inline, ex')"
    "(evs, raised) = a2a_events (\<not> ar_blocking req \<and> or_none (ar_task_id req) \<noteq> None \<and> submit_ok) text_of res"
    "\<not> prompt_oversize cap (ar_prompt req)"
  using assms by (auto simp: execute_def Let_def split: if_splits prod.splits option.splits)

lemma execute_pool:
  assumes inv: "pool_inv xe ex" and run: "execute xe cap now query uuid show_error text_of float_int duration_ms duration traceparent submit_ok clock agent_name req ex es =
      (evs, raised, Some (c, inline), ex', es')"
  shows "pool_inv xe ex'" "mset (waiting ex') = mset (waiting ex) + (if inline then {#} else {#c#})" "ex_config ex' = ex_config ex"
    "sessions_ok (xe_max_sessions xe) (ex_sessions ex) \<Longrightarrow> xe_max_sessions xe > 0 \<Longrightarrow> sessions_ok (xe_max_sessions xe) (ex_sessions ex')"
proof -
  obtain model max_tokens res sessions calls where ri: "a2a_run xe now query uuid model max_tokens req ex = (res, sessions, calls)"
    and cp: "complete_prompt xe now c (ex\<lparr>ex_sessions := sessions\<rparr>) = (inline, ex')"
    using execute_run [OF run] by metis
  have "pool_inv xe (ex\<lparr>ex_sessions := sessions\<rparr>)" using inv by (simp add: pool_inv_def)
  from complete_prompt_pool [OF this cp] show "pool_inv xe ex'" "mset (waiting ex') = mset (waiting ex) + (if inline then {#} else {#c#})"
    by (simp_all add: waiting_def)
  show "ex_config ex' = ex_config ex" using complete_prompt_frame [OF cp] by simp
  show "sessions_ok (xe_max_sessions xe) (ex_sessions ex')" if "sessions_ok (xe_max_sessions xe) (ex_sessions ex)" "xe_max_sessions xe > 0"
    using run_inner_sessions [OF ri [unfolded a2a_run_def]] that complete_prompt_frame [OF cp] by (simp add: run_env_of_def)
qed

text \<open>What holds in every run besides the accounting.\<close>

definition config_ok :: "loaded \<Rightarrow> bool" where
  "config_ok l = (ld_backends l = [] \<or> routes_ok l)"

lemma config_ok_reload: "config_ok (ex_config ex) \<Longrightarrow> config_ok (ex_config (backends_reload env file ex))"
  by (auto simp: backends_reload_def reload_config_def config_ok_def dest: load_backends_ok split: sum.splits)

lemma exec_run_inv:
  "exec_run xe ex cs handed lost \<Longrightarrow> pool_inv xe ex \<and> mset cs = mset handed + mset (waiting ex) + mset lost \<and> config_ok (ex_config ex) \<and>
     (xe_max_sessions xe > 0 \<longrightarrow> sessions_ok (xe_max_sessions xe) (ex_sessions ex))"
proof (induction rule: exec_run.induct)
  case (xr_start env f)
  have "config_ok (start_config env f)" by (auto simp: start_config_def config_ok_def dest: load_backends_ok split: sum.splits)
  then show ?case by (simp add: init_executor_def pool_inv_def waiting_def sessions_ok_def dict_wf_def dict_keys_def map_filter_simps)
next
  case (xr_reload ex cs handed lost env f)
  have "ex_background (backends_reload env f ex) = ex_background ex" "ex_next (backends_reload env f ex) = ex_next ex"
    "ex_sessions (backends_reload env f ex) = ex_sessions ex" by (simp_all add: backends_reload_def split: prod.split)
  then show ?case using xr_reload config_ok_reload [of ex env f] by (simp add: waiting_def pool_inv_def)
next
  case (xr_runners ex cs handed lost r w)
  then show ?case by (simp add: waiting_def pool_inv_def)
next
  case (xr_bus ex cs handed lost now query uuid show_error duration traceparent m res calls c inline ex')
  then show ?case using process_bus_pool [OF _ xr_bus.hyps(2)] process_bus_frame [OF xr_bus.hyps(2)] by auto
next
  case (xr_a2a ex cs handed lost cap now query uuid show_error text_of float_int duration_ms duration traceparent submit_ok clock agent_name req es evs raised c inline ex' es')
  then show ?case using execute_pool [OF _ xr_a2a.hyps(2)] by auto
next
  case (xr_trigger ex cs handed lost c res ex')
  have "ex_sessions ex' = ex_sessions ex" "ex_config ex' = ex_config ex"
    using xr_trigger.hyps(2) by (auto simp: trigger_completed_def track_background_def split: if_splits)
  then show ?case using xr_trigger.IH track_pool(1,2) [OF _ xr_trigger.hyps(2) [unfolded trigger_completed_def]] by (cases res) auto
next
  case (xr_other ex cs handed lost source)
  obtain res ex' where t: "track_background xe source OtherTask ex = (res, ex')" by (rule prod.exhaust)
  have "ex_sessions ex' = ex_sessions ex" "ex_config ex' = ex_config ex" using t by (auto simp: track_background_def split: if_splits)
  then show ?case using xr_other.IH track_pool(1,2) [OF _ t] t by (auto split: option.splits)
next
  case (xr_task ex cs handed lost t source c now)
  have "ex_background (on_prompt_completed xe now c ex) = ex_background ex" by simp
  have "pool_inv xe (on_prompt_completed xe now c ex)" using xr_task.IH by (simp add: pool_inv_def)
  from done_pool [OF this, of t source "Completes c"] xr_task show ?case
    by (auto simp: background_done_def on_prompt_completed_def waiting_def)
next
  case (xr_cancelled ex cs handed lost t source c)
  then show ?case using done_pool [of xe ex t source "Completes c"] by (auto simp: background_done_def)
next
  case (xr_other_ends ex cs handed lost t source)
  then show ?case using done_pool [of xe ex t source OtherTask] by (auto simp: background_done_def)
qed

text \<open>C11: However messages, background tasks, reloads and the runners interleave, every finished prompt is accounted for:
  its completion has been handed to the continuations and the webhooks exactly once, or waits in the pool, or its task
  was cancelled; a full pool loses none of the bus and of the A2A protocol, only those of triggers. The pool never
  exceeds the larger of its caps, and the table of sessions never its bound, unless that is below one. Handing a completion over means that both runners get it; one that is not handed over
  at once waits in the pool and leaves the runners as they are.\<close>

theorem completions_accounted:
  assumes "exec_run xe ex cs handed lost"
  shows "mset cs = mset handed + mset (waiting ex) + mset lost \<and>
    int (length (ex_background ex)) \<le> max 0 (max (xe_bg_max xe) (case xe_critical_max xe of Some n \<Rightarrow> n | None \<Rightarrow> xe_bg_max xe * 2)) \<and>
    (xe_max_sessions xe > 0 \<longrightarrow> dict_wf (ex_sessions ex) \<and> int (length (ex_sessions ex)) \<le> xe_max_sessions xe) \<and>
    (case complete_prompt xe now c ex of
       (True, ex') \<Rightarrow>
         ex_cont ex' = snd (notify (xe_cont xe) (xe_fnmatch xe) now (upstream_of c) (ex_cont ex)) \<and>
         ex_webhooks ex' = fire (xe_webhooks xe) (xe_fnmatch xe) c (ex_webhooks ex)
     | (False, ex') \<Rightarrow> c \<in> set (waiting ex') \<and> ex_cont ex' = ex_cont ex \<and> ex_webhooks ex' = ex_webhooks ex)"
proof -
  obtain inline ex' where cp: "complete_prompt xe now c ex = (inline, ex')" by (rule prod.exhaust)
  have inv: "pool_inv xe ex" using exec_run_inv [OF assms] by simp
  show ?thesis
    using exec_run_inv [OF assms] complete_prompt_hands [OF inv cp] cp by (cases inline) (simp_all add: pool_inv_def sessions_ok_def)
qed

text \<open>The model of a message without a backend of its own: the first there is of its own, that of the route and that of the backend.\<close>

lemma bus_model_first:
  assumes ok: "routes_ok l" and m: "msg_backend_id m = None" and b: "resolved_backend l (msg_kind m) None = Some b"
  shows "bus_model l m = or_val (map_option PStr (msg_model m))
    (or_val (Option.bind (routing_entry_for_kind (ld_routing l) (msg_kind m)) re_model)
      (Option.bind (dict_get (ld_backends l) b) (\<lambda>configured. configured)))"
proof (cases "routing_entry_for_kind (ld_routing l) (msg_kind m)")
  case None
  then show ?thesis using b
    by (auto simp: bus_model_def resolve_model_def route_model_applies_def m or_val_def truthy_def split: option.splits)
next
  case (Some e)
  then have "re_agent e \<in> set (dict_keys (ld_backends l))" using routes_field ok unfolding routes_ok_def by blast
  then obtain s where "re_agent e = PStr s" "backend_id_re s" using ok unfolding routes_ok_def by blast
  then have "truthy (Some (re_agent e))" by (auto simp: truthy_def backend_id_re_def)
  then have "b = re_agent e" using b Some by (simp add: resolved_backend_def routed_backend_def or_val_def truthy_def)
  then show ?thesis using Some b
    by (auto simp: bus_model_def resolve_model_def route_model_applies_def m or_val_def truthy_def split: option.splits)
qed

text \<open>C12: In every run with a valid configuration, a message of the bus without a backend of its own leads to exactly one
  call, to the configured backend its kind is routed to, with the prompt, the session and the token budget of the message
  and the first model there is of that of the message, that of the route and that of the backend; its future gets the answer of
  that call or its failure, and the completion tells which.\<close>

theorem bus_message_routed:
  assumes run: "exec_run xe ex cs handed lost" and sess: "xe_max_sessions xe > 0" and conf: "ld_backends (ex_config ex) \<noteq> []"
    and m: "msg_backend_id m = None" "msg_consensus m = []"
    and proc: "process_bus xe now query uuid show_error duration traceparent m ex = (res, calls, c, inline, ex')"
  shows "\<exists>b call. resolved_backend (ex_config ex) (msg_kind m) None = Some b \<and> b \<in> set (dict_keys (ld_backends (ex_config ex))) \<and>
    calls = [call] \<and> bq_backend call = b \<and> bq_prompt call = msg_prompt m \<and>
    bq_session call = bus_session uuid m \<and> bq_max_tokens call = msg_max_tokens m \<and>
    bq_model call = or_val (map_option PStr (msg_model m))
      (or_val (Option.bind (routing_entry_for_kind (ld_routing (ex_config ex)) (msg_kind m)) re_model)
         (Option.bind (dict_get (ld_backends (ex_config ex)) b) (\<lambda>configured. configured))) \<and>
    res = (case query call of Inl e \<Rightarrow> Inl (QueryFailed e) | Inr texts \<Rightarrow> Inr (join [CHR 0x0A, CHR 0x0A] texts)) \<and>
    (cp_success c \<longleftrightarrow> (\<exists>texts. query call = Inr texts)) \<and> cp_kind c = msg_kind m"
proof -
  note inv = exec_run_inv [OF run]
  have routes: "routes_ok (ex_config ex)" using inv conf by (auto simp: config_ok_def)
  obtain b where b: "resolved_backend (ex_config ex) (msg_kind m) None = Some b" "b \<in> set (dict_keys (ld_backends (ex_config ex)))"
    using resolved_configured [OF routes] by blast
  then obtain v where v: "dict_get (ld_backends (ex_config ex)) b = Some v" by (auto simp: dict_has_keys [symmetric] dict_has_def)
  obtain s where "b = PStr s" using routes b(2) unfolding routes_ok_def by blast
  then have h: "hashable b" by (simp add: hashable_def)
  obtain sessions where ri: "run_inner (run_env_of xe now query ex) (ex_sessions ex) (msg_prompt m) (bus_session uuid m)
      (routed_backend (ex_config ex) (msg_kind m) None) (bus_model (ex_config ex) m) (msg_max_tokens m) = (res, sessions, calls)"
    and c: "c = completion_of ''bus'' (msg_kind m) (bus_session uuid m) show_error duration (bus_model (ex_config ex) m) traceparent res"
    using proc m by (auto simp: process_bus_def bus_run_def Let_def split: prod.splits)
  have q: "rn_query (run_env_of xe now query ex) = query" "rn_default (run_env_of xe now query ex) = ld_default (ex_config ex)"
    "rn_backends (run_env_of xe now query ex) = ld_backends (ex_config ex)" "rn_max_sessions (run_env_of xe now query ex) = xe_max_sessions xe"
    by (simp_all add: run_env_of_def)
  obtain s' where "track_session (xe_max_sessions xe) (rn_now (run_env_of xe now query ex)) (bus_session uuid m) (ex_sessions ex) = Some s'"
    using track_session_ok [of "ex_sessions ex" "xe_max_sessions xe"] inv sess by (auto simp: sessions_ok_def)
  then have "calls \<noteq> []" using ri b(1) v h unfolding resolved_backend_def by (auto simp: run_inner_def q Let_def)
  then obtain call where call: "calls = [call]" "bq_backend call = b" "bq_prompt call = msg_prompt m"
      "bq_session call = bus_session uuid m" "bq_max_tokens call = msg_max_tokens m" "bq_model call = bus_model (ex_config ex) m"
      "res = (case query call of Inl e \<Rightarrow> Inl (QueryFailed e) | Inr texts \<Rightarrow> Inr (join [CHR 0x0A, CHR 0x0A] texts))"
    using run_inner_calls [OF ri] b(1) unfolding resolved_backend_def q by auto
  moreover have "cp_success c \<longleftrightarrow> (\<exists>texts. query call = Inr texts)" "cp_kind c = msg_kind m"
    unfolding c completion_of_def call(7) by (cases "query call"; simp)+
  ultimately show ?thesis using b bus_model_first [OF routes m(1) b(1)] by metis
qed

definition terminal :: "a2a_event \<Rightarrow> bool" where
  "terminal e = (case e of Completed _ \<Rightarrow> True | TaskFailed _ \<Rightarrow> True | AgentMessage _ \<Rightarrow> True | _ \<Rightarrow> False)"

text \<open>C13: A request of the A2A protocol always comes to an end for its caller: it gets the exception, with nothing
  before it, or events of which exactly the last is terminal. A refused request changes nothing; any other is reported to
  the runners as a success exactly when the caller gets no exception.\<close>

theorem a2a_terminal:
  assumes run: "execute xe cap now query uuid show_error text_of float_int duration_ms duration traceparent submit_ok clock agent_name req ex es =
      (evs, raised, report, ex', es')"
  shows "((raised \<and> evs = []) \<or> (\<exists>before e. evs = before @ [e] \<and> terminal e \<and> \<not> list_ex terminal before)) \<and>
    (case report of None \<Rightarrow> ex' = ex \<and> es' = es | Some (c, inline) \<Rightarrow> cp_success c \<longleftrightarrow> \<not> raised)"
proof (cases report)
  case None
  then have "evs = [] \<and> raised \<or> evs = [AgentMessage (oversize_text cap (ar_prompt req))]" "ex' = ex" "es' = es"
    using run by (auto simp: execute_def Let_def split: if_splits prod.splits option.splits)
  then show ?thesis using None by (auto simp: terminal_def)
next
  case (Some ci)
  obtain c inline where ci: "ci = (c, inline)" by (cases ci)
  obtain model res where c: "c = completion_of ''a2a'' ''a2a'' (a2a_session_id uuid req) show_error duration model traceparent res"
    and e: "(evs, raised) = a2a_events (\<not> ar_blocking req \<and> or_none (ar_task_id req) \<noteq> None \<and> submit_ok) text_of res"
    using execute_run [OF run [unfolded Some ci]] by metis
  have "cp_success c \<longleftrightarrow> \<not> raised" using e by (cases res) (auto simp: c completion_of_def a2a_events_def)
  moreover have "(raised \<and> evs = []) \<or> (\<exists>before e. evs = before @ [e] \<and> terminal e \<and> \<not> list_ex terminal before)"
  proof (cases res)
    case (Inl err)
    have "[Submitted, Working, TaskFailed t] = [Submitted, Working] @ [TaskFailed t]" for t by simp
    then show ?thesis using e Inl by (force simp: a2a_events_def terminal_def split: if_splits)
  next
    case (Inr t)
    have "[Submitted, Working, Completed t] = [Submitted, Working] @ [Completed t]"
      "[Submitted, Working, Artifact t, Completed t] = [Submitted, Working, Artifact t] @ [Completed t]" by simp_all
    then show ?thesis using e Inr by (force simp: a2a_events_def terminal_def split: if_splits)
  qed
  ultimately show ?thesis by (simp add: Some ci)
qed

text \<open>The event that reports the end of a request is accepted by the event stream.\<close>

lemma a2a_completed_accepted:
  assumes "duration_ms \<ge> 0" "clock 0 \<noteq> []"
  shows "\<exists>env t. publish clock ''a2a.request.completed'' (a2a_completed c duration_ms) ag 1 es = (Published env, t)"
proof -
  have "validate_a2a_completed (a2a_completed c duration_ms) = VOk"
    using assms(1) by (cases "or_none (cp_error c)"; cases "cp_success c")
      (simp_all add: validate_a2a_completed_def a2a_completed_def validate_with_def dict_has_def is_str_def is_nonneg_int_def in_str_set_def
        hashable_def OUTCOMES_def A2A_CONCERNS_def)
  moreover have "dict_get VALIDATORS ''a2a.request.completed'' = Some validate_a2a_completed" by (simp add: VALIDATORS_def)
  ultimately show ?thesis using assms(2) publish_accepts_ex by blast
qed

section \<open>Examples\<close>

definition demo_xe :: ex_env where
  "demo_xe = \<lparr>xe_bg_max = 1, xe_critical_sources = ''webhook, continuation'', xe_critical_max = None, xe_max_sessions = 3,
     xe_cont = demo_cont_cfg, xe_webhooks = demo_wh_cfg, xe_fnmatch = (\<lambda>_ _. False)\<rparr>"

definition demo_job_message :: message where
  "demo_job_message = make_message ''do it'' (Some ''s1'') ''job:a'' None None [] None None"

definition demo_bus_step :: "executor \<Rightarrow> (run_error + pystr) \<times> backend_call list \<times> completion \<times> bool \<times> executor" where
  "demo_bus_step = process_bus demo_xe 9 (\<lambda>_. Inr [''done'']) ''u'' (\<lambda>_. ''err'') ''0.1'' None demo_job_message"

text \<open>Room for one task: the first completion waits, the second is handed over at once.\<close>

theorem completions_accounted_witness:
  "\<exists>ex cs handed. exec_run demo_xe ex cs handed [] \<and> mset cs = mset handed + mset (waiting ex) + mset [] \<and>
     length cs = 2 \<and> length handed = 1"
proof -
  let ?e0 = "init_executor Map.empty (demo_backend_yaml ''echo'')"
  obtain r1 k1 c1 i1 e1 where p1: "demo_bus_step ?e0 = (r1, k1, c1, i1, e1)" by (rule prod_cases5)
  obtain r2 k2 c2 i2 e2 where p2: "demo_bus_step e1 = (r2, k2, c2, i2, e2)" by (rule prod_cases5)
  have "fst (snd (snd (snd (demo_bus_step ?e0)))) = False"
    "fst (snd (snd (snd (demo_bus_step (snd (snd (snd (snd (demo_bus_step ?e0))))))))) = True" by code_simp+
  then have i: "\<not> i1" "i2" using p1 p2 by simp_all
  have "exec_run demo_xe e1 [c1] (if i1 then [c1] else []) []"
    using xr_bus [OF xr_start p1 [unfolded demo_bus_step_def]] by simp
  then have "exec_run demo_xe e1 [c1] [] []" using i(1) by simp
  from xr_bus [OF this p2 [unfolded demo_bus_step_def]] have run: "exec_run demo_xe e2 [c2, c1] [c2] []" using i(2) by simp
  from completions_accounted [OF this] have "mset [c2, c1] = mset [c2] + mset (waiting e2) + mset []" by blast
  with run show ?thesis by (intro exI [of _ e2] exI [of _ "[c2, c1]"] exI [of _ "[c2]"]) simp
qed

theorem bus_message_routed_witness:
  "\<exists>call. fst (snd (demo_bus_step (init_executor Map.empty (demo_backend_yaml ''claude'')))) = [call] \<and> bq_prompt call = ''do it'' \<and> bq_backend call = PStr ''claude'' \<and>
     bq_model call = Some (PStr ''m1'')"
proof -
  let ?e0 = "init_executor Map.empty (demo_backend_yaml ''claude'')"
  obtain r1 k1 c1 i1 e1 where p1: "demo_bus_step ?e0 = (r1, k1, c1, i1, e1)" by (rule prod_cases5)
  have e: "ld_backends (ex_config ?e0) \<noteq> []" "resolved_backend (ex_config ?e0) (msg_kind demo_job_message) None = Some (PStr ''claude'')" by code_simp+
  have model: "or_val (map_option PStr (msg_model demo_job_message))
      (or_val (Option.bind (routing_entry_for_kind (ld_routing (ex_config ?e0)) (msg_kind demo_job_message)) re_model)
         (Option.bind (dict_get (ld_backends (ex_config ?e0)) (PStr ''claude'')) (\<lambda>configured. configured))) = Some (PStr ''m1'')" by code_simp
  have m: "msg_backend_id demo_job_message = None" "msg_consensus demo_job_message = []" "xe_max_sessions demo_xe > 0"
    "msg_prompt demo_job_message = ''do it''" by code_simp+
  from bus_message_routed [OF xr_start m(3) e(1) m(1,2) p1 [unfolded demo_bus_step_def]] e(2) m(4) p1 model show ?thesis by auto
qed

definition demo_a2a :: a2a_request where
  "demo_a2a = \<lparr>ar_prompt = ''hello'', ar_context_id = None, ar_metadata = [(''session_id'', PStr ''s''), (''backend_id'', PList [PInt 1])],
     ar_task_id = Some ''t'', ar_blocking = False\<rparr>"

theorem a2a_terminal_witness:
  "case execute demo_xe 100 9 (\<lambda>_. Inr [''done'']) ''u'' (\<lambda>_. ''Err()'') (\<lambda>_. ''err'') (\<lambda>_. IntValueError) 5 ''0.1'' None True (\<lambda>_. ''now'') ''iris''
     (demo_a2a\<lparr>ar_metadata := []\<rparr>) (init_executor Map.empty (demo_backend_yaml ''echo'')) (init_event_stream 1 1) of
     (evs, raised, report, ex', es') \<Rightarrow> (raised \<and> evs = []) \<or> (\<exists>before e. evs = before @ [e] \<and> terminal e \<and> \<not> list_ex terminal before)"
proof -
  obtain evs raised report ex' es' where r: "execute demo_xe 100 9 (\<lambda>_. Inr [''done'']) ''u'' (\<lambda>_. ''Err()'') (\<lambda>_. ''err'') (\<lambda>_. IntValueError) 5 ''0.1'' None True (\<lambda>_. ''now'') ''iris''
     (demo_a2a\<lparr>ar_metadata := []\<rparr>) (init_executor Map.empty (demo_backend_yaml ''echo'')) (init_event_stream 1 1) = (evs, raised, report, ex', es')"
    by (rule prod_cases5)
  from a2a_terminal [OF this] show ?thesis unfolding r by simp
qed

text \<open>The completion of a trigger is lost when the pool is full.\<close>

lemma trigger_completion_shed:
  "int (length (ex_background ex)) \<ge> effective_cap xe ''trigger'' \<Longrightarrow> trigger_completed xe c ex = (None, ex)"
  by (simp add: trigger_completed_def track_background_def)

text \<open>A request that names its backend by a list raises before anything is reported, and so does one with an infinite token
  budget.\<close>

lemma unhashable_backend_unreported:
  "\<not> route_model_applies (routing_entry_for_kind (ld_routing (ex_config ex)) ''a2a'') (Some (PList [PInt 1])) \<Longrightarrow>
   execute demo_xe 100 9 query ''u'' show_error text_of float_int 5 ''0.1'' None True clock ''iris'' demo_a2a ex es = ([], True, None, ex, es)"
  by (simp add: execute_def prompt_oversize_def demo_a2a_def a2a_model_def truthy_field_def truthy_def resolved_backend_def
      routed_backend_def or_val_def hashable_def utf8_encode_def utf8_char_def Let_def)

lemma infinite_request_budget_unreported:
  "execute demo_xe 100 9 query ''u'' show_error text_of (\<lambda>_. IntOverflow) 5 ''0.1'' None True clock ''iris''
     (demo_a2a\<lparr>ar_metadata := [(''model'', PStr ''m''), (''max_tokens'', PFloat ''inf'')]\<rparr>) ex es = ([], True, None, ex, es)"
  by (simp add: execute_def prompt_oversize_def demo_a2a_def a2a_model_def truthy_field_def truthy_def json_int_def py_int_def
      utf8_encode_def utf8_char_def Let_def)

text \<open>Control characters above the space survive the cleaning of a session identifier.\<close>

lemma session_id_keeps_del: "a2a_session_id ''u'' (demo_a2a\<lparr>ar_context_id := Some (''a'' @ [CHR 0x7F])\<rparr>) = ''a'' @ [CHR 0x7F]"
  by code_simp

end
