(* ===== verification/Tracing.thy ===== *)
theory Tracing
  imports Harness_Utils
begin

text \<open>
  Model of \<open>harness/tracing.py\<close>: the W3C trace context, its header, and how an inbound request gets one. The bytes of
  \<open>os.urandom\<close> are an argument, indexed by the calls made so far; the loop that rejects all-zero bytes returns
  \<^const>\<open>None\<close> when it never ends. The binding of a trace id to log records is not modelled.
\<close>

section \<open>Contexts and headers\<close>

record trace_context =
  tc_trace_id :: pystr
  tc_parent_id :: pystr
  tc_flags :: pystr
  tc_version :: pystr

definition to_header :: "trace_context \<Rightarrow> pystr" where
  "to_header c = tc_version c @ ''-'' @ tc_trace_id c @ ''-'' @ tc_parent_id c @ ''-'' @ tc_flags c"

definition lower_hex :: "char \<Rightarrow> bool" where
  "lower_hex c = (let n = (of_char c :: nat) in 48 \<le> n \<and> n \<le> 57 \<or> 97 \<le> n \<and> n \<le> 102)"

definition hex_field :: "nat \<Rightarrow> pystr \<Rightarrow> bool" where
  "hex_field n s = (length s = n \<and> list_all lower_hex s)"

text \<open>The four groups of the pattern; the dollar also matches before a line break at the end.\<close>

definition traceparent_re :: "pystr \<Rightarrow> trace_context option" where
  "traceparent_re s =
     (let t = (if s \<noteq> [] \<and> last s = CHR 0x0A then butlast s else s);
          c = \<lparr>tc_trace_id = take 32 (drop 3 t), tc_parent_id = take 16 (drop 36 t), tc_flags = drop 53 t, tc_version = take 2 t\<rparr>
      in if t = to_header c \<and> hex_field 2 (tc_version c) \<and> hex_field 32 (tc_trace_id c) \<and> hex_field 16 (tc_parent_id c) \<and>
            hex_field 2 (tc_flags c)
         then Some c else None)"

definition parse_traceparent :: "pystr option \<Rightarrow> trace_context option" where
  "parse_traceparent header_value =
     (case or_none header_value of
        None \<Rightarrow> None
      | Some h \<Rightarrow>
          (case traceparent_re (strip (hd (split_char CHR '','' h))) of
             None \<Rightarrow> None
           | Some c \<Rightarrow>
               if tc_version c = ''ff'' then None
               else if tc_trace_id c = replicate 32 CHR ''0'' \<or> tc_parent_id c = replicate 16 CHR ''0'' then None
               else Some c))"

section \<open>Fresh identifiers\<close>

definition TRACE_ID_BYTES :: nat where "TRACE_ID_BYTES = 16"

definition SPAN_ID_BYTES :: nat where "SPAN_ID_BYTES = 8"

text \<open>\<open>urandom i n\<close> are the bytes of the call number \<open>i\<close>; with the result comes the number of the next call.\<close>

type_synonym byte_source = "nat \<Rightarrow> nat \<Rightarrow> nat list"

partial_function (option) random_hex :: "byte_source \<Rightarrow> nat \<Rightarrow> nat \<Rightarrow> (pystr \<times> nat) option" where
  "random_hex urandom num_bytes i =
     (if list_ex (\<lambda>b. b \<noteq> 0) (urandom i num_bytes) then Some (concat (map hex2 (urandom i num_bytes)), Suc i)
      else random_hex urandom num_bytes (Suc i))"

definition child :: "byte_source \<Rightarrow> nat \<Rightarrow> trace_context \<Rightarrow> (trace_context \<times> nat) option" where
  "child urandom i c = map_option (\<lambda>(h, j). (c\<lparr>tc_parent_id := h\<rparr>, j)) (random_hex urandom SPAN_ID_BYTES i)"

definition new_context :: "byte_source \<Rightarrow> nat \<Rightarrow> (trace_context \<times> nat) option" where
  "new_context urandom i =
     (case random_hex urandom TRACE_ID_BYTES i of
        None \<Rightarrow> None
      | Some (t, j) \<Rightarrow>
          (case random_hex urandom SPAN_ID_BYTES j of
             None \<Rightarrow> None
           | Some (p, k) \<Rightarrow> Some (\<lparr>tc_trace_id = t, tc_parent_id = p, tc_flags = ''01'', tc_version = ''00''\<rparr>, k)))"

definition context_from_inbound :: "byte_source \<Rightarrow> nat \<Rightarrow> pystr option \<Rightarrow> (trace_context \<times> bool \<times> nat) option" where
  "context_from_inbound urandom i header_value =
     (case parse_traceparent header_value of
        Some c \<Rightarrow> Some (c, True, i)
      | None \<Rightarrow> map_option (\<lambda>(c, j). (c, False, j)) (new_context urandom i))"

text \<open>A service that relays a request: the context of the inbound header, and the header of a child of it for the call
  it makes (\<open>execute\<close> in \<open>harness/executor.py\<close> with \<open>run_query\<close> in \<open>harness/backends/a2a.py\<close>).\<close>

definition relay :: "byte_source \<Rightarrow> nat \<Rightarrow> pystr option \<Rightarrow> (pystr \<times> nat) option" where
  "relay urandom i header_value =
     (case context_from_inbound urandom i header_value of
        None \<Rightarrow> None
      | Some (c, _, j) \<Rightarrow> map_option (\<lambda>(d, k). (to_header d, k)) (child urandom j c))"

fun relays :: "byte_source \<Rightarrow> nat \<Rightarrow> nat \<Rightarrow> pystr option \<Rightarrow> (pystr option \<times> nat) option" where
  "relays urandom 0 i h = Some (h, i)"
| "relays urandom (Suc n) i h =
     (case relay urandom i h of None \<Rightarrow> None | Some (h', j) \<Rightarrow> relays urandom n j (Some h'))"

section \<open>Round trip\<close>

definition context_ok :: "trace_context \<Rightarrow> bool" where
  "context_ok c =
     (hex_field 2 (tc_version c) \<and> tc_version c \<noteq> ''ff'' \<and>
      hex_field 32 (tc_trace_id c) \<and> tc_trace_id c \<noteq> replicate 32 CHR ''0'' \<and>
      hex_field 16 (tc_parent_id c) \<and> tc_parent_id c \<noteq> replicate 16 CHR ''0'' \<and> hex_field 2 (tc_flags c))"

text \<open>What a header consists of when its fields have their widths.\<close>

definition header_char :: "char \<Rightarrow> bool" where
  "header_char c = (lower_hex c \<or> c = CHR ''-'')"

lemma header_char_plain: "header_char c \<Longrightarrow> \<not> py_isspace c \<and> c \<noteq> CHR '','' \<and> c \<noteq> CHR 0x0A"
  by (auto simp: header_char_def lower_hex_def py_isspace_def Let_def)

lemma header_chars:
  assumes "hex_field 2 (tc_version c)" "hex_field 32 (tc_trace_id c)" "hex_field 16 (tc_parent_id c)" "hex_field 2 (tc_flags c)"
  shows "x \<in> set (to_header c) \<Longrightarrow> header_char x" "length (to_header c) = 55"
    "take 2 (to_header c) = tc_version c" "take 32 (drop 3 (to_header c)) = tc_trace_id c"
    "take 16 (drop 36 (to_header c)) = tc_parent_id c" "drop 53 (to_header c) = tc_flags c"
  using assms by (auto simp: to_header_def hex_field_def list_all_iff header_char_def)

lemma split_char_none: "c \<notin> set s \<Longrightarrow> split_char c s = [s]"
  by (induction s) auto

lemma strip_none: "\<forall>x\<in>set s. \<not> py_isspace x \<Longrightarrow> strip s = s"
proof -
  have drop: "dropWhile py_isspace u = u" if "\<forall>x\<in>set u. \<not> py_isspace x" for u using that by (cases u) auto
  assume "\<forall>x\<in>set s. \<not> py_isspace x"
  then show ?thesis using drop [of s] drop [of "rev s"] by (simp add: strip_def lstrip_by_def rstrip_by_def)
qed

lemma or_none_some: "s \<noteq> [] \<Longrightarrow> or_none (Some s) = Some s" "or_none h = Some s \<Longrightarrow> h = Some s"
  by (cases s; simp add: or_none_def) (auto simp: or_none_def split: option.splits list.splits)

lemma traceparent_re_header:
  assumes "hex_field 2 (tc_version c)" "hex_field 32 (tc_trace_id c)" "hex_field 16 (tc_parent_id c)" "hex_field 2 (tc_flags c)"
  shows "traceparent_re (to_header c) = Some c"
proof -
  have "to_header c \<noteq> []" using header_chars(2) [OF assms] by auto
  then have "last (to_header c) \<noteq> CHR 0x0A" using header_chars(1) [OF assms] header_char_plain last_in_set by blast
  moreover have "\<lparr>tc_trace_id = take 32 (drop 3 (to_header c)), tc_parent_id = take 16 (drop 36 (to_header c)),
      tc_flags = drop 53 (to_header c), tc_version = take 2 (to_header c)\<rparr> = c"
    unfolding header_chars(3-6) [OF assms] by simp
  ultimately show ?thesis unfolding traceparent_re_def Let_def using assms by (simp only: if_False if_True simp_thms)
qed

lemma parse_header:
  assumes "context_ok c"
  shows "parse_traceparent (Some (to_header c)) = Some c"
proof -
  have f: "hex_field 2 (tc_version c)" "hex_field 32 (tc_trace_id c)" "hex_field 16 (tc_parent_id c)" "hex_field 2 (tc_flags c)"
    using assms by (simp_all add: context_ok_def)
  have plain: "\<forall>x\<in>set (to_header c). \<not> py_isspace x" "CHR '','' \<notin> set (to_header c)"
    using header_chars(1) [OF f] header_char_plain by blast+
  have "to_header c \<noteq> []" using header_chars(2) [OF f] by auto
  then show ?thesis
    using assms traceparent_re_header [OF f] split_char_none [OF plain(2)] strip_none [OF plain(1)]
    by (simp add: parse_traceparent_def context_ok_def or_none_some(1))
qed

lemma traceparent_re_ok:
  "traceparent_re s = Some c \<Longrightarrow>
     hex_field 2 (tc_version c) \<and> hex_field 32 (tc_trace_id c) \<and> hex_field 16 (tc_parent_id c) \<and> hex_field 2 (tc_flags c) \<and>
     (s = to_header c \<or> s = to_header c @ [CHR 0x0A])"
proof -
  assume re: "traceparent_re s = Some c"
  define t where "t = (if s \<noteq> [] \<and> last s = CHR 0x0A then butlast s else s)"
  define c' where "c' = \<lparr>tc_trace_id = take 32 (drop 3 t), tc_parent_id = take 16 (drop 36 t), tc_flags = drop 53 t, tc_version = take 2 t\<rparr>"
  have c: "t = to_header c \<and> hex_field 2 (tc_version c) \<and> hex_field 32 (tc_trace_id c) \<and> hex_field 16 (tc_parent_id c) \<and> hex_field 2 (tc_flags c)"
    using re unfolding traceparent_re_def t_def [symmetric] Let_def c'_def [symmetric] by (auto split: if_splits)
  have "s = t \<or> s = t @ [CHR 0x0A]" unfolding t_def by (cases s rule: rev_cases) auto
  then show ?thesis using c by simp
qed

lemma strip_last: "strip s \<noteq> [] \<Longrightarrow> \<not> py_isspace (last (strip s))"
  unfolding strip_def rstrip_by_def by (metis hd_dropWhile last_rev rev.simps(1))

lemma parse_ok:
  assumes "parse_traceparent (Some h) = Some c"
  shows "context_ok c" "strip (hd (split_char CHR '','' h)) = to_header c"
proof -
  have re: "traceparent_re (strip (hd (split_char CHR '','' h))) = Some c" and ok: "tc_version c \<noteq> ''ff''"
    "tc_trace_id c \<noteq> replicate 32 CHR ''0''" "tc_parent_id c \<noteq> replicate 16 CHR ''0''"
    using assms by (auto simp: parse_traceparent_def dest!: or_none_some(2) split: option.splits if_splits)
  show "context_ok c" using traceparent_re_ok [OF re] ok by (simp add: context_ok_def)
  have "strip (hd (split_char CHR '','' h)) \<noteq> to_header c @ [CHR 0x0A]"
    using strip_last [of "hd (split_char CHR '','' h)"] by (auto simp: py_isspace_def)
  then show "strip (hd (split_char CHR '','' h)) = to_header c" using traceparent_re_ok [OF re] by blast
qed

text \<open>C35: Headers and contexts correspond: the header of a context is read back as that context exactly when the
  context is well formed (widths, lower-case hexadecimal digits, nothing all-zero, not the reserved version), and
  whatever is read from a header is well formed and prints as the first of its comma-separated values.\<close>

theorem traceparent_roundtrip:
  "(parse_traceparent (Some (to_header c)) = Some c \<longleftrightarrow> context_ok c) \<and>
   (case parse_traceparent (Some h) of
      None \<Rightarrow> True
    | Some d \<Rightarrow> context_ok d \<and> to_header d = strip (hd (split_char CHR '','' h)))"
  using parse_header [of c] parse_ok [of "to_header c" c] parse_ok [of h] by (auto split: option.split)

section \<open>Fresh contexts\<close>

text \<open>What the operating system promises: as many bytes as asked for, and never zeros for ever.\<close>

definition urandom_ok :: "byte_source \<Rightarrow> bool" where
  "urandom_ok urandom =
     ((\<forall>i n. length (urandom i n) = n \<and> list_all (\<lambda>b. b < 256) (urandom i n)) \<and>
      (\<forall>i n. n > 0 \<longrightarrow> (\<exists>j\<ge>i. list_ex (\<lambda>b. b \<noteq> 0) (urandom j n))))"

lemma hex_digit_lower: "d < 16 \<Longrightarrow> lower_hex (hex_digit d)"
  by (auto simp: lower_hex_def hex_digit_def Let_def)

lemma hex_digit_zero:
  assumes "d < 16"
  shows "hex_digit d = CHR ''0'' \<longleftrightarrow> d = 0"
proof -
  have zero: "hex_val CHR ''0'' = Some 0" "hex_digit 0 = CHR ''0''" by code_simp+
  then show ?thesis using hex_val_hex_digit [OF assms] by auto
qed

lemma hex_bytes:
  assumes "list_all (\<lambda>b. b < 256) bs"
  shows "hex_field (2 * length bs) (concat (map hex2 bs))"
    "list_ex (\<lambda>b. b \<noteq> 0) bs \<Longrightarrow> concat (map hex2 bs) \<noteq> replicate (2 * length bs) CHR ''0''"
proof -
  show "hex_field (2 * length bs) (concat (map hex2 bs))"
    using assms by (induction bs) (auto simp: hex_field_def hex2_def hex_digit_lower)
  show "list_ex (\<lambda>b. b \<noteq> 0) bs \<Longrightarrow> concat (map hex2 bs) \<noteq> replicate (2 * length bs) CHR ''0''"
    using assms
  proof (induction bs)
    case (Cons b bs)
    have b: "b < 256" "b div 16 < 16" "b mod 16 < 16" using Cons.prems(2) by auto
    have "b = 0" if "hex2 b = replicate 2 CHR ''0''"
      using that hex_digit_zero [OF b(2)] hex_digit_zero [OF b(3)] by (simp add: hex2_def numeral_2_eq_2) presburger
    moreover have "replicate (2 * length (b # bs)) CHR ''0'' = replicate 2 CHR ''0'' @ replicate (2 * length bs) CHR ''0''"
      by (simp add: replicate_add [symmetric])
    ultimately show ?case using Cons by (auto simp: hex2_def)
  qed simp
qed

lemma random_hex_returns:
  assumes "list_ex (\<lambda>b. b \<noteq> 0) (urandom j n)" "i \<le> j"
  shows "\<exists>k\<ge>i. random_hex urandom n i = Some (concat (map hex2 (urandom k n)), Suc k) \<and> list_ex (\<lambda>b. b \<noteq> 0) (urandom k n)"
  using assms(2)
proof (induction "j - i" arbitrary: i)
  case 0
  then show ?case using assms(1) by (intro exI [of _ i]) (simp add: random_hex.simps)
next
  case (Suc m)
  show ?case
  proof (cases "list_ex (\<lambda>b. b \<noteq> 0) (urandom i n)")
    case True
    then show ?thesis by (intro exI [of _ i]) (simp add: random_hex.simps)
  next
    case False
    have "\<exists>k\<ge>Suc i. random_hex urandom n (Suc i) = Some (concat (map hex2 (urandom k n)), Suc k) \<and> list_ex (\<lambda>b. b \<noteq> 0) (urandom k n)"
      using Suc by (intro Suc.hyps(1)) auto
    then show ?thesis using False by (subst random_hex.simps) (auto intro: Suc_leD)
  qed
qed

lemma random_hex_ok:
  assumes "urandom_ok urandom" "n > 0"
  shows "\<exists>h j. random_hex urandom n i = Some (h, j) \<and> hex_field (2 * n) h \<and> h \<noteq> replicate (2 * n) CHR ''0''"
proof -
  obtain j where j: "j \<ge> i" "list_ex (\<lambda>b. b \<noteq> 0) (urandom j n)" using assms unfolding urandom_ok_def by blast
  obtain k where k: "random_hex urandom n i = Some (concat (map hex2 (urandom k n)), Suc k)" "list_ex (\<lambda>b. b \<noteq> 0) (urandom k n)"
    using random_hex_returns [of urandom, OF j(2,1)] by blast
  have bytes: "length (urandom k n) = n" "list_all (\<lambda>b. b < 256) (urandom k n)" using assms(1) unfolding urandom_ok_def by blast+
  show ?thesis using k(1) hex_bytes [OF bytes(2)] k(2) bytes(1) by auto
qed

lemma child_ok:
  assumes "urandom_ok urandom" "context_ok c"
  shows "\<exists>d j. child urandom i c = Some (d, j) \<and> context_ok d \<and> tc_trace_id d = tc_trace_id c \<and> tc_flags d = tc_flags c"
  using random_hex_ok [OF assms(1), of SPAN_ID_BYTES i] assms(2)
  by (auto simp: child_def context_ok_def SPAN_ID_BYTES_def)

lemma inbound_ok:
  assumes "urandom_ok urandom"
  shows "\<exists>c had j. context_from_inbound urandom i h = Some (c, had, j) \<and> context_ok c \<and> (had \<longleftrightarrow> parse_traceparent h = Some c)"
proof (cases "parse_traceparent h")
  case (Some c)
  then obtain s where "h = Some s" by (cases h) (simp_all add: parse_traceparent_def or_none_def)
  then have "context_ok c" using parse_ok(1) Some by blast
  then show ?thesis using Some by (simp add: context_from_inbound_def)
next
  case None
  obtain t j where t: "random_hex urandom TRACE_ID_BYTES i = Some (t, j)" "hex_field 32 t" "t \<noteq> replicate 32 CHR ''0''"
    using random_hex_ok [OF assms, of TRACE_ID_BYTES i] by (auto simp: TRACE_ID_BYTES_def)
  obtain p k where p: "random_hex urandom SPAN_ID_BYTES j = Some (p, k)" "hex_field 16 p" "p \<noteq> replicate 16 CHR ''0''"
    using random_hex_ok [OF assms, of SPAN_ID_BYTES j] by (auto simp: SPAN_ID_BYTES_def)
  have "hex_field 2 ''00''" "hex_field 2 ''01''" by code_simp+
  then show ?thesis using None t p by (auto simp: context_from_inbound_def new_context_def context_ok_def)
qed

lemma relay_ok:
  assumes "urandom_ok urandom"
  shows "\<exists>d j. relay urandom i h = Some (to_header d, j) \<and> context_ok d \<and>
    (\<forall>a. parse_traceparent h = Some a \<longrightarrow> tc_trace_id d = tc_trace_id a \<and> tc_flags d = tc_flags a)"
proof -
  obtain c had j where c: "context_from_inbound urandom i h = Some (c, had, j)" "context_ok c" "had \<longleftrightarrow> parse_traceparent h = Some c"
    using inbound_ok [OF assms] by blast
  obtain d k where d: "child urandom j c = Some (d, k)" "context_ok d" "tc_trace_id d = tc_trace_id c" "tc_flags d = tc_flags c"
    using child_ok [OF assms c(2)] by blast
  have "a = c" if "parse_traceparent h = Some a" for a using c(1) that by (simp add: context_from_inbound_def)
  moreover have "relay urandom i h = Some (to_header d, k)" using c(1) d(1) by (simp add: relay_def)
  ultimately show ?thesis using d by blast
qed

text \<open>However many services relay a request, the call goes through (the search for a non-zero identifier ends at each
  of them), and when the request came with a valid context the header that arrives at the end carries the same trace
  id and flags.\<close>

theorem trace_survives_relays:
  assumes "urandom_ok urandom" "parse_traceparent h = Some a"
  shows "\<exists>h' j b. relays urandom n i h = Some (h', j) \<and> parse_traceparent h' = Some b \<and> tc_trace_id b = tc_trace_id a \<and>
    tc_flags b = tc_flags a"
  using assms(2)
proof (induction n arbitrary: i h a)
  case (Suc n)
  obtain d j where r: "relay urandom i h = Some (to_header d, j)" "context_ok d"
    and a: "\<forall>a. parse_traceparent h = Some a \<longrightarrow> tc_trace_id d = tc_trace_id a \<and> tc_flags d = tc_flags a"
    using relay_ok [OF assms(1), of i h] by (elim exE conjE)
  have d: "tc_trace_id d = tc_trace_id a" "tc_flags d = tc_flags a" using a Suc.prems by simp_all
  have "relays urandom (Suc n) i h = relays urandom n j (Some (to_header d))" using r(1) by simp
  then show ?case using Suc.IH [OF parse_header [OF r(2)], of j] d by (simp only:)
qed simp

definition demo_urandom :: byte_source where
  "demo_urandom i n = replicate n (if i = 0 then 0 else 171)"

lemma demo_urandom_ok: "urandom_ok demo_urandom"
  unfolding urandom_ok_def
proof (intro conjI allI impI)
  fix i n :: nat
  show "length (demo_urandom i n) = n" "list_all (\<lambda>b. b < 256) (demo_urandom i n)" by (auto simp: demo_urandom_def list_all_iff)
  assume "n > 0"
  then show "\<exists>j\<ge>i. list_ex (\<lambda>b. b \<noteq> 0) (demo_urandom j n)"
    by (intro exI [of _ "Suc i"]) (auto simp: demo_urandom_def list_ex_iff)
qed

definition demo_header :: pystr where
  "demo_header = ''00-4bf92f3577b34da6a3ce929d0e0e4736-00f067aa0ba902b7-01''"

theorem trace_survives_relays_witness:
  "\<exists>h' j b. relays demo_urandom 3 0 (Some (demo_header @ '', x'')) = Some (h', j) \<and> parse_traceparent h' = Some b \<and>
     tc_trace_id b = ''4bf92f3577b34da6a3ce929d0e0e4736''"
proof -
  have "map_option tc_trace_id (parse_traceparent (Some (demo_header @ '', x''))) = Some ''4bf92f3577b34da6a3ce929d0e0e4736''"
    by code_simp
  then obtain a where a: "parse_traceparent (Some (demo_header @ '', x'')) = Some a" "tc_trace_id a = ''4bf92f3577b34da6a3ce929d0e0e4736''"
    by auto
  show ?thesis using trace_survives_relays [OF demo_urandom_ok a(1), of 3 0] a(2) by auto
qed

text \<open>The pattern is described as the one of version 00; every version but the reserved one is taken, and a child
  keeps it.\<close>

lemma other_versions_taken:
  "map_option tc_version (parse_traceparent (Some (''cc'' @ drop 2 demo_header))) = Some ''cc''"
  by code_simp

end
