(* ===== verification/A2A_Backend.thy ===== *)
theory A2A_Backend
  imports Backend_Config Tracing
begin

text \<open>
  Model of \<open>harness/backends/a2a.py\<close>: the client of one remote agent. A query is cut in three: the breaker is asked
  (\<open>query_begin\<close>), the request is sent with its retries (\<open>post_with_retry\<close>), the outcome is recorded (\<open>query_end\<close>);
  other queries may run between these. The answer of each attempt with the time it took, the random part of a delay,
  the decoder of bytes, \<open>json.loads\<close> and which statuses \<open>httpx\<close> counts as success are arguments. Times are integers.
\<close>

section \<open>Configuration\<close>

datatype retry_policy = FastOnly | Always | Never

definition resolve_max_retries :: "pystr option \<Rightarrow> nat" where
  "resolve_max_retries raw =
     (case raw of
        None \<Rightarrow> 3
      | Some s \<Rightarrow> (case int_of_str s of None \<Rightarrow> 3 | Some v \<Rightarrow> if v < 1 then 3 else nat v))"

text \<open>\<^const>\<open>None\<close> is the \<open>ValueError\<close> that keeps the process from starting.\<close>

definition resolve_session_context_cache_max :: "pystr option \<Rightarrow> nat option" where
  "resolve_session_context_cache_max raw =
     (case int_of_str (case raw of Some s \<Rightarrow> s | None \<Rightarrow> ''10000'') of
        None \<Rightarrow> None
      | Some v \<Rightarrow> if v < 1 then None else Some (nat v))"

definition resolve_retry_policy :: "pystr option \<Rightarrow> retry_policy" where
  "resolve_retry_policy raw =
     (let p = lower (strip (case raw of Some s \<Rightarrow> s | None \<Rightarrow> ''fast-only''))
      in if p = ''always'' then Always else if p = ''never'' then Never else FastOnly)"

record a2a_config =
  ac_max_retries :: nat
  ac_backoff_base :: int
  ac_policy :: retry_policy
  ac_fast_ms :: int
  ac_max_response :: int
  ac_threshold :: nat
  ac_cooloff :: int
  ac_contexts_max :: nat

section \<open>The circuit breaker\<close>

datatype circuit = Closed | Open | HalfOpen

record a2a_backend =
  ab_id :: pystr
  ab_url :: pystr
  ab_auth_env :: "pystr option"
  ab_circuit :: circuit
  ab_failures :: nat
  ab_opened_at :: int
  ab_contexts :: "pystr list"

definition init_a2a_backend :: "pystr \<Rightarrow> pystr \<Rightarrow> pystr option \<Rightarrow> a2a_backend" where
  "init_a2a_backend i url auth_env =
     \<lparr>ab_id = i, ab_url = url, ab_auth_env = auth_env, ab_circuit = Closed, ab_failures = 0, ab_opened_at = 0, ab_contexts = []\<rparr>"

text \<open>The flag is False for the \<open>ConnectionError\<close> of an open breaker.\<close>

definition circuit_acquire :: "a2a_config \<Rightarrow> int \<Rightarrow> a2a_backend \<Rightarrow> bool \<times> a2a_backend" where
  "circuit_acquire cfg now b =
     (case ab_circuit b of
        Open \<Rightarrow> if now - ab_opened_at b < ac_cooloff cfg then (False, b) else (True, b\<lparr>ab_circuit := HalfOpen\<rparr>)
      | _ \<Rightarrow> (True, b))"

definition circuit_record :: "a2a_config \<Rightarrow> int \<Rightarrow> bool \<Rightarrow> a2a_backend \<Rightarrow> a2a_backend" where
  "circuit_record cfg now ok b =
     (if ok then b\<lparr>ab_failures := 0, ab_circuit := Closed\<rparr>
      else
        (let n = Suc (ab_failures b)
         in case ab_circuit b of
              HalfOpen \<Rightarrow> b\<lparr>ab_failures := n, ab_opened_at := now, ab_circuit := Open\<rparr>
            | Closed \<Rightarrow>
                if n \<ge> ac_threshold cfg then b\<lparr>ab_failures := n, ab_opened_at := now, ab_circuit := Open\<rparr>
                else b\<lparr>ab_failures := n\<rparr>
            | Open \<Rightarrow> b\<lparr>ab_failures := n\<rparr>))"

section \<open>One request with its retries\<close>

definition RETRYABLE_STATUS_CODES :: "int list" where
  "RETRYABLE_STATUS_CODES = [429, 502, 503, 504]"

text \<open>What an attempt meets: a response with its status and the pieces of its body, a failure to read it, to send the
  request, to connect, or another exception.\<close>

datatype answer = Response int "nat list list" | ReadFailed | SendFailed | ConnectFailed | OtherError pystr

datatype a2a_error =
    CircuitOpen
  | NoToken
  | SlowStatus int int
  | SlowRead int
  | HttpStatus int
  | TooLarge
  | Unexpected pystr
  | Unreachable
  | NonJson pystr
  | BackendError pyval
  | NotAnObject

datatype attempt_end = Answer pystr | Fails a2a_error | Again

text \<open>Reading the body up to the cap; a cap of zero or less is none.\<close>

fun read_response :: "int \<Rightarrow> int \<Rightarrow> nat list \<Rightarrow> nat list list \<Rightarrow> nat list option" where
  "read_response cap got acc [] = Some acc"
| "read_response cap got acc (chunk # chunks) =
     (if cap > 0 \<and> got + int (length chunk) > cap then None
      else read_response cap (got + int (length chunk)) (acc @ chunk) chunks)"

definition attempt_ends :: "a2a_config \<Rightarrow> (int \<Rightarrow> bool) \<Rightarrow> (nat list \<Rightarrow> pystr) \<Rightarrow> int \<times> answer \<Rightarrow> attempt_end" where
  "attempt_ends cfg success decode a =
     (case a of
        (ms, Response code chunks) \<Rightarrow>
          if code \<in> set RETRYABLE_STATUS_CODES
          then (if ac_policy cfg = Never \<or> (ac_policy cfg = FastOnly \<and> ms > ac_fast_ms cfg) then Fails (SlowStatus code ms) else Again)
          else if \<not> success code then Fails (HttpStatus code)
          else (case read_response (ac_max_response cfg) 0 [] chunks of None \<Rightarrow> Fails TooLarge | Some bytes \<Rightarrow> Answer (decode bytes))
      | (ms, ReadFailed) \<Rightarrow> if ms > ac_fast_ms cfg \<and> ac_policy cfg \<noteq> Always then Fails (SlowRead ms) else Again
      | (ms, SendFailed) \<Rightarrow> Again
      | (ms, ConnectFailed) \<Rightarrow> Again
      | (ms, OtherError e) \<Rightarrow> Fails (Unexpected e))"

text \<open>The wait before the next attempt, in milliseconds.\<close>

definition backoff :: "a2a_config \<Rightarrow> (nat \<Rightarrow> int) \<Rightarrow> nat \<Rightarrow> int" where
  "backoff cfg jitter i = min (ac_backoff_base cfg * 2 ^ i + jitter i) 30000"

datatype post_action = Post nat | Sleep int

fun post_loop ::
  "a2a_config \<Rightarrow> (int \<Rightarrow> bool) \<Rightarrow> (nat list \<Rightarrow> pystr) \<Rightarrow> (nat \<Rightarrow> int) \<Rightarrow> (nat \<Rightarrow> int \<times> answer) \<Rightarrow> nat \<Rightarrow> nat
   \<Rightarrow> (a2a_error + pystr) \<times> post_action list" where
  "post_loop cfg success decode jitter answers i 0 = (Inl Unreachable, [])"
| "post_loop cfg success decode jitter answers i (Suc k) =
     (case attempt_ends cfg success decode (answers i) of
        Answer t \<Rightarrow> (Inr t, [Post i])
      | Fails e \<Rightarrow> (Inl e, [Post i])
      | Again \<Rightarrow>
          (case post_loop cfg success decode jitter answers (Suc i) k of
             (res, acts) \<Rightarrow> (res, Post i # (if k = 0 then [] else [Sleep (backoff cfg jitter i)]) @ acts)))"

text \<open>The headers, with the token read at the time of the call; \<^const>\<open>None\<close> when one is required and missing.\<close>

definition post_headers :: "(pystr \<rightharpoonup> pystr) \<Rightarrow> pystr option \<Rightarrow> pystr option \<Rightarrow> (pystr \<times> pystr) list option" where
  "post_headers env auth_env traceparent =
     (let hs = (''Content-Type'', ''application/json'') # (case traceparent of None \<Rightarrow> [] | Some t \<Rightarrow> [(''traceparent'', t)])
      in case or_none auth_env of
           None \<Rightarrow> Some hs
         | Some var \<Rightarrow> if env_get env var = [] then None else Some (hs @ [(''Authorization'', ''Bearer '' @ env_get env var)]))"

definition post_with_retry ::
  "a2a_config \<Rightarrow> (int \<Rightarrow> bool) \<Rightarrow> (nat list \<Rightarrow> pystr) \<Rightarrow> (nat \<Rightarrow> int) \<Rightarrow> (pystr \<rightharpoonup> pystr) \<Rightarrow> pystr option \<Rightarrow> pystr option
   \<Rightarrow> (nat \<Rightarrow> int \<times> answer) \<Rightarrow> (a2a_error + pystr) \<times> post_action list" where
  "post_with_retry cfg success decode jitter env auth_env traceparent answers =
     (case post_headers env auth_env traceparent of
        None \<Rightarrow> (Inl NoToken, [])
      | Some _ \<Rightarrow> post_loop cfg success decode jitter answers 0 (ac_max_retries cfg))"

section \<open>The text of a result\<close>

text \<open>Iterating over \<open>d.get(k) or []\<close>: the elements of a list, the keys of an object, the characters of a string; any
  other true value raises.\<close>

definition iter_field :: "(pystr \<times> pyval) list \<Rightarrow> pystr \<Rightarrow> pyval list option" where
  "iter_field d k =
     (case truthy_field d k of
        None \<Rightarrow> Some []
      | Some (PList xs) \<Rightarrow> Some xs
      | Some (PDict e) \<Rightarrow> Some (map (\<lambda>(k, v). PStr k) e)
      | Some (PStr s) \<Rightarrow> Some (map (\<lambda>c. PStr [c]) s)
      | Some _ \<Rightarrow> None)"

definition artifact_part :: "pyval \<Rightarrow> pyval list" where
  "artifact_part part =
     (case part of PDict p \<Rightarrow> (case dict_get p ''text'' of Some (PStr (c # cs)) \<Rightarrow> [PStr (c # cs)] | _ \<Rightarrow> []) | _ \<Rightarrow> [])"

definition text_part :: "pyval \<Rightarrow> pyval list" where
  "text_part part =
     (case part of
        PDict p \<Rightarrow>
          if dict_get p ''kind'' = Some (PStr ''text'') then (case truthy_field p ''text'' of Some v \<Rightarrow> [v] | None \<Rightarrow> []) else []
      | _ \<Rightarrow> [])"

text \<open>The parts of every object in a list.\<close>

fun collect_parts :: "(pyval \<Rightarrow> pyval list) \<Rightarrow> pyval list \<Rightarrow> pyval list option" where
  "collect_parts part [] = Some []"
| "collect_parts part (x # xs) =
     (case x of
        PDict d \<Rightarrow>
          (case iter_field d ''parts'' of
             None \<Rightarrow> None
           | Some ps \<Rightarrow> map_option (\<lambda>rest. concat (map part ps) @ rest) (collect_parts part xs))
      | _ \<Rightarrow> collect_parts part xs)"

definition collect_from_artifacts :: "(pystr \<times> pyval) list \<Rightarrow> pyval list option" where
  "collect_from_artifacts d =
     (case dict_get d ''artifacts'' of Some (PList arts) \<Rightarrow> collect_parts artifact_part arts | _ \<Rightarrow> Some [])"

definition legacy_messages :: "(pystr \<times> pyval) list \<Rightarrow> pyval list option" where
  "legacy_messages d =
     (if truthy (dict_get d ''messages'') then iter_field d ''messages''
      else Some (case truthy_field d ''message'' of Some m \<Rightarrow> [m] | None \<Rightarrow> []))"

definition direct_text :: "(pystr \<times> pyval) list \<Rightarrow> pyval list" where
  "direct_text d =
     (case (case truthy_field d ''text'' of Some v \<Rightarrow> Some v | None \<Rightarrow> truthy_field d ''content'') of
        Some (PStr s) \<Rightarrow> [PStr s] | _ \<Rightarrow> [])"

definition or_else :: "pyval list option \<Rightarrow> pyval list option \<Rightarrow> pyval list option" where
  "or_else a b = (case a of None \<Rightarrow> None | Some (t # ts) \<Rightarrow> Some (t # ts) | Some [] \<Rightarrow> b)"

definition extract_text :: "pyval \<Rightarrow> pyval list option" where
  "extract_text result =
     (case result of
        PDict d \<Rightarrow>
          or_else (collect_from_artifacts d)
           (or_else (case dict_get d ''result'' of Some (PDict e) \<Rightarrow> collect_from_artifacts e | _ \<Rightarrow> Some [])
             (or_else
               (if dict_get d ''kind'' = Some (PStr ''message'') then map_option (\<lambda>ps. concat (map text_part ps)) (iter_field d ''parts'')
                else Some [])
               (or_else (case legacy_messages d of None \<Rightarrow> None | Some ms \<Rightarrow> collect_parts text_part ms) (Some (direct_text d)))))
      | _ \<Rightarrow> None)"

section \<open>A query\<close>

text \<open>The message of a query; the context of the session is named once the agent has answered for it.\<close>

definition query_message ::
  "pystr \<Rightarrow> pystr \<Rightarrow> pystr \<Rightarrow> pyval option \<Rightarrow> int option \<Rightarrow> pystr option \<Rightarrow> pystr option \<Rightarrow> a2a_backend \<Rightarrow> pyval" where
  "query_message message_id prompt sid model max_tokens traceparent caller_id b =
     PDict ([(''messageId'', PStr message_id), (''role'', PStr ''user''),
             (''parts'', PList [PDict [(''kind'', PStr ''text''), (''text'', PStr prompt)]])] @
       (if sid \<in> set (ab_contexts b) then [(''contextId'', PStr sid)] else []) @
       [(''metadata'', PDict ([(''session_id'', PStr sid)] @
          (if truthy model then [(''model'', the model)] else []) @
          (case max_tokens of Some n \<Rightarrow> [(''max_tokens'', PInt n)] | None \<Rightarrow> []) @
          (case traceparent of Some t \<Rightarrow> [(''traceparent'', PStr t)] | None \<Rightarrow> []) @
          (case or_none caller_id of Some c \<Rightarrow> [(''caller_id'', PStr c)] | None \<Rightarrow> [])))])"

definition query_payload ::
  "pystr \<Rightarrow> pystr \<Rightarrow> pystr \<Rightarrow> pyval option \<Rightarrow> int option \<Rightarrow> pystr option \<Rightarrow> pystr option \<Rightarrow> a2a_backend \<Rightarrow> pyval" where
  "query_payload message_id prompt sid model max_tokens traceparent caller_id b =
     PDict [(''jsonrpc'', PStr ''2.0''), (''method'', PStr ''message/send''), (''id'', PStr message_id),
       (''params'', PDict
         [(''message'', query_message message_id prompt sid model max_tokens traceparent caller_id b),
          (''configuration'', PDict [(''acceptedOutputModes'', PList [PStr ''text/plain'', PStr ''application/json''])])])]"

text \<open>The printed form of an exception of a request, as far as its status shows, and what the breaker makes of it.\<close>

definition CLIENT_STATUS_CODES :: "int list" where
  "CLIENT_STATUS_CODES = [400, 401, 403, 404, 405, 406, 409, 410, 413, 414, 415, 422]"

definition error_text :: "nat \<Rightarrow> a2a_backend \<Rightarrow> a2a_error \<Rightarrow> pystr" where
  "error_text retries b e =
     ''A2A backend '' @ SQUOTE # ab_id b @ SQUOTE #
     (case e of
        NoToken \<Rightarrow> '' auth_env='' @ (case ab_auth_env b of Some v \<Rightarrow> v | None \<Rightarrow> []) @ '' is unset or empty''
      | SlowStatus code ms \<Rightarrow> '' returned HTTP '' @ str_of_int code @ '' after '' @ str_of_int ms @ ''ms''
      | SlowRead ms \<Rightarrow> '' ReadError after '' @ str_of_int ms @ ''ms''
      | HttpStatus code \<Rightarrow> '' returned HTTP '' @ str_of_int code
      | TooLarge \<Rightarrow> '' response exceeds A2A_MAX_RESPONSE_BYTES''
      | _ \<Rightarrow> '' unreachable at '' @ ab_url b @ '' after '' @ str_of_int (int retries) @ '' attempts'')"

definition client_side :: "nat \<Rightarrow> a2a_backend \<Rightarrow> a2a_error \<Rightarrow> bool" where
  "client_side retries b e =
     (let msg = (case e of Unexpected t \<Rightarrow> t | _ \<Rightarrow> error_text retries b e)
      in list_ex (\<lambda>code. sublist (''HTTP '' @ str_of_int code) msg) CLIENT_STATUS_CODES)"

definition policy_refusal :: "a2a_error \<Rightarrow> bool" where
  "policy_refusal e = (case e of SlowStatus _ _ \<Rightarrow> True | SlowRead _ \<Rightarrow> True | _ \<Rightarrow> False)"

definition remember_context :: "nat \<Rightarrow> pystr \<Rightarrow> pystr list \<Rightarrow> pystr list" where
  "remember_context cap sid contexts =
     (if sid \<in> set contexts then removeAll sid contexts @ [sid]
      else (let l = contexts @ [sid] in drop (length l - cap) l))"

definition query_begin :: "a2a_config \<Rightarrow> int \<Rightarrow> a2a_backend \<Rightarrow> a2a_error option \<times> a2a_backend" where
  "query_begin cfg now b =
     (case circuit_acquire cfg now b of (True, b') \<Rightarrow> (None, b') | (False, b') \<Rightarrow> (Some CircuitOpen, b'))"

definition query_end ::
  "a2a_config \<Rightarrow> (pystr \<Rightarrow> pyval option) \<Rightarrow> int \<Rightarrow> pystr \<Rightarrow> a2a_error + pystr \<Rightarrow> a2a_backend \<Rightarrow> (a2a_error + pyval list) \<times> a2a_backend" where
  "query_end cfg loads now sid outcome b =
     (case outcome of
        Inl e \<Rightarrow> (Inl e, if client_side (ac_max_retries cfg) b e \<or> policy_refusal e then b else circuit_record cfg now False b)
      | Inr t \<Rightarrow>
          (case loads t of
             None \<Rightarrow> (Inl (NonJson t), circuit_record cfg now False b)
           | Some (PDict d) \<Rightarrow>
               (case truthy_field d ''error'' of
                  Some err \<Rightarrow> (Inl (BackendError err), circuit_record cfg now False b)
                | None \<Rightarrow>
                    (let result = (case truthy_field d ''result'' of Some r \<Rightarrow> r | None \<Rightarrow> PDict []);
                         b' = circuit_record cfg now True (b\<lparr>ab_contexts := remember_context (ac_contexts_max cfg) sid (ab_contexts b)\<rparr>)
                     in case extract_text result of None \<Rightarrow> (Inl NotAnObject, b') | Some ts \<Rightarrow> (Inr ts, b')))
           | Some _ \<Rightarrow> (Inl NotAnObject, b)))"

text \<open>A query on its own.\<close>

definition run_query ::
  "a2a_config \<Rightarrow> (int \<Rightarrow> bool) \<Rightarrow> (nat list \<Rightarrow> pystr) \<Rightarrow> (nat \<Rightarrow> int) \<Rightarrow> (pystr \<rightharpoonup> pystr) \<Rightarrow> (pystr \<Rightarrow> pyval option) \<Rightarrow> int \<Rightarrow> int \<Rightarrow> pystr
   \<Rightarrow> pystr option \<Rightarrow> (nat \<Rightarrow> int \<times> answer) \<Rightarrow> a2a_backend \<Rightarrow> (a2a_error + pyval list) \<times> post_action list \<times> a2a_backend" where
  "run_query cfg success decode jitter env loads now later sid traceparent answers b =
     (case query_begin cfg now b of
        (Some e, b1) \<Rightarrow> (Inl e, [], b1)
      | (None, b1) \<Rightarrow>
          (case post_with_retry cfg success decode jitter env (ab_auth_env b) traceparent answers of
             (outcome, acts) \<Rightarrow>
               (case query_end cfg loads later sid outcome b1 of (res, b2) \<Rightarrow> (res, acts, b2))))"

section \<open>What is sent again\<close>

text \<open>An attempt after which the same request may go out once more: it did not reach the agent, or failed so early that the
  agent cannot have worked on it, or the operator asked for it.\<close>

definition resendable :: "a2a_config \<Rightarrow> int \<times> answer \<Rightarrow> bool" where
  "resendable cfg a =
     (case a of
        (ms, Response code _) \<Rightarrow>
          code \<in> set RETRYABLE_STATUS_CODES \<and> (ac_policy cfg = Always \<or> (ac_policy cfg = FastOnly \<and> ms \<le> ac_fast_ms cfg))
      | (ms, ReadFailed) \<Rightarrow> ac_policy cfg = Always \<or> ms \<le> ac_fast_ms cfg
      | (ms, SendFailed) \<Rightarrow> True
      | (ms, ConnectFailed) \<Rightarrow> True
      | (ms, OtherError _) \<Rightarrow> False)"

definition posts :: "post_action list \<Rightarrow> nat list" where
  "posts acts = List.map_filter (\<lambda>a. case a of Post i \<Rightarrow> Some i | Sleep _ \<Rightarrow> None) acts"

definition slept :: "post_action list \<Rightarrow> int" where
  "slept acts = (\<Sum>a\<leftarrow>acts. case a of Post _ \<Rightarrow> 0 | Sleep d \<Rightarrow> d)"

lemma again_iff: "attempt_ends cfg success decode a = Again \<longleftrightarrow> resendable cfg a"
  by (cases a; cases "snd a"; cases "ac_policy cfg") (auto simp: attempt_ends_def resendable_def split: option.splits)

lemma backoff_bounded: "backoff cfg jitter i \<le> 30000"
  by (simp add: backoff_def)

lemma post_loop_spec:
  "post_loop cfg success decode jitter answers i (Suc k) = (res, acts) \<Longrightarrow>
   \<exists>n\<ge>i. n \<le> i + k \<and> posts acts = [i..<Suc n] \<and> (\<forall>j. i \<le> j \<and> j < n \<longrightarrow> resendable cfg (answers j)) \<and> slept acts \<le> 30000 * int (n - i) \<and>
     (case attempt_ends cfg success decode (answers n) of
        Answer t \<Rightarrow> res = Inr t
      | Fails e \<Rightarrow> res = Inl e
      | Again \<Rightarrow> res = Inl Unreachable \<and> n = i + k)"
proof (induction k arbitrary: i res acts)
  case 0
  then show ?case
    by (intro exI [of _ i]) (auto simp: posts_def slept_def map_filter_simps split: attempt_end.splits)
next
  case (Suc k)
  show ?case
  proof (cases "attempt_ends cfg success decode (answers i) = Again")
    case False
    then have "acts = [Post i]" "case attempt_ends cfg success decode (answers i) of
        Answer t \<Rightarrow> res = Inr t | Fails e \<Rightarrow> res = Inl e | Again \<Rightarrow> res = Inl Unreachable \<and> i = i + Suc k"
      using Suc.prems unfolding post_loop.simps(2) [of cfg success decode jitter answers i "Suc k"] by (auto split: attempt_end.splits)
    then show ?thesis by (intro exI [of _ i]) (simp add: posts_def slept_def map_filter_simps, linarith)
  next
    case True
    obtain res' acts' where p: "post_loop cfg success decode jitter answers (Suc i) (Suc k) = (res', acts')" by (rule prod.exhaust)
    have r: "res = res'" "acts = Post i # Sleep (backoff cfg jitter i) # acts'"
      using Suc.prems True p unfolding post_loop.simps(2) [of cfg success decode jitter answers i "Suc k"] by auto
    obtain n where n: "n \<ge> Suc i" "n \<le> Suc i + k" "posts acts' = [Suc i..<Suc n]" "\<forall>j. Suc i \<le> j \<and> j < n \<longrightarrow> resendable cfg (answers j)"
      "slept acts' \<le> 30000 * int (n - Suc i)"
      "case attempt_ends cfg success decode (answers n) of
        Answer t \<Rightarrow> res' = Inr t | Fails e \<Rightarrow> res' = Inl e | Again \<Rightarrow> res' = Inl Unreachable \<and> n = Suc i + k"
      using Suc.IH [OF p] by blast
    have "posts acts = [i..<Suc n]" using r(2) n(1,3) by (simp add: posts_def map_filter_simps upt_rec [of i])
    moreover have "slept acts \<le> 30000 * int (n - i)" using r(2) n(1,5) backoff_bounded [of cfg jitter i] by (simp add: slept_def)
    moreover have "\<forall>j. i \<le> j \<and> j < n \<longrightarrow> resendable cfg (answers j)" using n(4) True again_iff by (metis le_antisym not_less_eq_eq)
    ultimately show ?thesis using n(1,2,6) r(1) by (intro exI [of _ n]) (auto split: attempt_end.splits)
  qed
qed

text \<open>C18: A request is sent again only after attempts that cannot have made the agent work: all attempts but the last were
  resendable, so under the default policy a turn that may have run, because its answer came or broke off after the
  threshold, is never run twice. There are at most as many attempts as configured, in order, with at most thirty
  seconds between two of them; the result is that of the last attempt, and without a required token nothing is sent.\<close>

theorem slow_turn_not_rerun:
  assumes "post_with_retry cfg success decode jitter env auth_env traceparent answers = (res, acts)" "ac_max_retries cfg > 0"
  shows "if post_headers env auth_env traceparent = None then acts = [] \<and> res = Inl NoToken
    else \<exists>n<ac_max_retries cfg. posts acts = [0..<Suc n] \<and> (\<forall>j<n. resendable cfg (answers j)) \<and> slept acts \<le> 30000 * int n \<and>
      (case attempt_ends cfg success decode (answers n) of
         Answer t \<Rightarrow> res = Inr t
       | Fails e \<Rightarrow> res = Inl e
       | Again \<Rightarrow> res = Inl Unreachable \<and> Suc n = ac_max_retries cfg)"
proof (cases "post_headers env auth_env traceparent")
  case None
  then show ?thesis using assms(1) by (simp add: post_with_retry_def)
next
  case (Some hs)
  obtain k where k: "ac_max_retries cfg = Suc k" using assms(2) by (cases "ac_max_retries cfg") auto
  have "post_loop cfg success decode jitter answers 0 (Suc k) = (res, acts)" using assms(1) Some k by (simp add: post_with_retry_def)
  from post_loop_spec [OF this, unfolded add_0] obtain n where n: "n \<le> k" "posts acts = [0..<Suc n]" "\<forall>j. j < n \<longrightarrow> resendable cfg (answers j)"
      "slept acts \<le> 30000 * int n"
      "case attempt_ends cfg success decode (answers n) of Answer t \<Rightarrow> res = Inr t | Fails e \<Rightarrow> res = Inl e | Again \<Rightarrow> res = Inl Unreachable \<and> n = k"
    by auto
  have "case attempt_ends cfg success decode (answers n) of
         Answer t \<Rightarrow> res = Inr t | Fails e \<Rightarrow> res = Inl e | Again \<Rightarrow> res = Inl Unreachable \<and> Suc n = ac_max_retries cfg"
    using n(5) k by (simp split: attempt_end.splits)
  then show ?thesis using n(1-4) k Some by (simp add: less_Suc_eq_le)
qed

definition demo_a2a_config :: a2a_config where
  "demo_a2a_config = \<lparr>ac_max_retries = 3, ac_backoff_base = 1000, ac_policy = FastOnly, ac_fast_ms = 5000, ac_max_response = 100,
     ac_threshold = 2, ac_cooloff = 30, ac_contexts_max = 2\<rparr>"

text \<open>A refused connection, then a gateway error that took a minute.\<close>

definition demo_answers :: "nat \<Rightarrow> int \<times> answer" where
  "demo_answers i = (if i = 0 then (10, ConnectFailed) else (60000, Response 504 []))"

theorem slow_turn_not_rerun_witness:
  "\<exists>res acts n. post_with_retry demo_a2a_config (\<lambda>c. c = 200) (\<lambda>_. []) (\<lambda>_. 0) Map.empty None None demo_answers = (res, acts) \<and>
     n < 3 \<and> posts acts = [0..<Suc n] \<and> n = 1 \<and> res = Inl (SlowStatus 504 60000)"
proof -
  let ?p = "post_with_retry demo_a2a_config (\<lambda>c. c = 200) (\<lambda>_. []) (\<lambda>_. 0) Map.empty None None demo_answers"
  have e: "fst ?p = Inl (SlowStatus 504 60000)" "length (posts (snd ?p)) = 2" "ac_max_retries demo_a2a_config = 3"
    "post_headers Map.empty None None \<noteq> None" by code_simp+
  have p: "?p = (Inl (SlowStatus 504 60000), snd ?p)" using e(1) by (metis prod.collapse)
  obtain n where "n < 3" "posts (snd ?p) = [0..<Suc n]"
    using slow_turn_not_rerun [OF p] e(3,4) by auto
  moreover from this have "n = 1" using e(2) by simp
  ultimately show ?thesis using p by blast
qed

section \<open>The breaker under interleaving\<close>

definition good_answer :: "(pystr \<Rightarrow> pyval option) \<Rightarrow> a2a_error + pystr \<Rightarrow> bool" where
  "good_answer loads outcome =
     (case outcome of Inr t \<Rightarrow> (case loads t of Some (PDict d) \<Rightarrow> truthy_field d ''error'' = None | _ \<Rightarrow> False) | Inl _ \<Rightarrow> False)"

text \<open>What the end of a query says of the agent: it works, it fails, or nothing, when the fault is the caller's or lies in
  our own refusal to ask again.\<close>

definition verdict :: "a2a_config \<Rightarrow> (pystr \<Rightarrow> pyval option) \<Rightarrow> a2a_backend \<Rightarrow> a2a_error + pystr \<Rightarrow> bool option" where
  "verdict cfg loads b outcome =
     (case outcome of
        Inl e \<Rightarrow> if client_side (ac_max_retries cfg) b e \<or> policy_refusal e then None else Some False
      | Inr t \<Rightarrow> (case loads t of None \<Rightarrow> Some False | Some (PDict d) \<Rightarrow> Some (truthy_field d ''error'' = None) | Some _ \<Rightarrow> None))"

text \<open>Runs: the time, the backend, the queries between their begin and their end, the sessions the agent has answered for, and
  the trace of all verdicts with their times, the latest first. A query may also be cancelled by the time limit of the
  caller, which records nothing.\<close>

inductive a2a_reach :: "a2a_config \<Rightarrow> int \<Rightarrow> a2a_backend \<Rightarrow> nat \<Rightarrow> pystr set \<Rightarrow> (int \<times> bool) list \<Rightarrow> bool" for cfg where
  ar_start: "a2a_reach cfg now (init_a2a_backend i url auth_env) 0 {} []"
| ar_wait: "a2a_reach cfg now b n sids tr \<Longrightarrow> now \<le> later \<Longrightarrow> a2a_reach cfg later b n sids tr"
| ar_begin: "a2a_reach cfg now b n sids tr \<Longrightarrow> query_begin cfg now b = (None, b') \<Longrightarrow> a2a_reach cfg now b' (Suc n) sids tr"
| ar_refused: "a2a_reach cfg now b n sids tr \<Longrightarrow> query_begin cfg now b = (Some e, b') \<Longrightarrow> a2a_reach cfg now b' n sids tr"
| ar_end: "a2a_reach cfg now b (Suc n) sids tr \<Longrightarrow> query_end cfg loads now sid outcome b = (res, b') \<Longrightarrow>
    a2a_reach cfg now b' n (if good_answer loads outcome then insert sid sids else sids)
      (case verdict cfg loads b outcome of None \<Rightarrow> tr | Some ok \<Rightarrow> (now, ok) # tr)"
| ar_cancelled: "a2a_reach cfg now b (Suc n) sids tr \<Longrightarrow> a2a_reach cfg now b n sids tr"

text \<open>The failures since the last success, the latest first, and of them those that are at least the \<open>k\<close>th in a row.\<close>

definition row :: "(int \<times> bool) list \<Rightarrow> (int \<times> bool) list" where
  "row tr = takeWhile (\<lambda>x. \<not> snd x) tr"

definition from_kth :: "nat \<Rightarrow> 'a list \<Rightarrow> 'a list" where
  "from_kth k xs = take (Suc (length xs) - k) xs"

definition breaker_inv :: "a2a_config \<Rightarrow> int \<Rightarrow> a2a_backend \<Rightarrow> (int \<times> bool) list \<Rightarrow> bool" where
  "breaker_inv cfg now b tr =
     (ab_failures b = length (row tr) \<and>
      (ab_circuit b = Closed \<longrightarrow> ab_failures b < ac_threshold cfg) \<and>
      (ab_circuit b \<noteq> Closed \<longrightarrow> ac_threshold cfg \<le> ab_failures b \<and> ab_opened_at b \<in> fst ` set (from_kth (ac_threshold cfg) (row tr))))"

lemma breaker_inv_record:
  assumes "breaker_inv cfg now b tr" "ac_threshold cfg > 0"
  shows "breaker_inv cfg now (circuit_record cfg now ok b) ((now, ok) # tr)"
proof (cases ok)
  case False
  have "from_kth k (x # xs) = x # from_kth k xs" if "k \<le> length xs" for k and x :: "int \<times> bool" and xs
    using that by (simp add: from_kth_def Suc_diff_le)
  moreover have "x \<in> set (from_kth k (x # xs))" if "k \<le> Suc (length xs)" for k and x :: "int \<times> bool" and xs
    using that by (simp add: from_kth_def Suc_diff_le)
  ultimately show ?thesis
    using assms False by (cases "ab_circuit b") (force simp: breaker_inv_def circuit_record_def Let_def row_def)+
qed (use assms in \<open>simp add: breaker_inv_def circuit_record_def row_def\<close>)

lemma circuit_record_contexts [simp]: "ab_contexts (circuit_record cfg now ok b) = ab_contexts b"
  by (auto simp: circuit_record_def Let_def split: circuit.split)

lemma breaker_inv_contexts [simp]: "breaker_inv cfg now (b\<lparr>ab_contexts := l\<rparr>) tr = breaker_inv cfg now b tr"
  by (simp add: breaker_inv_def)

lemma begin_ok: "query_begin cfg now b = (r, b') \<Longrightarrow> breaker_inv cfg now b tr \<Longrightarrow> breaker_inv cfg now b' tr \<and> ab_contexts b' = ab_contexts b"
  by (cases "ab_circuit b") (force simp: query_begin_def circuit_acquire_def breaker_inv_def split: if_splits)+

lemma end_cases:
  assumes "query_end cfg loads now sid outcome b = (res, b')"
  obtains (kept) "b' = b" "\<not> good_answer loads outcome" "verdict cfg loads b outcome = None"
  | (failed) "b' = circuit_record cfg now False b" "\<not> good_answer loads outcome" "verdict cfg loads b outcome = Some False"
  | (good) "b' = circuit_record cfg now True (b\<lparr>ab_contexts := remember_context (ac_contexts_max cfg) sid (ab_contexts b)\<rparr>)"
      "good_answer loads outcome" "verdict cfg loads b outcome = Some True"
proof (cases outcome)
  case (Inl e)
  then show ?thesis
    using assms kept failed by (cases "client_side (ac_max_retries cfg) b e \<or> policy_refusal e") (auto simp: query_end_def good_answer_def verdict_def)
next
  case (Inr t)
  show ?thesis
  proof (cases "loads t")
    case None
    then show ?thesis using assms Inr failed by (auto simp: query_end_def good_answer_def verdict_def)
  next
    case (Some v)
    show ?thesis
    proof (cases "\<exists>d. v = PDict d \<and> truthy_field d ''error'' = None")
      case True
      then obtain d where "v = PDict d" "truthy_field d ''error'' = None" by blast
      then show ?thesis using assms Inr Some good by (auto simp: query_end_def good_answer_def verdict_def Let_def split: option.splits)
    next
      case False
      then show ?thesis using assms Inr Some kept failed
        by (cases v) (auto simp: query_end_def good_answer_def verdict_def Let_def split: option.splits)
    qed
  qed
qed

lemma remember_ok:
  assumes "distinct l" "length l \<le> cap" "cap > 0"
  shows "distinct (remember_context cap sid l)" "length (remember_context cap sid l) \<le> cap" "set (remember_context cap sid l) \<subseteq> insert sid (set l)"
    "sid \<in> set (remember_context cap sid l)"
proof -
  have rem: "length (removeAll sid l) < length l" if "sid \<in> set l" using that by (rule length_removeAll_less)
  show "distinct (remember_context cap sid l)" using assms by (auto simp: remember_context_def Let_def distinct_removeAll dest: in_set_dropD)
  show "length (remember_context cap sid l) \<le> cap" using assms rem by (fastforce simp: remember_context_def Let_def)
  show "set (remember_context cap sid l) \<subseteq> insert sid (set l)"
    by (auto simp: remember_context_def Let_def dest: in_set_dropD)
  have "sid \<in> set (drop k (l @ [sid]))" if "k \<le> length l" for k using that by simp
  then show "sid \<in> set (remember_context cap sid l)" using assms by (auto simp: remember_context_def Let_def)
qed

lemma a2a_reach_inv:
  "a2a_reach cfg now b n sids tr \<Longrightarrow> ac_threshold cfg > 0 \<Longrightarrow> ac_contexts_max cfg > 0 \<Longrightarrow>
     breaker_inv cfg now b tr \<and> distinct (ab_contexts b) \<and> length (ab_contexts b) \<le> ac_contexts_max cfg \<and> set (ab_contexts b) \<subseteq> sids"
proof (induction rule: a2a_reach.induct)
  case (ar_end now b n sids tr loads sid outcome res b')
  note inv = ar_end.IH [OF ar_end.prems]
  note rec = breaker_inv_record [OF _ ar_end.prems(1), of now _ tr]
  from ar_end.hyps(2) show ?case
  proof (cases rule: end_cases)
    case good
    note rem = remember_ok [of "ab_contexts b" "ac_contexts_max cfg" sid]
    have "breaker_inv cfg now b' ((now, True) # tr)" unfolding good(1) by (rule rec) (simp add: inv)
    then show ?thesis using good inv rem ar_end.prems by auto
  qed (use inv rec in auto)
next
  case (ar_begin now b n sids tr b')
  then show ?case using begin_ok [OF ar_begin.hyps(2), of tr] by auto
next
  case (ar_refused now b n sids tr e b')
  then show ?case using begin_ok [OF ar_refused.hyps(2), of tr] by auto
qed (auto simp: init_a2a_backend_def breaker_inv_def row_def)

text \<open>C34: However queries, their ends, cancellations and time interleave, the breaker is as the verdicts of the whole run say:
  it is closed exactly while fewer of them than the threshold have failed in a row since the last success, and
  otherwise it opened with one of the failures from the threshold on; a query is refused exactly while the breaker is
  open and the cool-off since that failure has not passed, and from then on every query is let through until the next
  recorded failure. The remembered contexts are distinct, within their bound, and only of sessions the agent has
  answered for.\<close>

theorem breaker_reachable:
  assumes "a2a_reach cfg now b n sids tr" "ac_threshold cfg > 0" "ac_contexts_max cfg > 0"
  shows "(ab_circuit b = Closed \<longleftrightarrow> length (row tr) < ac_threshold cfg) \<and>
    (ab_circuit b \<noteq> Closed \<longrightarrow> ab_opened_at b \<in> fst ` set (from_kth (ac_threshold cfg) (row tr))) \<and>
    (fst (query_begin cfg now b) \<noteq> None \<longleftrightarrow> ab_circuit b = Open \<and> now - ab_opened_at b < ac_cooloff cfg) \<and>
    (ab_opened_at b + ac_cooloff cfg \<le> later \<longrightarrow>
       fst (query_begin cfg later b) = None \<and> ab_circuit (snd (query_begin cfg later b)) \<noteq> Open) \<and>
    distinct (ab_contexts b) \<and> length (ab_contexts b) \<le> ac_contexts_max cfg \<and> set (ab_contexts b) \<subseteq> sids"
proof -
  note inv = a2a_reach_inv [OF assms]
  have "ab_circuit b = Closed \<longleftrightarrow> length (row tr) < ac_threshold cfg"
    "ab_circuit b \<noteq> Closed \<longrightarrow> ab_opened_at b \<in> fst ` set (from_kth (ac_threshold cfg) (row tr))"
    using inv by (auto simp: breaker_inv_def)
  moreover have "fst (query_begin cfg now b) \<noteq> None \<longleftrightarrow> ab_circuit b = Open \<and> now - ab_opened_at b < ac_cooloff cfg"
    by (cases "ab_circuit b") (auto simp: query_begin_def circuit_acquire_def)
  moreover have "ab_opened_at b + ac_cooloff cfg \<le> later \<longrightarrow>
      fst (query_begin cfg later b) = None \<and> ab_circuit (snd (query_begin cfg later b)) \<noteq> Open"
    by (cases "ab_circuit b") (auto simp: query_begin_def circuit_acquire_def)
  ultimately show ?thesis using inv by blast
qed

text \<open>Two failures open the breaker; after the cool-off two queries are under way at once, although the half-open state is
  described as one probe.\<close>

definition demo_backend :: a2a_backend where
  "demo_backend = init_a2a_backend ''iris'' ''http://iris'' None"

definition demo_fail :: "int \<Rightarrow> a2a_backend \<Rightarrow> (a2a_error + pyval list) \<times> a2a_backend" where
  "demo_fail now b = query_end demo_a2a_config (\<lambda>_. None) now ''s'' (Inl Unreachable) b"

lemma demo_probes: "\<exists>b. a2a_reach demo_a2a_config 40 b 2 {} [(5, False), (5, False)] \<and> ab_circuit b = HalfOpen"
proof -
  let ?cfg = demo_a2a_config
  define b1 where "b1 = snd (demo_fail 5 demo_backend)"
  define b2 where "b2 = snd (demo_fail 5 b1)"
  define b3 where "b3 = snd (query_begin ?cfg 40 b2)"
  have steps: "query_begin ?cfg 5 demo_backend = (None, demo_backend)"
    "demo_fail 5 demo_backend = (Inl Unreachable, b1)" "demo_fail 5 b1 = (Inl Unreachable, b2)"
    "query_begin ?cfg 40 b2 = (None, b3)" "query_begin ?cfg 40 b3 = (None, b3)" "ab_circuit b3 = HalfOpen"
    "verdict ?cfg (\<lambda>_. None) demo_backend (Inl Unreachable) = Some False" "verdict ?cfg (\<lambda>_. None) b1 (Inl Unreachable) = Some False"
    unfolding b3_def b2_def b1_def by code_simp+
  have bad: "\<not> good_answer (\<lambda>_. None) (Inl Unreachable)" by (simp add: good_answer_def)
  have "a2a_reach ?cfg 5 demo_backend 0 {} []" unfolding demo_backend_def by (rule ar_start)
  then have "a2a_reach ?cfg 5 demo_backend (Suc (Suc 0)) {} []" using steps(1) by (blast intro: ar_begin)
  then have "a2a_reach ?cfg 5 b1 (Suc 0) {} [(5, False)]"
    using ar_end [of ?cfg 5 demo_backend "Suc 0" "{}" "[]" "\<lambda>_. None" "''s''" "Inl Unreachable"] steps(2,7) bad by (simp add: demo_fail_def)
  then have "a2a_reach ?cfg 5 b2 0 {} [(5, False), (5, False)]"
    using ar_end [of ?cfg 5 b1 0 "{}" "[(5, False)]" "\<lambda>_. None" "''s''" "Inl Unreachable"] steps(3,8) bad by (simp add: demo_fail_def)
  then have "a2a_reach ?cfg 40 b2 0 {} [(5, False), (5, False)]" by (rule ar_wait) simp
  then have "a2a_reach ?cfg 40 b3 (Suc (Suc 0)) {} [(5, False), (5, False)]" using steps(4,5) by (blast intro: ar_begin)
  then show ?thesis using steps(6) by (intro exI [of _ b3]) (simp add: numeral_2_eq_2)
qed

theorem breaker_reachable_witness:
  "\<exists>b. a2a_reach demo_a2a_config 40 b 2 {} [(5, False), (5, False)] \<and> ab_circuit b = HalfOpen \<and> ab_opened_at b = 5 \<and> ab_contexts b = []"
proof -
  obtain b where b: "a2a_reach demo_a2a_config 40 b 2 {} [(5, False), (5, False)]" "ab_circuit b = HalfOpen" using demo_probes by blast
  have "ac_threshold demo_a2a_config = 2" "ac_contexts_max demo_a2a_config = 2" "from_kth 2 (row [(5, False), (5, False)]) = [(5, False)]"
    by (simp_all add: demo_a2a_config_def from_kth_def row_def)
  then show ?thesis using breaker_reachable [OF b(1), of 40] b by auto
qed

text \<open>A success that was under way when the breaker opened closes it at once, without any cool-off.\<close>

lemma late_success_closes: "ab_circuit (circuit_record cfg now True b) = Closed"
  by (simp add: circuit_record_def)

text \<open>The statuses of the list leave the breaker alone, the errors of a server that is up count, and so do the other client
  errors.\<close>

lemma client_error_ignored:
  "code \<in> set CLIENT_STATUS_CODES \<Longrightarrow> query_end cfg loads now sid (Inl (HttpStatus code)) b = (Inl (HttpStatus code), b)"
proof -
  have "sublist (''HTTP '' @ str_of_int code) (error_text n b (HttpStatus code))" for n
    using sublist_appendI [of "''HTTP '' @ str_of_int code" "''A2A backend '' @ SQUOTE # ab_id b @ SQUOTE # '' returned ''" "[]"]
    by (simp add: error_text_def)
  moreover assume "code \<in> set CLIENT_STATUS_CODES"
  ultimately have "client_side n b (HttpStatus code)" for n unfolding client_side_def Let_def list_ex_iff by auto
  then show ?thesis by (simp add: query_end_def)
qed

lemma sublist_skip:
  assumes "c \<notin> set u"
  shows "sublist (c # p) (u @ v) \<longleftrightarrow> sublist (c # p) v"
  using assms
proof (induction u)
  case (Cons x u)
  then have "\<not> prefix (c # p) (x # u @ v)" by auto
  then show ?case using Cons by (simp add: sublist_Cons_right)
qed simp

lemma server_error_counts:
  assumes "code \<in> set [500, 501]" "backend_id_re (ab_id b)"
  shows "query_end cfg loads now sid (Inl (HttpStatus code)) b = (Inl (HttpStatus code), circuit_record cfg now False b)"
proof -
  have "CHR ''H'' \<notin> set (''A2A backend '' @ SQUOTE # ab_id b @ SQUOTE # '' returned '')"
    using assms(2) by (auto simp: backend_id_re_def list_all_iff slug_char_def slug_start_def SQUOTE_def)
  then have "sublist (CHR ''H'' # p) (error_text n b (HttpStatus code)) \<longleftrightarrow> sublist (CHR ''H'' # p) (''HTTP '' @ str_of_int code)" for p n
    using sublist_skip [of "CHR ''H''" "''A2A backend '' @ SQUOTE # ab_id b @ SQUOTE # '' returned ''" p "''HTTP '' @ str_of_int code"]
    by (simp add: error_text_def)
  then have c: "client_side n b (HttpStatus code) \<longleftrightarrow> list_ex (\<lambda>c. sublist (''HTTP '' @ str_of_int c) (''HTTP '' @ str_of_int code)) CLIENT_STATUS_CODES" for n
    by (simp add: client_side_def)
  have "list_all (\<lambda>code. \<not> list_ex (\<lambda>c. sublist (''HTTP '' @ str_of_int c) (''HTTP '' @ str_of_int code)) CLIENT_STATUS_CODES) [500, 501]"
    by code_simp
  then have "\<not> client_side n b (HttpStatus code)" for n using c assms(1) by (simp only: list_all_iff) blast
  then show ?thesis by (simp add: query_end_def policy_refusal_def)
qed

lemma large_headers_open_breaker:
  "query_end demo_a2a_config (\<lambda>_. None) 0 ''s'' (Inl (HttpStatus 431)) demo_backend =
     (Inl (HttpStatus 431), circuit_record demo_a2a_config 0 False demo_backend)"
  by code_simp

text \<open>Under the policy \<open>never\<close> a gateway error of any speed counts as a refusal, so such errors never open the breaker.\<close>

lemma never_policy_blinds_breaker:
  assumes "ac_policy cfg = Never" "code \<in> set RETRYABLE_STATUS_CODES"
  shows "\<exists>e. attempt_ends cfg success decode (ms, Response code chunks) = Fails e \<and> query_end cfg loads now sid (Inl e) b = (Inl e, b)"
  using assms by (simp add: attempt_ends_def query_end_def policy_refusal_def)

text \<open>The texts of a message and of a task are found.\<close>

lemma message_text_found:
  assumes "\<forall>t\<in>set ts. t \<noteq> []"
  shows "extract_text (PDict [(''kind'', PStr ''message''), (''parts'', PList (map (\<lambda>t. PDict [(''kind'', PStr ''text''), (''text'', PStr t)]) ts))]) =
    Some (map PStr ts)"
proof -
  have p: "text_part (PDict [(''kind'', PStr ''text''), (''text'', PStr t)]) = [PStr t]" if "t \<in> set ts" for t
    using assms that by (simp add: text_part_def truthy_field_def truthy_def)
  have "concat (map text_part (map (\<lambda>t. PDict [(''kind'', PStr ''text''), (''text'', PStr t)]) ts)) = map PStr ts"
    using p by (induction ts) auto
  then show ?thesis
    by (cases ts) (simp_all add: extract_text_def or_else_def collect_from_artifacts_def iter_field_def truthy_field_def truthy_def
        legacy_messages_def direct_text_def)
qed

lemma task_text_found:
  assumes "\<forall>t\<in>set ts. t \<noteq> []" "ts \<noteq> []"
  shows "extract_text (PDict [(''artifacts'', PList (map (\<lambda>t. PDict [(''parts'', PList [PDict [(''text'', PStr t)]])]) ts))]) = Some (map PStr ts)"
proof -
  have "collect_parts artifact_part (map (\<lambda>t. PDict [(''parts'', PList [PDict [(''text'', PStr t)]])]) ts) = Some (map PStr ts)"
    using assms(1)
  proof (induction ts)
    case (Cons t ts)
    then show ?case by (cases t) (simp_all add: iter_field_def truthy_field_def truthy_def artifact_part_def)
  qed simp
  then show ?thesis using assms(2) by (cases ts) (simp_all add: extract_text_def or_else_def collect_from_artifacts_def)
qed

end
