(* ===== verification/Hook_Events.thy ===== *)
theory Hook_Events
  imports Event_Stream Harness_Utils
begin

text \<open>
  Model of \<open>shared/hook_events.py\<close>: how a backend sends its events to the harness. The globals of the module are one
  record; a post is cut at its request: \<open>post_begin\<close> before it, \<open>post_end\<close> with the replies, \<open>post_done\<close> and
  \<open>cf_done\<close> the callbacks of the two kinds of futures. The breaker compares the exact ratio of failures, where the
  code divides floating-point numbers. The client object and log lines are left out.
\<close>

section \<open>Configuration and state\<close>

record hook_config =
  hc_events_url :: pystr
  hc_publish_url :: pystr
  hc_token :: pystr
  hc_max_inflight :: int
  hc_retry :: bool
  hc_cb_window :: int
  hc_cb_ratio :: "int \<times> int"
  hc_cb_cooldown :: int
  hc_auth_rearm :: int
  hc_status_rearm :: int

definition hook_token :: "(pystr \<rightharpoonup> pystr) \<Rightarrow> pystr" where
  "hook_token env =
     (let a = env_get env ''HOOK_EVENTS_AUTH_TOKEN''; b = env_get env ''HARNESS_EVENTS_AUTH_TOKEN''
      in if a \<noteq> [] then a else if b \<noteq> [] then b else env_get env ''TRIGGERS_AUTH_TOKEN'')"

record hook_posts =
  hp_inflight :: "nat list"
  hp_inflight_cf :: "nat list"
  hp_next :: nat
  hp_shed_warned :: bool
  hp_auth_warned :: "bool \<times> int"
  hp_status_warned :: "bool \<times> int"
  hp_url_unset_warned :: bool
  hp_no_loop_warned :: bool
  hp_cb_recent :: "bool list"
  hp_cb_open_until :: int

definition init_hook_posts :: hook_posts where
  "init_hook_posts =
     \<lparr>hp_inflight = [], hp_inflight_cf = [], hp_next = 0, hp_shed_warned = False, hp_auth_warned = (False, 0),
      hp_status_warned = (False, 0), hp_url_unset_warned = False, hp_no_loop_warned = False, hp_cb_recent = [], hp_cb_open_until = 0\<rparr>"

section \<open>The circuit breaker\<close>

definition cb_is_open :: "int \<Rightarrow> hook_posts \<Rightarrow> bool" where
  "cb_is_open now hp = (hp_cb_open_until hp > now)"

definition fails :: "bool list \<Rightarrow> int" where
  "fails xs = int (length (filter (\<lambda>x. x) xs))"

definition too_many :: "int \<times> int \<Rightarrow> bool list \<Rightarrow> bool" where
  "too_many ratio xs = (case ratio of (num, den) \<Rightarrow> fails xs * den \<ge> num * int (length xs))"

text \<open>\<^const>\<open>None\<close> is the \<open>ZeroDivisionError\<close> of a window that is not positive.\<close>

definition cb_record :: "hook_config \<Rightarrow> int \<Rightarrow> bool \<Rightarrow> hook_posts \<Rightarrow> hook_posts option" where
  "cb_record cfg now failed hp =
     (let recent = hp_cb_recent hp @ [failed];
          kept = drop (nat (int (length recent) - hc_cb_window cfg)) recent
      in if int (length kept) < hc_cb_window cfg then Some (hp\<lparr>hp_cb_recent := kept\<rparr>)
         else if kept = [] then None
         else if too_many (hc_cb_ratio cfg) kept
         then Some (hp\<lparr>hp_cb_open_until := now + hc_cb_cooldown cfg, hp_cb_recent := []\<rparr>)
         else Some (hp\<lparr>hp_cb_recent := kept\<rparr>))"

section \<open>One post\<close>

definition resolve_publish_url :: "hook_config \<Rightarrow> pystr" where
  "resolve_publish_url cfg =
     (if hc_publish_url cfg \<noteq> [] then hc_publish_url cfg
      else if hc_events_url cfg = [] then []
      else
        (let base = rstrip_by (\<lambda>c. c = CHR ''/'') (hc_events_url cfg); suffix = ''/internal/events/hook-decision''
         in (if endswith base suffix then take (length base - length suffix) base else base) @ ''/internal/events/publish''))"

definition decision_url :: "hook_config \<Rightarrow> pystr" where
  "decision_url cfg = rstrip_by (\<lambda>c. c = CHR ''/'') (hc_events_url cfg) @ ''/internal/events/hook-decision''"

text \<open>Counting a dropped event; the flag tells whether a warning is due.\<close>

definition count_drop :: "int \<Rightarrow> bool \<times> int \<Rightarrow> bool \<times> (bool \<times> int)" where
  "count_drop rearm w =
     (case w of (warned, n) \<Rightarrow> if \<not> warned \<or> n + 1 \<ge> rearm then (True, (True, 0)) else (False, (warned, n + 1)))"

datatype post_start = NoAuthToken | ShortCircuit | Sending

definition post_begin :: "hook_config \<Rightarrow> int \<Rightarrow> hook_posts \<Rightarrow> post_start \<times> hook_posts" where
  "post_begin cfg now hp =
     (if hc_token cfg = [] then (NoAuthToken, hp\<lparr>hp_auth_warned := snd (count_drop (hc_auth_rearm cfg) (hp_auth_warned hp))\<rparr>)
      else if cb_is_open now hp then (ShortCircuit, hp)
      else (Sending, hp))"

text \<open>What a request meets: a status, an error that is tried once more, or another exception.\<close>

datatype post_reply = Status int | Transient | OtherException

definition last_reply :: "hook_config \<Rightarrow> post_reply \<Rightarrow> post_reply \<Rightarrow> post_reply" where
  "last_reply cfg a b = (if a = Transient \<and> hc_retry cfg then b else a)"

definition post_failed :: "post_reply \<Rightarrow> bool" where
  "post_failed r = (case r of Status c \<Rightarrow> c \<ge> 500 | _ \<Rightarrow> True)"

definition post_end :: "hook_config \<Rightarrow> int \<Rightarrow> post_reply \<Rightarrow> hook_posts \<Rightarrow> hook_posts option" where
  "post_end cfg now r hp =
     (case cb_record cfg now (post_failed r) hp of
        None \<Rightarrow> None
      | Some hp' \<Rightarrow>
          Some (case r of
                  Status c \<Rightarrow>
                    if c \<ge> 400 then hp'\<lparr>hp_status_warned := snd (count_drop (hc_status_rearm cfg) (hp_status_warned hp'))\<rparr>
                    else hp'\<lparr>hp_status_warned := (False, 0)\<rparr>
                | _ \<Rightarrow> hp'))"

section \<open>Scheduling\<close>

definition shed :: "hook_posts \<Rightarrow> hook_posts" where
  "shed hp = hp\<lparr>hp_shed_warned := True\<rparr>"

definition add_task :: "hook_posts \<Rightarrow> hook_posts" where
  "add_task hp = hp\<lparr>hp_inflight := hp_inflight hp @ [hp_next hp], hp_next := Suc (hp_next hp)\<rparr>"

definition add_future :: "hook_posts \<Rightarrow> hook_posts" where
  "add_future hp = hp\<lparr>hp_inflight_cf := hp_inflight_cf hp @ [hp_next hp], hp_next := Suc (hp_next hp)\<rparr>"

text \<open>\<open>on_loop\<close> tells whether the calling thread runs an event loop, \<open>bound\<close> whether an open one was bound.\<close>

definition schedule_post :: "hook_config \<Rightarrow> bool \<Rightarrow> hook_posts \<Rightarrow> bool \<times> hook_posts" where
  "schedule_post cfg on_loop hp =
     (if hc_events_url cfg = [] then (False, hp)
      else if int (length (hp_inflight hp)) \<ge> hc_max_inflight cfg then (False, shed hp)
      else if \<not> on_loop then (False, hp)
      else (True, add_task hp))"

definition event_envelope :: "pystr \<Rightarrow> payload \<Rightarrow> pystr option \<Rightarrow> int \<Rightarrow> pystr \<Rightarrow> payload" where
  "event_envelope event_type body agent_id version ts =
     [(''type'', PStr event_type), (''version'', PInt version), (''id'', PStr ''0''), (''ts'', PStr ts),
      (''agent_id'', (case agent_id of None \<Rightarrow> PNone | Some a \<Rightarrow> PStr a)), (''payload'', PDict body)]"

text \<open>\<open>validator\<close> tells whether the schema module could be imported.\<close>

definition schedule_event_post :: "hook_config \<Rightarrow> bool \<Rightarrow> bool \<Rightarrow> bool \<Rightarrow> payload \<Rightarrow> hook_posts \<Rightarrow> bool \<times> hook_posts" where
  "schedule_event_post cfg validator on_loop bound env hp =
     (if resolve_publish_url cfg = [] then (False, hp\<lparr>hp_url_unset_warned := True\<rparr>)
      else if validator \<and> validate_envelope env \<noteq> VOk then (False, hp)
      else if int (length (hp_inflight hp)) + int (length (hp_inflight_cf hp)) \<ge> hc_max_inflight cfg then (False, shed hp)
      else if on_loop then (True, add_task hp)
      else if bound then (True, add_future hp)
      else (False, hp\<lparr>hp_no_loop_warned := True\<rparr>))"

definition post_done :: "hook_config \<Rightarrow> nat \<Rightarrow> hook_posts \<Rightarrow> hook_posts" where
  "post_done cfg t hp =
     (let l = removeAll t (hp_inflight hp)
      in hp\<lparr>hp_inflight := l, hp_shed_warned := (if int (length l) < hc_max_inflight cfg div 2 then False else hp_shed_warned hp)\<rparr>)"

definition cf_done :: "nat \<Rightarrow> hook_posts \<Rightarrow> hook_posts" where
  "cf_done t hp = hp\<lparr>hp_inflight_cf := removeAll t (hp_inflight_cf hp)\<rparr>"

section \<open>Runs\<close>

text \<open>With the state comes the trace: the time and the outcome, failed or not, of every post that ended.\<close>

inductive hook_run :: "hook_config \<Rightarrow> hook_posts \<Rightarrow> (int \<times> bool) list \<Rightarrow> bool" for cfg where
  hr_start: "hook_run cfg init_hook_posts []"
| hr_post: "hook_run cfg hp tr \<Longrightarrow> hook_run cfg (snd (schedule_post cfg on_loop hp)) tr"
| hr_event: "hook_run cfg hp tr \<Longrightarrow> hook_run cfg (snd (schedule_event_post cfg validator on_loop bound env hp)) tr"
| hr_begin: "hook_run cfg hp tr \<Longrightarrow> hook_run cfg (snd (post_begin cfg now hp)) tr"
| hr_end: "hook_run cfg hp tr \<Longrightarrow> post_end cfg now r hp = Some hp' \<Longrightarrow> hook_run cfg hp' (tr @ [(now, post_failed r)])"
| hr_done: "hook_run cfg hp tr \<Longrightarrow> hook_run cfg (post_done cfg t hp) tr"
| hr_cf_done: "hook_run cfg hp tr \<Longrightarrow> hook_run cfg (cf_done t hp) tr"

text \<open>The last \<open>n\<close> elements.\<close>

definition lastn :: "nat \<Rightarrow> 'a list \<Rightarrow> 'a list" where
  "lastn n xs = drop (length xs - n) xs"

lemma lastn_snoc: "n > 0 \<Longrightarrow> lastn n (lastn n xs @ [x]) = lastn n (xs @ [x])"
  by (cases "length xs < n") (auto simp: lastn_def Suc_diff_le)

lemma length_lastn [simp]: "length (lastn n xs) = min n (length xs)"
  by (simp add: lastn_def)

text \<open>What a trace alone says of the breaker: the outcomes since it last opened, none of them forgotten, and until when it is
  open. It opens with the outcome that makes a full window of them reach the ratio, and with no other.\<close>

definition opens :: "hook_config \<Rightarrow> bool list \<Rightarrow> bool" where
  "opens cfg outcomes =
     (nat (hc_cb_window cfg) \<le> length outcomes \<and> too_many (hc_cb_ratio cfg) (lastn (nat (hc_cb_window cfg)) outcomes))"

definition outcome_step :: "hook_config \<Rightarrow> bool list \<times> int \<Rightarrow> int \<times> bool \<Rightarrow> bool list \<times> int" where
  "outcome_step cfg st x =
     (case st of (since, until) \<Rightarrow> case x of (now, failed) \<Rightarrow>
        if opens cfg (since @ [failed]) then ([], now + hc_cb_cooldown cfg) else (since @ [failed], until))"

definition since_open :: "hook_config \<Rightarrow> (int \<times> bool) list \<Rightarrow> bool list \<times> int" where
  "since_open cfg tr = foldl (outcome_step cfg) ([], 0) tr"

definition hook_slots_ok :: "hook_config \<Rightarrow> hook_posts \<Rightarrow> bool" where
  "hook_slots_ok cfg hp =
     (int (length (hp_inflight hp)) \<le> max 0 (hc_max_inflight cfg) \<and> int (length (hp_inflight_cf hp)) \<le> max 0 (hc_max_inflight cfg) \<and>
      distinct (hp_inflight hp @ hp_inflight_cf hp) \<and> (\<forall>t\<in>set (hp_inflight hp @ hp_inflight_cf hp). t < hp_next hp))"

definition breaker_ok :: "hook_config \<Rightarrow> hook_posts \<Rightarrow> (int \<times> bool) list \<Rightarrow> bool" where
  "breaker_ok cfg hp tr =
     (hp_cb_recent hp = lastn (nat (hc_cb_window cfg)) (fst (since_open cfg tr)) \<and> hp_cb_open_until hp = snd (since_open cfg tr))"

lemma cb_record_frame:
  "cb_record cfg now failed hp = Some hp' \<Longrightarrow>
     hp_inflight hp' = hp_inflight hp \<and> hp_inflight_cf hp' = hp_inflight_cf hp \<and> hp_next hp' = hp_next hp"
  by (auto simp: cb_record_def Let_def split: if_splits)

lemma post_end_frame:
  assumes "post_end cfg now r hp = Some hp'"
  shows "hp_inflight hp' = hp_inflight hp" "hp_inflight_cf hp' = hp_inflight_cf hp" "hp_next hp' = hp_next hp"
    "\<exists>hp1. cb_record cfg now (post_failed r) hp = Some hp1 \<and> hp_cb_recent hp' = hp_cb_recent hp1 \<and> hp_cb_open_until hp' = hp_cb_open_until hp1"
proof -
  obtain hp1 where hp1: "cb_record cfg now (post_failed r) hp = Some hp1"
    using assms by (auto simp: post_end_def split: option.splits)
  show "hp_inflight hp' = hp_inflight hp" "hp_inflight_cf hp' = hp_inflight_cf hp" "hp_next hp' = hp_next hp"
    using cb_record_frame [OF hp1] assms hp1 by (auto simp: post_end_def split: post_reply.splits if_splits)
  show "\<exists>hp1. cb_record cfg now (post_failed r) hp = Some hp1 \<and> hp_cb_recent hp' = hp_cb_recent hp1 \<and> hp_cb_open_until hp' = hp_cb_open_until hp1"
    using assms hp1 by (auto simp: post_end_def split: post_reply.splits if_splits)
qed

lemma slots_add: "hook_slots_ok cfg hp \<Longrightarrow> int (length (hp_inflight hp)) < hc_max_inflight cfg \<Longrightarrow> hook_slots_ok cfg (add_task hp)"
  "hook_slots_ok cfg hp \<Longrightarrow> int (length (hp_inflight_cf hp)) < hc_max_inflight cfg \<Longrightarrow> hook_slots_ok cfg (add_future hp)"
  by (auto simp: hook_slots_ok_def add_task_def add_future_def intro: less_SucI)

lemma slots_remove: "hook_slots_ok cfg hp \<Longrightarrow> hook_slots_ok cfg (post_done cfg t hp)" "hook_slots_ok cfg hp \<Longrightarrow> hook_slots_ok cfg (cf_done t hp)"
proof -
  have le: "int (length (removeAll t xs)) \<le> int (length xs)" for xs by (simp add: removeAll_filter_not_eq)
  show "hook_slots_ok cfg hp \<Longrightarrow> hook_slots_ok cfg (post_done cfg t hp)" "hook_slots_ok cfg hp \<Longrightarrow> hook_slots_ok cfg (cf_done t hp)"
    by (auto simp: hook_slots_ok_def post_done_def cf_done_def Let_def distinct_removeAll intro: order_trans [OF le])
qed

lemma slots_cong:
  "hp_inflight hp' = hp_inflight hp \<Longrightarrow> hp_inflight_cf hp' = hp_inflight_cf hp \<Longrightarrow> hp_next hp' = hp_next hp \<Longrightarrow> hook_slots_ok cfg hp' = hook_slots_ok cfg hp"
  by (simp add: hook_slots_ok_def)

lemma slots_schedule: "hook_slots_ok cfg hp \<Longrightarrow> hook_slots_ok cfg (snd (schedule_post cfg on_loop hp))"
  "hook_slots_ok cfg hp \<Longrightarrow> hook_slots_ok cfg (snd (schedule_event_post cfg validator on_loop bound env hp))"
  using slots_add [of cfg hp] slots_cong [of "shed hp" hp]
  by (auto simp: schedule_post_def schedule_event_post_def shed_def hook_slots_ok_def)

lemma breaker_frame:
  "breaker_ok cfg (snd (schedule_post cfg on_loop hp)) tr = breaker_ok cfg hp tr"
  "breaker_ok cfg (snd (schedule_event_post cfg validator on_loop bound env hp)) tr = breaker_ok cfg hp tr"
  "breaker_ok cfg (snd (post_begin cfg now hp)) tr = breaker_ok cfg hp tr"
  "breaker_ok cfg (post_done cfg t hp) tr = breaker_ok cfg hp tr" "breaker_ok cfg (cf_done t hp) tr = breaker_ok cfg hp tr"
  by (simp_all add: breaker_ok_def schedule_post_def schedule_event_post_def post_begin_def post_done_def cf_done_def shed_def
      add_task_def add_future_def Let_def)

lemma breaker_record:
  assumes "breaker_ok cfg hp tr" "hc_cb_window cfg > 0"
  shows "\<exists>hp'. cb_record cfg now failed hp = Some hp' \<and> breaker_ok cfg hp' (tr @ [(now, failed)])"
proof -
  let ?n = "nat (hc_cb_window cfg)" let ?hist = "fst (since_open cfg tr)" let ?kept = "lastn ?n (?hist @ [failed])"
  have n: "?n > 0" using assms(2) by simp
  have kept: "drop (nat (int (length (hp_cb_recent hp @ [failed])) - hc_cb_window cfg)) (hp_cb_recent hp @ [failed]) = ?kept"
  proof -
    have "nat (int (length xs) - hc_cb_window cfg) = length xs - ?n" for xs :: "bool list" using assms(2) by linarith
    then have "drop (nat (int (length xs) - hc_cb_window cfg)) xs = lastn ?n xs" for xs :: "bool list" by (simp only: lastn_def)
    moreover have "hp_cb_recent hp = lastn ?n ?hist" using assms(1) by (simp add: breaker_ok_def)
    ultimately show ?thesis using lastn_snoc [OF n, of ?hist failed] by (simp only:)
  qed
  have rec: "cb_record cfg now failed hp =
      (if int (length ?kept) < hc_cb_window cfg then Some (hp\<lparr>hp_cb_recent := ?kept\<rparr>)
       else if ?kept = [] then None
       else if too_many (hc_cb_ratio cfg) ?kept then Some (hp\<lparr>hp_cb_open_until := now + hc_cb_cooldown cfg, hp_cb_recent := []\<rparr>)
       else Some (hp\<lparr>hp_cb_recent := ?kept\<rparr>))"
    unfolding cb_record_def Let_def kept ..
  have ne: "?kept \<noteq> []" using n by (simp add: lastn_def)
  have step: "since_open cfg (tr @ [(now, failed)]) =
      (if opens cfg (?hist @ [failed]) then ([], now + hc_cb_cooldown cfg) else (?hist @ [failed], snd (since_open cfg tr)))"
    by (simp add: since_open_def outcome_step_def case_prod_beta)
  show ?thesis
  proof (cases "opens cfg (?hist @ [failed])")
    case True
    then have "cb_record cfg now failed hp = Some (hp\<lparr>hp_cb_open_until := now + hc_cb_cooldown cfg, hp_cb_recent := []\<rparr>)"
      using rec ne by (simp add: min_def opens_def)
    then show ?thesis using True by (simp add: breaker_ok_def step lastn_def)
  next
    case False
    then have "cb_record cfg now failed hp = Some (hp\<lparr>hp_cb_recent := ?kept\<rparr>)" using rec ne by (auto simp: opens_def)
    then show ?thesis using False assms(1) by (simp add: breaker_ok_def step)
  qed
qed

lemma breaker_end:
  assumes "breaker_ok cfg hp tr" "hc_cb_window cfg > 0"
  shows "\<exists>hp'. post_end cfg now r hp = Some hp' \<and> breaker_ok cfg hp' (tr @ [(now, post_failed r)])"
proof -
  obtain hp1 where hp1: "cb_record cfg now (post_failed r) hp = Some hp1" "breaker_ok cfg hp1 (tr @ [(now, post_failed r)])"
    using breaker_record [OF assms] by blast
  obtain hp' where hp': "post_end cfg now r hp = Some hp'" using hp1(1) by (simp add: post_end_def)
  show ?thesis using post_end_frame(4) [OF hp'] hp1 hp' by (auto simp: breaker_ok_def)
qed

lemma hook_run_inv: "hook_run cfg hp tr \<Longrightarrow> hc_cb_window cfg > 0 \<Longrightarrow> hook_slots_ok cfg hp \<and> breaker_ok cfg hp tr"
proof (induction rule: hook_run.induct)
  case hr_start
  then show ?case by (simp add: init_hook_posts_def hook_slots_ok_def breaker_ok_def lastn_def since_open_def)
next
  case (hr_end hp tr now r hp')
  have "hook_slots_ok cfg hp'" using hr_end post_end_frame(1-3) [OF hr_end.hyps(2)] slots_cong by blast
  then show ?case using breaker_end [of cfg hp tr now r] hr_end by auto
next
  case (hr_begin hp tr now)
  then show ?case using breaker_frame(3) [of cfg now hp tr] slots_cong [of "snd (post_begin cfg now hp)" hp cfg]
    by (auto simp: post_begin_def)
qed (auto simp: slots_schedule slots_remove breaker_frame)

text \<open>Since it last opened no full window has reached the ratio.\<close>

lemma since_open_below: "k \<le> length (fst (since_open cfg tr)) \<Longrightarrow> 0 < k \<Longrightarrow> \<not> opens cfg (take k (fst (since_open cfg tr)))"
proof (induction tr arbitrary: k rule: rev_induct)
  case (snoc x tr)
  obtain now failed where x: "x = (now, failed)" by (cases x)
  have step: "since_open cfg (tr @ [x]) =
      (if opens cfg (fst (since_open cfg tr) @ [failed]) then ([], now + hc_cb_cooldown cfg)
       else (fst (since_open cfg tr) @ [failed], snd (since_open cfg tr)))"
    by (simp add: since_open_def outcome_step_def case_prod_beta x)
  show ?case using snoc by (auto simp: step le_Suc_eq split: if_splits)
qed (simp add: since_open_def)

text \<open>C36: However posts, events of other threads, replies and callbacks interleave: each of the two sets of posts under way
  stays within the cap; recording an outcome never fails, and the breaker is as the outcomes of the whole run say: it
  remembers as many of the outcomes since it last opened as its window holds, it opened exactly with the outcomes that
  made a full window of these reach the ratio, and a post is held back exactly while the cool-down since the last
  opening lasts.\<close>

theorem hook_posts_reachable:
  assumes "hook_run cfg hp tr" "hc_cb_window cfg > 0"
  shows "int (length (hp_inflight hp)) \<le> max 0 (hc_max_inflight cfg) \<and> int (length (hp_inflight_cf hp)) \<le> max 0 (hc_max_inflight cfg) \<and>
    hp_cb_recent hp = lastn (nat (hc_cb_window cfg)) (fst (since_open cfg tr)) \<and>
    (fst (post_begin cfg now hp) = ShortCircuit \<longleftrightarrow> hc_token cfg \<noteq> [] \<and> now < snd (since_open cfg tr)) \<and>
    (\<exists>hp'. post_end cfg now r hp = Some hp' \<and> hp_cb_open_until hp' =
       (if opens cfg (fst (since_open cfg tr) @ [post_failed r]) then now + hc_cb_cooldown cfg else snd (since_open cfg tr)))"
proof -
  have inv: "hook_slots_ok cfg hp" "breaker_ok cfg hp tr" using hook_run_inv [OF assms] by simp_all
  obtain hp' where "post_end cfg now r hp = Some hp'" "breaker_ok cfg hp' (tr @ [(now, post_failed r)])"
    using breaker_end [OF inv(2) assms(2)] by blast
  moreover have "snd (since_open cfg (tr @ [(now, post_failed r)])) =
      (if opens cfg (fst (since_open cfg tr) @ [post_failed r]) then now + hc_cb_cooldown cfg else snd (since_open cfg tr))"
    by (simp add: since_open_def outcome_step_def case_prod_beta)
  ultimately show ?thesis using inv by (auto simp: hook_slots_ok_def breaker_ok_def post_begin_def cb_is_open_def)
qed

definition demo_hook_config :: hook_config where
  "demo_hook_config = \<lparr>hc_events_url = ''http://h/internal/events/hook-decision'', hc_publish_url = [], hc_token = ''t'', hc_max_inflight = 1,
     hc_retry = True, hc_cb_window = 2, hc_cb_ratio = (4, 5), hc_cb_cooldown = 15, hc_auth_rearm = 500, hc_status_rearm = 500\<rparr>"

theorem hook_posts_reachable_witness:
  "\<exists>hp hp'. hook_run demo_hook_config hp [(5, False), (6, True)] \<and> post_end demo_hook_config 7 Transient hp = Some hp' \<and>
     hp_cb_open_until hp' = 22"
proof -
  let ?cfg = demo_hook_config
  define hp1 where "hp1 = the (post_end ?cfg 5 (Status 204) init_hook_posts)"
  define hp2 where "hp2 = the (post_end ?cfg 6 (Status 503) hp1)"
  have p: "post_end ?cfg 5 (Status 204) init_hook_posts = Some hp1" "post_end ?cfg 6 (Status 503) hp1 = Some hp2"
    "hc_cb_window ?cfg > 0" "hc_cb_cooldown ?cfg = 15"
    "opens ?cfg (fst (since_open ?cfg [(5, False), (6, True)]) @ [post_failed Transient])"
    unfolding hp2_def hp1_def by code_simp+
  have "hook_run ?cfg hp1 [(5, False)]" using hr_end [OF hr_start p(1)] by (simp add: post_failed_def)
  from hr_end [OF this p(2)] have run: "hook_run ?cfg hp2 [(5, False), (6, True)]" by (simp add: post_failed_def)
  obtain hp' where "post_end ?cfg 7 Transient hp2 = Some hp'" "hp_cb_open_until hp' = 22"
    using hook_posts_reachable [OF run p(3), where now = 7 and r = Transient] p(4,5) by auto
  then show ?thesis using run by blast
qed

text \<open>The cap is described as one for all posts; hook decisions count only the tasks, so a future of another thread and a task
  are under way at the same time with a cap of one.\<close>

lemma cap_exceeded:
  "\<exists>hp. hook_run demo_hook_config hp [] \<and>
     int (length (hp_inflight hp)) + int (length (hp_inflight_cf hp)) > hc_max_inflight demo_hook_config"
proof -
  let ?e = "event_envelope ''stream.gap'' [] None 1 ''t''"
  let ?hp = "snd (schedule_post demo_hook_config True (snd (schedule_event_post demo_hook_config False False True ?e init_hook_posts)))"
  have "hook_run demo_hook_config ?hp []" by (intro hr_post hr_event hr_start)
  moreover have "int (length (hp_inflight ?hp)) + int (length (hp_inflight_cf ?hp)) > hc_max_inflight demo_hook_config" by code_simp
  ultimately show ?thesis by blast
qed

text \<open>An address that already names the endpoint is cut for events but not for hook decisions.\<close>

lemma decision_url_doubled:
  "resolve_publish_url demo_hook_config = ''http://h/internal/events/publish''"
  "decision_url demo_hook_config = ''http://h/internal/events/hook-decision/internal/events/hook-decision''"
  by code_simp+

section \<open>What a backend sends the harness takes\<close>

definition capped :: "payload \<Rightarrow> bool" where
  "capped body = list_all (\<lambda>(k, v). case v of PStr s \<Rightarrow> length s \<le> MAX_EVENT_PUBLISH_FIELD_BYTES | _ \<Rightarrow> True) body"

lemma capped_id: "capped body \<Longrightarrow> map (\<lambda>(k, v). (k, cap_value v)) body = body"
proof (induction body)
  case (Cons e body)
  obtain k v where e: "e = (k, v)" by (cases e)
  then show ?case using Cons by (cases v) (auto simp: capped_def cap_value_def cap_string_def)
qed simp

lemma envelope_get:
  "dict_get (event_envelope ty body agent_id version ts) ''type'' = Some (PStr ty)"
  "dict_get (event_envelope ty body agent_id version ts) ''payload'' = Some (PDict body)"
  "dict_get (event_envelope ty body agent_id version ts) ''version'' = Some (PInt version)"
  "dict_get (event_envelope ty body agent_id version ts) ''id'' = Some (PStr ''0'')"
  "dict_get (event_envelope ty body agent_id version ts) ''ts'' = Some (PStr ts)"
  "dict_get (event_envelope ty body agent_id version ts) ''agent_id'' = Some (case agent_id of None \<Rightarrow> PNone | Some a \<Rightarrow> PStr a)"
  by (simp_all add: event_envelope_def)

text \<open>The identifier and the time the harness puts in do not matter to the validator.\<close>

lemma validate_restamped:
  assumes "validate_envelope (event_envelope ty body agent_id version ts) = VOk" "clock \<noteq> []" "i \<noteq> []"
  shows "validate_envelope (to_dict \<lparr>ev_type = ty, ev_version = version, ev_id = i, ev_ts = clock, ev_agent_id = agent_id, ev_payload = body\<rparr>) = VOk"
    "version \<ge> 1" "ty \<noteq> []"
proof -
  have keys: "missing_key (event_envelope ty body agent_id version ts) ENVELOPE_KEYS = None"
    "missing_key (to_dict \<lparr>ev_type = ty, ev_version = version, ev_id = i, ev_ts = clock, ev_agent_id = agent_id, ev_payload = body\<rparr>) ENVELOPE_KEYS = None"
    by (simp_all add: ENVELOPE_KEYS_def event_envelope_def to_dict_def dict_has_def)
  obtain val where val: "dict_get VALIDATORS ty = Some val" "positive_int (PInt version)" "val body = VOk"
  proof (cases "dict_get VALIDATORS ty")
    case None
    then show thesis using assms(1) keys(1) by (simp add: validate_envelope_def envelope_get)
  next
    case (Some val)
    then have "positive_int (PInt version) \<and> val body = VOk"
      using assms(1) keys(1) by (simp add: validate_envelope_def envelope_get split: if_splits)
    then show thesis using that Some by blast
  qed
  then show "validate_envelope (to_dict \<lparr>ev_type = ty, ev_version = version, ev_id = i, ev_ts = clock, ev_agent_id = agent_id, ev_payload = body\<rparr>) = VOk"
    using keys(2) assms(2,3) by (simp add: validate_envelope_def to_dict_def is_nonempty_str_def str_or_none_def split: option.split)
  show "version \<ge> 1" using val(2) by (simp add: positive_int_def)
  have "dict_get VALIDATORS [] = None" by (simp add: VALIDATORS_def)
  then show "ty \<noteq> []" using val(1) by auto
qed


definition demo_gap :: payload where
  "demo_gap = event_envelope ''stream.gap'' [(''last_seen_id'', PStr ''7''), (''resume_id'', PStr ''9'')] (Some ''iris'') 1 ''t''"


section \<open>The lock and the callback\<close>

text \<open>An event of another thread is dispatched to the event loop, and its callback registered, with the lock held; a
  callback registered on a future that is already finished runs at once, in the same thread, and takes the same
  lock, which is not re-entrant. The thread is at one of these points, and the future finished or not.\<close>

datatype worker = Idle | Holding | Dispatched | Waiting | Registered | Returned

datatype lock_owner = Free | ByWorker | ByLoop

record cf_race =
  cr_worker :: worker
  cr_lock :: lock_owner
  cr_finished :: bool
  cr_in_set :: bool

definition init_race :: cf_race where
  "init_race = \<lparr>cr_worker = Idle, cr_lock = Free, cr_finished = False, cr_in_set = False\<rparr>"

inductive cf_step :: "cf_race \<Rightarrow> cf_race \<Rightarrow> bool" where
  cs_acquire: "cr_worker r = Idle \<Longrightarrow> cr_lock r = Free \<Longrightarrow> cf_step r (r\<lparr>cr_worker := Holding, cr_lock := ByWorker\<rparr>)"
| cs_dispatch: "cr_worker r = Holding \<Longrightarrow> cf_step r (r\<lparr>cr_worker := Dispatched, cr_in_set := True\<rparr>)"
| cs_finish: "cr_worker r \<notin> {Idle, Holding} \<Longrightarrow> cf_step r (r\<lparr>cr_finished := True\<rparr>)"
| cs_register: "cr_worker r = Dispatched \<Longrightarrow> \<not> cr_finished r \<Longrightarrow> cf_step r (r\<lparr>cr_worker := Registered\<rparr>)"
| cs_run_now: "cr_worker r = Dispatched \<Longrightarrow> cr_finished r \<Longrightarrow> cf_step r (r\<lparr>cr_worker := Waiting\<rparr>)"
| cs_callback_here: "cr_worker r = Waiting \<Longrightarrow> cr_lock r = Free \<Longrightarrow> cf_step r (r\<lparr>cr_worker := Registered, cr_in_set := False\<rparr>)"
| cs_release: "cr_worker r = Registered \<Longrightarrow> cf_step r (r\<lparr>cr_worker := Returned, cr_lock := Free\<rparr>)"
| cs_callback_loop: "cr_worker r = Returned \<Longrightarrow> cr_finished r \<Longrightarrow> cr_lock r = Free \<Longrightarrow> cf_step r (r\<lparr>cr_in_set := False\<rparr>)"
| cs_loop_locks: "cr_lock r = Free \<Longrightarrow> cf_step r (r\<lparr>cr_lock := ByLoop\<rparr>)"
| cs_loop_unlocks: "cr_lock r = ByLoop \<Longrightarrow> cf_step r (r\<lparr>cr_lock := Free\<rparr>)"

definition stuck :: "cf_race \<Rightarrow> bool" where
  "stuck r = (cr_worker r = Waiting \<and> cr_lock r = ByWorker)"

lemma stuck_step: "cf_step r r' \<Longrightarrow> stuck r \<Longrightarrow> stuck r'"
  by (induction rule: cf_step.induct) (auto simp: stuck_def)

lemma stuck_star: "cf_step\<^sup>*\<^sup>* r r' \<Longrightarrow> stuck r \<Longrightarrow> stuck r'"
  by (induction rule: rtranclp_induct) (auto intro: stuck_step)

text \<open>C38: The event loop can finish the post before the other thread registers its callback, as it does when a post returns
  at once for want of a token or because the breaker is open. From then on the thread waits for a lock it holds itself:
  in every later state the lock is taken and the post still counted, so no thread schedules another post.\<close>

theorem callback_deadlock:
  "\<exists>r. cf_step\<^sup>*\<^sup>* init_race r \<and> stuck r \<and> {r'. cf_step\<^sup>*\<^sup>* r r'} \<subseteq> {r'. cr_lock r' = ByWorker \<and> cr_worker r' = Waiting}"
proof -
  define r1 where "r1 = init_race\<lparr>cr_worker := Holding, cr_lock := ByWorker\<rparr>"
  define r2 where "r2 = r1\<lparr>cr_worker := Dispatched, cr_in_set := True\<rparr>"
  define r3 where "r3 = r2\<lparr>cr_finished := True\<rparr>"
  define r4 where "r4 = r3\<lparr>cr_worker := Waiting\<rparr>"
  have "cf_step init_race r1" unfolding r1_def by (rule cs_acquire) (simp_all add: init_race_def)
  moreover have "cf_step r1 r2" unfolding r2_def by (rule cs_dispatch) (simp add: r1_def)
  moreover have "cf_step r2 r3" unfolding r3_def by (rule cs_finish) (simp add: r2_def)
  moreover have "cf_step r3 r4" unfolding r4_def by (rule cs_run_now) (simp_all add: r3_def r2_def)
  ultimately have "cf_step\<^sup>*\<^sup>* init_race r4" by (intro rtranclp.rtrancl_into_rtrancl [OF rtranclp.rtrancl_into_rtrancl
      [OF rtranclp.rtrancl_into_rtrancl [OF r_into_rtranclp]]])
  moreover have "stuck r4" by (simp add: stuck_def r4_def r3_def r2_def r1_def)
  ultimately show ?thesis using stuck_star [of r4] unfolding stuck_def by blast
qed

end
