(* ===== verification/Mcp_Auth.thy ===== *)
theory Mcp_Auth
  imports Harness_Utils
begin

text \<open>
  Model of what stands before the MCP tool servers: the bearer check of \<open>shared/mcp_auth.py\<close>, the capped reading of a
  body in \<open>shared/mcp_body_cap.py\<close> and the redaction of arguments in \<open>shared/mcp_audit.py\<close>. Header values are
  byte strings, the bytes as characters; a decoded token is a list of code points.
\<close>

section \<open>Bytes and code points\<close>

text \<open>\<open>bytes.lower\<close> and \<open>bytes.strip\<close> know ASCII only.\<close>

definition ascii_lower :: "pystr \<Rightarrow> pystr" where
  "ascii_lower s = map (\<lambda>c. let n = (of_char c :: nat) in if 65 \<le> n \<and> n \<le> 90 then char_of (n + 32) else c) s"

definition ascii_space :: "char \<Rightarrow> bool" where
  "ascii_space c = (let n = (of_char c :: nat) in (9 \<le> n \<and> n \<le> 13) \<or> n = 32)"

text \<open>Strict UTF-8: shortest forms, no surrogates, nothing above U+10FFFF.\<close>

definition cont :: "nat \<Rightarrow> bool" where
  "cont b = (128 \<le> b \<and> b \<le> 191)"

fun utf8_decode :: "nat list \<Rightarrow> nat list option" where
  "utf8_decode [] = Some []"
| "utf8_decode (a # s) =
     (if a < 128 then map_option (\<lambda>r. a # r) (utf8_decode s)
      else
        (case s of
           [] \<Rightarrow> None
         | b # s2 \<Rightarrow>
             if 194 \<le> a \<and> a \<le> 223 \<and> cont b then map_option (\<lambda>r. ((a - 192) * 64 + (b - 128)) # r) (utf8_decode s2)
             else
               (case s2 of
                  [] \<Rightarrow> None
                | c # s3 \<Rightarrow>
                    if 224 \<le> a \<and> a \<le> 239 \<and> cont b \<and> cont c \<and> (a = 224 \<longrightarrow> 160 \<le> b) \<and> (a = 237 \<longrightarrow> b \<le> 159)
                    then map_option (\<lambda>r. ((a - 224) * 4096 + (b - 128) * 64 + (c - 128)) # r) (utf8_decode s3)
                    else
                      (case s3 of
                         [] \<Rightarrow> None
                       | d # s4 \<Rightarrow>
                           if 240 \<le> a \<and> a \<le> 244 \<and> cont b \<and> cont c \<and> cont d \<and> (a = 240 \<longrightarrow> 144 \<le> b) \<and> (a = 244 \<longrightarrow> b \<le> 143)
                           then map_option (\<lambda>r. ((a - 240) * 262144 + (b - 128) * 4096 + (c - 128) * 64 + (d - 128)) # r) (utf8_decode s4)
                           else None))))"

text \<open>\<open>str.strip\<close> on code points.\<close>

definition wide_space :: "nat \<Rightarrow> bool" where
  "wide_space n =
     ((9 \<le> n \<and> n \<le> 13) \<or> (28 \<le> n \<and> n \<le> 32) \<or> n = 133 \<or> n = 160 \<or> n = 5760 \<or> (8192 \<le> n \<and> n \<le> 8202) \<or> n = 8232 \<or> n = 8233 \<or>
      n = 8239 \<or> n = 8287 \<or> n = 12288)"

definition wide_strip :: "nat list \<Rightarrow> nat list" where
  "wide_strip s = rev (dropWhile wide_space (rev (dropWhile wide_space s)))"

definition codes :: "pystr \<Rightarrow> nat list" where
  "codes s = map of_char s"

text \<open>\<open>hmac.compare_digest\<close> on two strings: \<^const>\<open>None\<close> unless both are ASCII.\<close>

definition compare_codes :: "nat list \<Rightarrow> nat list \<Rightarrow> bool option" where
  "compare_codes a b = (if list_all (\<lambda>n. n < 128) (a @ b) then Some (a = b) else None)"

section \<open>The middleware\<close>

record scope =
  sc_type :: pystr
  sc_path :: pystr
  sc_method :: "pystr option"
  sc_headers :: "(pystr \<times> pystr) list"

datatype mcp_reply = Forward | Health | Unauthorized pystr | BadEncoding | Info | Raises

definition auth_disabled_escape_hatch :: "(pystr \<rightharpoonup> pystr) \<Rightarrow> bool" where
  "auth_disabled_escape_hatch env = str_in (lower (strip (env_get env ''MCP_TOOL_AUTH_DISABLED''))) [''1'', ''true'', ''yes'', ''on'']"

definition auth_token :: "(pystr \<rightharpoonup> pystr) \<Rightarrow> pystr" where
  "auth_token env = strip (env_get env ''MCP_TOOL_AUTH_TOKEN'')"

definition method_of :: "scope \<Rightarrow> pystr" where
  "method_of sc = (case sc_method sc of Some m \<Rightarrow> m | None \<Rightarrow> ''GET'')"

definition bearer :: "pystr \<Rightarrow> bool" where
  "bearer v = startswith (ascii_lower v) ''bearer ''"

text \<open>The values are tried in order; the first that matches, does not decode or cannot be compared decides.\<close>

datatype token_check = Matched | NoMatch | NotUtf8 | CannotCompare

fun check_tokens :: "pystr \<Rightarrow> pystr list \<Rightarrow> token_check" where
  "check_tokens token [] = NoMatch"
| "check_tokens token (v # vs) =
     (if \<not> bearer v then check_tokens token vs
      else
        (case utf8_decode (codes (drop 7 v)) of
           None \<Rightarrow> NotUtf8
         | Some t \<Rightarrow>
             (case compare_codes (wide_strip t) (codes token) of
                None \<Rightarrow> CannotCompare
              | Some True \<Rightarrow> Matched
              | Some False \<Rightarrow> check_tokens token vs)))"

definition MALFORMED :: pystr where
  "MALFORMED = ''missing-or-malformed-authorization-header''"

definition middleware :: "(pystr \<rightharpoonup> pystr) \<Rightarrow> bool \<Rightarrow> scope \<Rightarrow> mcp_reply" where
  "middleware env info sc =
     (if sc_type sc \<noteq> ''http'' then Forward
      else if str_in (sc_path sc) [''/health'', ''/health/live'', ''/health/ready''] \<and> str_in (method_of sc) [''GET'', ''HEAD''] then Health
      else if auth_disabled_escape_hatch env then Forward
      else if auth_token env = [] then Unauthorized ''auth-not-configured''
      else
        (let values = map snd (filter (\<lambda>(k, v). k = ''authorization'') (sc_headers sc));
             non_empty = filter (\<lambda>v. \<not> list_all ascii_space v) values
         in if non_empty = [] then Unauthorized MALFORMED
            else
              (case check_tokens (auth_token env) non_empty of
                 NotUtf8 \<Rightarrow> BadEncoding
               | CannotCompare \<Rightarrow> Raises
               | NoMatch \<Rightarrow> Unauthorized (if list_ex bearer non_empty then ''invalid-token'' else MALFORMED)
               | Matched \<Rightarrow> if info \<and> sc_path sc = ''/info'' \<and> method_of sc = ''GET'' then Info else Forward)))"

section \<open>Warnings about a closed server\<close>

record fail_closed =
  fc_warned :: "(bool \<times> bool) list"
  fc_count :: int

definition FAIL_CLOSED_REARM_EVERY :: int where
  "FAIL_CLOSED_REARM_EVERY = 500"

text \<open>The flag tells whether this request may log a warning; what is logged depends on the posture.\<close>

definition posture_step :: "bool \<Rightarrow> bool \<Rightarrow> fail_closed \<Rightarrow> bool \<times> fail_closed" where
  "posture_step token disabled fc =
     (let key = (token, disabled);
          first = key \<notin> set (fc_warned fc);
          n = (if \<not> token \<and> \<not> disabled then fc_count fc + 1 else fc_count fc);
          due = (\<not> token \<and> \<not> disabled \<and> n \<ge> FAIL_CLOSED_REARM_EVERY);
          warn = (first \<or> due);
          warned = (if due then removeAll key (fc_warned fc) else fc_warned fc)
      in (warn, \<lparr>fc_warned = (if warn then List.insert key warned else warned), fc_count = (if due then 0 else n)\<rparr>))"

datatype posture_log = Quiet | RefusingRequests | AuthDisabled

definition posture_logs :: "bool \<Rightarrow> bool \<Rightarrow> bool \<Rightarrow> posture_log" where
  "posture_logs warn token disabled =
     (if \<not> warn then Quiet
      else if \<not> token \<and> \<not> disabled then RefusingRequests
      else if \<not> token \<and> disabled then AuthDisabled
      else Quiet)"

section \<open>The body and the audit line\<close>

datatype body_read = Body "nat list" | BodyTooLarge | ParseError

text \<open>\<open>broken\<close> tells whether the stream raised after these pieces.\<close>

fun read_capped_body :: "int \<Rightarrow> nat list \<Rightarrow> nat list list \<Rightarrow> bool \<Rightarrow> body_read" where
  "read_capped_body cap buf [] broken = (if broken then ParseError else Body buf)"
| "read_capped_body cap buf (chunk # chunks) broken =
     (if chunk = [] then read_capped_body cap buf chunks broken
      else if int (length buf) + int (length chunk) > cap then BodyTooLarge
      else read_capped_body cap (buf @ chunk) chunks broken)"

definition SECRET_LIKE :: "pystr list" where
  "SECRET_LIKE = [''values'', ''manifest'', ''data'', ''stringData'', ''string_data'', ''token'', ''password'', ''secret'']"

definition dict_mark :: "'a list \<Rightarrow> pyval" where
  "dict_mark d = PStr (''<dict len='' @ str_of_nat (length d) @ ''>'')"

definition redact_value :: "pystr \<Rightarrow> pyval \<Rightarrow> pyval" where
  "redact_value k v =
     (if str_in k SECRET_LIKE
      then (case v of
              PDict d \<Rightarrow> dict_mark d
            | PStr s \<Rightarrow> PStr (''<str len='' @ str_of_nat (length s) @ ''>'')
            | PNone \<Rightarrow> PNone
            | PBool _ \<Rightarrow> PStr ''<bool>''
            | PInt _ \<Rightarrow> PStr ''<int>''
            | PFloat _ \<Rightarrow> PStr ''<float>''
            | PList _ \<Rightarrow> PStr ''<list>'')
      else (case v of
              PDict d \<Rightarrow> dict_mark d
            | PList xs \<Rightarrow> PStr (''<list len='' @ str_of_nat (length xs) @ ''>'')
            | _ \<Rightarrow> v))"

definition redact_args :: "(pystr \<times> pyval) list \<Rightarrow> (pystr \<times> pyval) list" where
  "redact_args args = map (\<lambda>(k, v). (k, redact_value k v)) args"

section \<open>Who gets through\<close>

definition presents :: "pystr \<Rightarrow> scope \<Rightarrow> bool" where
  "presents token sc =
     (\<exists>v. (''authorization'', v) \<in> set (sc_headers sc) \<and> bearer v \<and> map_option wide_strip (utf8_decode (codes (drop 7 v))) = Some (codes token))"

lemma check_tokens_matched:
  "check_tokens token vs = Matched \<Longrightarrow>
     \<exists>v\<in>set vs. bearer v \<and> map_option wide_strip (utf8_decode (codes (drop 7 v))) = Some (codes token)"
  by (induction vs) (auto simp: compare_codes_def split: if_splits option.splits bool.splits)

lemma bearer_not_blank: "bearer v \<Longrightarrow> \<not> list_all ascii_space v"
proof (cases v)
  case (Cons c s)
  assume "bearer v"
  then have b: "(if 65 \<le> (of_char c :: nat) \<and> of_char c \<le> (90 :: nat) then char_of (of_char c + 32 :: nat) else c) = CHR ''b''"
    using Cons by (simp add: bearer_def startswith_def ascii_lower_def Let_def del: char_of_eq_iff)
  have "\<not> ascii_space c"
  proof
    assume "ascii_space c"
    then have le: "(of_char c :: nat) \<le> 32" by (auto simp: ascii_space_def Let_def)
    then have "c = CHR ''b''" using b by simp
    then show False using le by simp
  qed
  then show ?thesis using Cons by simp
qed (simp add: bearer_def startswith_def ascii_lower_def)

text \<open>C19: A request reaches a tool server, or its description, only with authentication switched off, or with a configured
  token and among its authorization headers one that presents exactly that token; the other requests are answered by
  the middleware. Only the health probes need neither.\<close>

theorem tools_need_token:
  assumes "sc_type sc = ''http''" "middleware env info sc = Forward \<or> middleware env info sc = Info"
  shows "auth_disabled_escape_hatch env \<or> (auth_token env \<noteq> [] \<and> presents (auth_token env) sc)"
proof (cases "auth_disabled_escape_hatch env")
  case False
  let ?vs = "filter (\<lambda>v. \<not> list_all ascii_space v) (map snd (filter (\<lambda>(k, v). k = ''authorization'') (sc_headers sc)))"
  have tok: "auth_token env \<noteq> []" and "check_tokens (auth_token env) ?vs = Matched"
    using assms(2) unfolding middleware_def Let_def if_not_P [OF False] by (simp_all only: assms(1) split: if_split_asm token_check.split_asm) simp_all
  then obtain v where v: "v \<in> set ?vs" "bearer v" "map_option wide_strip (utf8_decode (codes (drop 7 v))) = Some (codes (auth_token env))"
    using check_tokens_matched by blast
  have "(''authorization'', v) \<in> set (sc_headers sc)" using v(1) by auto
  then have "presents (auth_token env) sc" unfolding presents_def using v(2,3) by blast
  then show ?thesis using tok by simp
qed simp

definition demo_scope :: scope where
  "demo_scope = \<lparr>sc_type = ''http'', sc_path = ''/mcp'', sc_method = Some ''POST'',
     sc_headers = [(''authorization'', '' ''), (''authorization'', ''BEARER  s3cret '')]\<rparr>"

theorem tools_need_token_witness:
  "middleware [''MCP_TOOL_AUTH_TOKEN'' \<mapsto> ''s3cret''] True demo_scope = Forward \<and> presents ''s3cret'' demo_scope"
proof -
  let ?env = "[''MCP_TOOL_AUTH_TOKEN'' \<mapsto> ''s3cret'']"
  have e: "sc_type demo_scope = ''http''" "middleware ?env True demo_scope = Forward" "\<not> auth_disabled_escape_hatch ?env"
    "auth_token ?env = ''s3cret''" by code_simp+
  show ?thesis using tools_need_token [of demo_scope ?env True] e by auto
qed

text \<open>Conversely one well-formed header with the token is enough, whatever empty or foreign ones come with it.\<close>

lemma token_gets_through:
  assumes "sc_type sc = ''http''" "auth_token env \<noteq> []" "is_ascii (auth_token env)"
    and others: "\<And>v. (''authorization'', v) \<in> set (sc_headers sc) \<Longrightarrow> bearer v \<Longrightarrow> is_ascii v"
    and "presents (auth_token env) sc"
  shows "middleware env info sc \<in> {Forward, Health, Info}"
proof -
  have asc: "utf8_decode (codes s) = Some (codes s)" if "is_ascii s" for s
    using that by (induction s) (auto simp: codes_def is_ascii_def)
  let ?vs = "filter (\<lambda>v. \<not> list_all ascii_space v) (map snd (filter (\<lambda>(k, v). k = ''authorization'') (sc_headers sc)))"
  obtain v where v: "(''authorization'', v) \<in> set (sc_headers sc)" "bearer v"
      "map_option wide_strip (utf8_decode (codes (drop 7 v))) = Some (codes (auth_token env))"
    using assms(5) unfolding presents_def by blast
  have "check_tokens (auth_token env) vs = Matched"
    if "v \<in> set vs" "\<And>u. u \<in> set vs \<Longrightarrow> bearer u \<Longrightarrow> is_ascii u" for vs
    using that
  proof (induction vs)
    case (Cons u vs)
    show ?case
    proof (cases "bearer u")
      case True
      then have "is_ascii (drop 7 u)" using Cons.prems(2) [of u] by (auto simp: is_ascii_def list_all_iff dest: in_set_dropD)
      then have d: "utf8_decode (codes (drop 7 u)) = Some (codes (drop 7 u))" by (rule asc)
      have small: "list_all (\<lambda>n. n < 128) (wide_strip (codes (drop 7 u)) @ codes (auth_token env))"
        using \<open>is_ascii (drop 7 u)\<close> assms(3)
        by (auto simp: list_all_iff wide_strip_def codes_def is_ascii_def dest!: set_dropWhileD)
      show ?thesis
      proof (cases "wide_strip (codes (drop 7 u)) = codes (auth_token env)")
        case True
        then show ?thesis using \<open>bearer u\<close> d small by (simp add: compare_codes_def)
      next
        case False
        then have "v \<noteq> u" using v(3) d by auto
        then show ?thesis using \<open>bearer u\<close> d small False Cons by (simp add: compare_codes_def)
      qed
    next
      case False
      then show ?thesis using Cons v(2) by auto
    qed
  qed simp
  note matched = this
  have "v \<in> set ?vs" using v(1) bearer_not_blank [OF v(2)] by (force simp: image_iff)
  moreover have "is_ascii u" if "u \<in> set ?vs" "bearer u" for u using that by (intro others) auto
  ultimately have "check_tokens (auth_token env) ?vs = Matched" by (rule matched)
  moreover have "?vs \<noteq> []" using \<open>v \<in> set ?vs\<close> by (metis list.set(1) empty_iff)
  ultimately show ?thesis using assms(1,2) by (simp add: middleware_def Let_def)
qed

text \<open>A token with a character outside ASCII makes the comparison raise, a websocket is never checked, and a server with
  a token whose check is switched off says nothing about it.\<close>

lemma auth_gaps:
  "middleware [''MCP_TOOL_AUTH_TOKEN'' \<mapsto> ''s''] True (demo_scope\<lparr>sc_headers := [(''authorization'', ''bearer '' @ [CHR 0xC3, CHR 0xA9])]\<rparr>) = Raises"
  "middleware [''MCP_TOOL_AUTH_TOKEN'' \<mapsto> ''s''] True (demo_scope\<lparr>sc_type := ''websocket'', sc_headers := []\<rparr>) = Forward"
  "middleware [''MCP_TOOL_AUTH_TOKEN'' \<mapsto> ''s'', ''MCP_TOOL_AUTH_DISABLED'' \<mapsto> ''true''] True (demo_scope\<lparr>sc_headers := []\<rparr>) = Forward"
  "posture_logs warn True True = Quiet"
  by (code_simp, code_simp, code_simp, simp add: posture_logs_def)

section \<open>The warning comes back\<close>

text \<open>The warnings of a number of requests to a server without a token.\<close>

fun closed_requests :: "nat \<Rightarrow> fail_closed \<Rightarrow> bool list \<times> fail_closed" where
  "closed_requests 0 fc = ([], fc)"
| "closed_requests (Suc n) fc =
     (case posture_step False False fc of (w, fc1) \<Rightarrow> (case closed_requests n fc1 of (ws, fc2) \<Rightarrow> (w # ws, fc2)))"

lemma closed_requests_warn:
  "closed_requests n fc = (ws, fc') \<Longrightarrow> fc_count fc + int n \<ge> FAIL_CLOSED_REARM_EVERY \<Longrightarrow> n > 0 \<Longrightarrow> True \<in> set ws"
proof (induction n arbitrary: fc ws)
  case (Suc n)
  obtain w fc1 where p: "posture_step False False fc = (w, fc1)" by (rule prod.exhaust)
  obtain ws1 where c: "closed_requests n fc1 = (ws1, fc')" "ws = w # ws1"
    using Suc.prems(1) p by (auto split: prod.splits)
  show ?case
  proof (cases w)
    case False
    then have "fc_count fc1 = fc_count fc + 1" "fc_count fc + 1 < FAIL_CLOSED_REARM_EVERY"
      using p by (auto simp: posture_step_def Let_def split: if_splits)
    then have "n > 0" "fc_count fc1 + int n \<ge> FAIL_CLOSED_REARM_EVERY" using Suc.prems(2) by auto
    then show ?thesis using Suc.IH [OF c(1)] c(2) by simp
  qed (simp add: c(2))
qed simp

lemma warning_comes_back:
  assumes "fc_count fc \<ge> 0" "closed_requests 500 fc = (ws, fc')"
  shows "True \<in> set ws"
  using closed_requests_warn [OF assms(2)] assms(1) by (simp add: FAIL_CLOSED_REARM_EVERY_def)

section \<open>Body and audit\<close>

lemma read_capped_body_eq:
  "int (length buf) \<le> cap \<Longrightarrow>
   read_capped_body cap buf chunks broken =
     (if int (length buf) + int (length (concat chunks)) > cap then BodyTooLarge else if broken then ParseError else Body (buf @ concat chunks))"
  by (induction cap buf chunks broken rule: read_capped_body.induct) auto

text \<open>The audit line shows nothing of a secret-like argument but its type and its length.\<close>

lemma audit_hides_secrets:
  assumes "map fst a = map fst b"
    and "\<And>i. i < length a \<Longrightarrow> fst (a ! i) \<in> set SECRET_LIKE \<Longrightarrow> redact_value ''token'' (snd (a ! i)) = redact_value ''token'' (snd (b ! i))"
    and "\<And>i. i < length a \<Longrightarrow> fst (a ! i) \<notin> set SECRET_LIKE \<Longrightarrow> a ! i = b ! i"
  shows "redact_args a = redact_args b"
proof (rule nth_equalityI)
  show len: "length (redact_args a) = length (redact_args b)" using map_eq_imp_length_eq [OF assms(1)] by (simp add: redact_args_def)
  fix i assume "i < length (redact_args a)"
  then have i: "i < length a" "i < length b" using len by (simp_all add: redact_args_def)
  have k: "fst (a ! i) = fst (b ! i)" using assms(1) i by (metis nth_map)
  have same: "redact_value k v = redact_value ''token'' v" if "k \<in> set SECRET_LIKE" for k v
    using that by (simp add: redact_value_def SECRET_LIKE_def)
  show "redact_args a ! i = redact_args b ! i"
    using i k assms(2) [OF i(1)] assms(3) [OF i(1)] same
    by (cases "fst (a ! i) \<in> set SECRET_LIKE") (simp_all add: redact_args_def case_prod_beta)
qed

text \<open>The line is described as recording keys only; a string under a key that is not on the list is recorded whole.\<close>

lemma audit_shows_api_key: "redact_args [(''api_key'', PStr ''k'')] = [(''api_key'', PStr ''k'')]"
  by code_simp

end
