(* ===== verification/Conversations.thy ===== *)
theory Conversations
  imports A2A_Backend "HOL-Library.List_Lexorder" "HOL-Library.Char_ord"
begin

text \<open>
  Model of \<open>shared/conversations.py\<close>, the routes that serve the logs of a backend, and of \<open>harness/conversations_proxy.py\<close>,
  which merges the logs of all backends. The status and the text of a file, the JSON decoder, the parsers of \<open>datetime\<close>,
  the printed form of a value and the answers of the backends are arguments. Where Python compares numbers of different
  types, \<open>canon\<close> gives the form in which equal ones agree.
\<close>

section \<open>Reading a log\<close>

text \<open>The identity of a file: inode, size and modification time.\<close>

type_synonym stat_key = "int \<times> int \<times> int"

type_synonym tail_cache = "(pystr \<times> (stat_key \<times> pyval list)) list"

text \<open>Text mode turns every line ending into a line feed.\<close>

fun universal :: "pystr \<Rightarrow> pystr" where
  "universal [] = []"
| "universal [c] = [if c = CHR 0x0D then CHR 0x0A else c]"
| "universal (c # d # s) =
     (if c = CHR 0x0D then (if d = CHR 0x0A then CHR 0x0A # universal s else CHR 0x0A # universal (d # s))
      else c # universal (d # s))"

text \<open>The lines with their line feed; what follows the last one may still be being written.\<close>

definition complete_lines :: "pystr \<Rightarrow> pystr list" where
  "complete_lines s = butlast (split_char CHR 0x0A (universal s))"

definition line_entry :: "(pystr \<Rightarrow> pyval option) \<Rightarrow> pystr \<Rightarrow> pyval list" where
  "line_entry loads line =
     (let t = strip line in if t = [] then [] else (case loads t of None \<Rightarrow> [] | Some e \<Rightarrow> [e]))"

definition parse_jsonl :: "(pystr \<Rightarrow> pyval option) \<Rightarrow> pystr \<Rightarrow> pyval list" where
  "parse_jsonl loads s = concat (map (line_entry loads) (complete_lines s))"

text \<open>\<open>xs[i:]\<close>.\<close>

definition slice_from :: "int \<Rightarrow> 'a list \<Rightarrow> 'a list" where
  "slice_from i xs = (if i < 0 then drop (length xs - nat (- i)) xs else drop (nat i) xs)"

definition trim_entries :: "int \<Rightarrow> 'a list \<Rightarrow> 'a list" where
  "trim_entries cap xs = (if int (length xs) > cap then slice_from (- cap) xs else xs)"

text \<open>A file when it is asked for and when it is opened; \<^const>\<open>None\<close> when it is not there.\<close>

record log_file =
  lf_path :: pystr
  lf_stat :: "stat_key option"
  lf_text :: "pystr option"

text \<open>The entries of a file, from the cache if its identity is the one remembered; \<^const>\<open>None\<close> when there is none. The code
  keeps the offset behind the last line as well and drops it with the rest of the cached value before it would use it.\<close>

definition read_entries :: "int \<Rightarrow> (pystr \<Rightarrow> pyval option) \<Rightarrow> log_file \<Rightarrow> tail_cache \<Rightarrow> pyval list option \<times> tail_cache" where
  "read_entries cap loads f cache =
     (case lf_stat f of
        None \<Rightarrow> (None, cache)
      | Some st \<Rightarrow>
          (case dict_get cache (lf_path f) of
             Some (st', es) \<Rightarrow>
               if st' = st then (Some es, cache)
               else
                 (case lf_text f of
                    None \<Rightarrow> (None, cache)
                  | Some s \<Rightarrow> (let es = trim_entries cap (parse_jsonl loads s) in (Some es, dict_set (lf_path f) (st, es) cache)))
           | None \<Rightarrow>
               (case lf_text f of
                  None \<Rightarrow> (None, cache)
                | Some s \<Rightarrow> (let es = trim_entries cap (parse_jsonl loads s) in (Some es, dict_set (lf_path f) (st, es) cache)))))"

text \<open>A moment with or without a zone; the two kinds cannot be compared.\<close>

datatype stamp = Naive int | Aware int

fun before :: "stamp \<Rightarrow> stamp \<Rightarrow> bool option" where
  "before (Naive a) (Naive b) = Some (a < b)"
| "before (Aware a) (Aware b) = Some (a < b)"
| "before _ _ = None"

definition zulu :: "pystr \<Rightarrow> pystr" where
  "zulu s = py_replace ''Z'' ''+00:00'' s"

text \<open>\<open>deque(maxlen=n)\<close>: the last \<open>n\<close>, all without a limit; a negative one raises.\<close>

definition last_entries :: "int option \<Rightarrow> 'a list \<Rightarrow> 'a list option" where
  "last_entries limit xs =
     (case limit of None \<Rightarrow> Some xs | Some n \<Rightarrow> if n < 0 then None else Some (drop (length xs - nat n) xs))"

definition since_keeps :: "(pystr \<Rightarrow> stamp option) \<Rightarrow> stamp option \<Rightarrow> pyval \<Rightarrow> bool" where
  "since_keeps fromiso since e =
     (case since of
        None \<Rightarrow> True
      | Some t0 \<Rightarrow>
          (case e of
             PDict d \<Rightarrow>
               (case dict_get d ''ts'' of
                  Some (PStr s) \<Rightarrow> (case fromiso (zulu s) of Some t \<Rightarrow> before t t0 = Some False | None \<Rightarrow> False)
                | _ \<Rightarrow> (case fromiso [] of Some t \<Rightarrow> \<not> truthy (dict_get d ''ts'') \<and> before t t0 = Some False | None \<Rightarrow> False))
           | _ \<Rightarrow> False))"

definition filter_and_limit :: "(pystr \<Rightarrow> stamp option) \<Rightarrow> stamp option \<Rightarrow> int option \<Rightarrow> pyval list \<Rightarrow> pyval list option" where
  "filter_and_limit fromiso since limit es = last_entries limit (filter (since_keeps fromiso since) es)"

text \<open>\<^const>\<open>None\<close> is an exception.\<close>

definition read_jsonl ::
  "int \<Rightarrow> (pystr \<Rightarrow> pyval option) \<Rightarrow> (pystr \<Rightarrow> stamp option) \<Rightarrow> stamp option \<Rightarrow> int option \<Rightarrow> log_file \<Rightarrow> tail_cache
   \<Rightarrow> pyval list option \<times> tail_cache" where
  "read_jsonl cap loads fromiso since limit f cache =
     (case read_entries cap loads f cache of
        (None, c) \<Rightarrow> (Some [], c)
      | (Some es, c) \<Rightarrow> (filter_and_limit fromiso since limit es, c))"

section \<open>Reading the tool audit\<close>

record row_filter =
  rf_since :: "stamp option"
  rf_decision :: pystr
  rf_tool :: pystr
  rf_session :: pystr

text \<open>Whether a row passes; \<^const>\<open>None\<close> is an exception. \<open>epoch\<close> is \<open>datetime.fromtimestamp\<close> in UTC, \<open>show\<close> is \<open>str\<close>.\<close>

definition row_since :: "(pystr \<Rightarrow> stamp option) \<Rightarrow> (pyval \<Rightarrow> int option) \<Rightarrow> stamp \<Rightarrow> (pystr \<times> pyval) list \<Rightarrow> bool option" where
  "row_since fromiso epoch t0 d =
     (let at_least = (\<lambda>t. map_option Not (before t t0))
      in case dict_get d ''ts'' of
           Some (PStr s) \<Rightarrow> (case fromiso (zulu s) of Some t \<Rightarrow> at_least t | None \<Rightarrow> Some False)
         | Some (PInt i) \<Rightarrow> (case epoch (PInt i) of Some t \<Rightarrow> at_least (Aware t) | None \<Rightarrow> Some False)
         | Some (PFloat x) \<Rightarrow> (case epoch (PFloat x) of Some t \<Rightarrow> at_least (Aware t) | None \<Rightarrow> Some False)
         | Some (PBool b) \<Rightarrow> (case epoch (PBool b) of Some t \<Rightarrow> at_least (Aware t) | None \<Rightarrow> Some False)
         | _ \<Rightarrow> Some False)"

definition shown :: "(pyval \<Rightarrow> pystr) \<Rightarrow> pyval option \<Rightarrow> pystr" where
  "shown show v = (case v of Some (PStr s) \<Rightarrow> s | Some w \<Rightarrow> show w | None \<Rightarrow> [])"

definition row_passes ::
  "(pystr \<Rightarrow> stamp option) \<Rightarrow> (pyval \<Rightarrow> int option) \<Rightarrow> (pyval \<Rightarrow> pystr) \<Rightarrow> row_filter \<Rightarrow> pyval \<Rightarrow> bool option" where
  "row_passes fromiso epoch show rf e =
     (case e of
        PDict d \<Rightarrow>
          (case (case rf_since rf of None \<Rightarrow> Some True | Some t0 \<Rightarrow> row_since fromiso epoch t0 d) of
             None \<Rightarrow> None
           | Some False \<Rightarrow> Some False
           | Some True \<Rightarrow>
               Some ((rf_decision rf = [] \<or> lower (shown show (truthy_field d ''decision'')) = lower (rf_decision rf)) \<and>
                     (rf_tool rf = [] \<or>
                      shown show (case truthy_field d ''tool_name'' of Some v \<Rightarrow> Some v | None \<Rightarrow> truthy_field d ''tool'') = rf_tool rf) \<and>
                     (rf_session rf = [] \<or> shown show (truthy_field d ''session_id'') = rf_session rf)))
      | _ \<Rightarrow> if rf_since rf = None \<and> rf_decision rf = [] \<and> rf_tool rf = [] \<and> rf_session rf = [] then Some True else None)"

fun filter_rows :: "(pyval \<Rightarrow> bool option) \<Rightarrow> pyval list \<Rightarrow> pyval list option" where
  "filter_rows p [] = Some []"
| "filter_rows p (e # es) =
     (case p e of
        None \<Rightarrow> None
      | Some b \<Rightarrow> map_option (\<lambda>r. if b then e # r else r) (filter_rows p es))"

definition read_tool_audit_jsonl ::
  "int \<Rightarrow> (pystr \<Rightarrow> pyval option) \<Rightarrow> (pyval \<Rightarrow> bool option) \<Rightarrow> int option \<Rightarrow> log_file \<Rightarrow> tail_cache \<Rightarrow> pyval list option \<times> tail_cache" where
  "read_tool_audit_jsonl cap loads p limit f cache =
     (case read_entries cap loads f cache of
        (None, c) \<Rightarrow> (Some [], c)
      | (Some es, c) \<Rightarrow>
          (case last_entries limit ([] :: pyval list) of
             None \<Rightarrow> (None, c)
           | Some _ \<Rightarrow> ((case filter_rows p es of None \<Rightarrow> None | Some rows \<Rightarrow> last_entries limit rows), c)))"

section \<open>The routes\<close>

datatype log_reply = Entries "pyval list" | Refuse int pystr | Raised

definition log_auth :: "(pystr \<rightharpoonup> pystr) \<Rightarrow> pystr \<Rightarrow> pystr \<Rightarrow> log_reply option" where
  "log_auth env token header =
     (if token = []
      then (if str_in (lower (strip (env_get env ''CONVERSATIONS_AUTH_DISABLED''))) [''1'', ''true'', ''yes'', ''on''] then None
            else Some (Refuse 503 ''auth not configured''))
      else (case compare_digest (''Bearer '' @ token) header of
              None \<Rightarrow> Some Raised
            | Some ok \<Rightarrow> if ok then None else Some (Refuse 401 ''unauthorized'')))"

record log_query =
  lq_header :: pystr
  lq_since :: pystr
  lq_limit :: pystr
  lq_decision :: pystr
  lq_tool :: pystr
  lq_session :: pystr

text \<open>A missing parameter is treated like an empty one.\<close>

definition query_checks :: "(pystr \<Rightarrow> stamp option) \<Rightarrow> log_query \<Rightarrow> log_reply + (stamp option \<times> int option)" where
  "query_checks fromiso q =
     (if lq_limit q \<noteq> [] \<and> int_of_str (lq_limit q) = None then Inl (Refuse 400 ''invalid limit'')
      else if lq_since q \<noteq> [] \<and> fromiso (zulu (lq_since q)) = None then Inl (Refuse 400 ''invalid since'')
      else Inr (if lq_since q = [] then None else fromiso (zulu (lq_since q)), if lq_limit q = [] then None else int_of_str (lq_limit q)))"

definition decision_ok :: "log_query \<Rightarrow> bool" where
  "decision_ok q = (lq_decision q = [] \<or> str_in (lower (lq_decision q)) [''allow'', ''warn'', ''deny''])"

definition entries_reply :: "pyval list option \<Rightarrow> log_reply" where
  "entries_reply r = (case r of None \<Rightarrow> Raised | Some es \<Rightarrow> Entries es)"

text \<open>The routes \<open>/conversations\<close> and \<open>/trace\<close> differ in the file alone.\<close>

definition conversations_handler ::
  "int \<Rightarrow> (pystr \<Rightarrow> pyval option) \<Rightarrow> (pystr \<Rightarrow> stamp option) \<Rightarrow> (pystr \<rightharpoonup> pystr) \<Rightarrow> pystr \<Rightarrow> log_query \<Rightarrow> log_file \<Rightarrow> tail_cache
   \<Rightarrow> log_reply \<times> tail_cache" where
  "conversations_handler cap loads fromiso env token q f cache =
     (case log_auth env token (lq_header q) of
        Some r \<Rightarrow> (r, cache)
      | None \<Rightarrow>
          (case query_checks fromiso q of
             Inl r \<Rightarrow> (r, cache)
           | Inr (since, limit) \<Rightarrow>
               (case read_jsonl cap loads fromiso since limit f cache of (r, c) \<Rightarrow> (entries_reply r, c))))"

definition tool_audit_handler ::
  "int \<Rightarrow> (pystr \<Rightarrow> pyval option) \<Rightarrow> (pystr \<Rightarrow> stamp option) \<Rightarrow> (pyval \<Rightarrow> int option) \<Rightarrow> (pyval \<Rightarrow> pystr) \<Rightarrow> (pystr \<rightharpoonup> pystr) \<Rightarrow> pystr
   \<Rightarrow> log_query \<Rightarrow> log_file \<Rightarrow> tail_cache \<Rightarrow> log_reply \<times> tail_cache" where
  "tool_audit_handler cap loads fromiso epoch show env token q f cache =
     (case log_auth env token (lq_header q) of
        Some r \<Rightarrow> (r, cache)
      | None \<Rightarrow>
          (case query_checks fromiso q of
             Inl r \<Rightarrow> (r, cache)
           | Inr (since, limit) \<Rightarrow>
               if \<not> decision_ok q then (Refuse 400 ''invalid decision'', cache)
               else
                 (let rf = \<lparr>rf_since = since, rf_decision = lq_decision q, rf_tool = lq_tool q, rf_session = lq_session q\<rparr>
                  in case read_tool_audit_jsonl cap loads (row_passes fromiso epoch show rf) limit f cache of
                       (r, c) \<Rightarrow> (entries_reply r, c))))"

section \<open>Merging the logs of the backends\<close>

datatype fetched = NoAnswer | Got int "nat list list"

definition capped_get_json :: "int \<Rightarrow> (nat list \<Rightarrow> pystr) \<Rightarrow> (pystr \<Rightarrow> pyval option) \<Rightarrow> int \<Rightarrow> nat list list \<Rightarrow> int \<times> pyval option" where
  "capped_get_json cap decode loads status chunks =
     (if status \<noteq> 200 then (status, None)
      else (case read_response cap 0 [] chunks of None \<Rightarrow> (200, None) | Some b \<Rightarrow> (200, loads (decode b))))"

text \<open>How a backend is asked: URL, parameters and headers give what comes back.\<close>

type_synonym fetcher = "pystr \<Rightarrow> (pystr \<times> pystr) list \<Rightarrow> (pystr \<times> pystr) list \<Rightarrow> fetched"

definition proxy_params :: "pystr option \<Rightarrow> int option \<Rightarrow> (pystr \<times> pystr option) list \<Rightarrow> (pystr \<times> pystr) list" where
  "proxy_params since limit extras =
     (case or_none since of Some s \<Rightarrow> [(''since'', s)] | None \<Rightarrow> []) @ (case limit of Some n \<Rightarrow> [(''limit'', str_of_int n)] | None \<Rightarrow> []) @
     concat (map (\<lambda>(k, v). case or_none v of Some s \<Rightarrow> [(k, s)] | None \<Rightarrow> []) extras)"

definition proxy_headers :: "pystr option \<Rightarrow> (pystr \<times> pystr) list" where
  "proxy_headers token = (case or_none token of Some t \<Rightarrow> [(''Authorization'', ''Bearer '' @ t)] | None \<Rightarrow> [])"

definition fetch_one ::
  "int \<Rightarrow> (nat list \<Rightarrow> pystr) \<Rightarrow> (pystr \<Rightarrow> pyval option) \<Rightarrow> fetcher \<Rightarrow> pystr \<Rightarrow> (pystr \<times> pystr) list \<Rightarrow> (pystr \<times> pystr) list
   \<Rightarrow> backend_config \<Rightarrow> pyval list" where
  "fetch_one cap decode loads fetch path params headers b =
     (case bc_url b of
        Some (PStr (c # u)) \<Rightarrow>
          (case fetch (rstrip_by (\<lambda>x. x = CHR ''/'') (c # u) @ path) params headers of
             NoAnswer \<Rightarrow> []
           | Got status chunks \<Rightarrow> (case capped_get_json cap decode loads status chunks of (st, Some (PList es)) \<Rightarrow> (if st = 200 then es else []) | _ \<Rightarrow> []))
      | _ \<Rightarrow> [])"

definition get_or_none :: "(pystr \<times> pyval) list \<Rightarrow> pystr \<Rightarrow> pyval" where
  "get_or_none d k = (case dict_get d k of Some v \<Rightarrow> v | None \<Rightarrow> PNone)"

definition get_or :: "(pystr \<times> pyval) list \<Rightarrow> pystr \<Rightarrow> pystr \<Rightarrow> pyval" where
  "get_or d k l = (case truthy_field d k of Some v \<Rightarrow> v | None \<Rightarrow> get_or_none d l)"

text \<open>The key under which an entry counts as seen; \<^const>\<open>None\<close> when its tuple cannot be built or hashed.\<close>

definition tuple_key :: "(pyval \<Rightarrow> pyval) \<Rightarrow> pyval list \<Rightarrow> pyval list option" where
  "tuple_key canon vs = (if list_all hashable vs then Some (map canon vs) else None)"

definition conversation_key :: "(pyval \<Rightarrow> pyval) \<Rightarrow> pyval \<Rightarrow> pyval list option" where
  "conversation_key canon e =
     (case e of
        PDict d \<Rightarrow>
          (case (case truthy_field d ''text'' of None \<Rightarrow> Some [] | Some (PStr s) \<Rightarrow> Some (take 64 s) | Some _ \<Rightarrow> None) of
             None \<Rightarrow> None
           | Some s \<Rightarrow>
               tuple_key canon [get_or_none d ''ts'', get_or_none d ''session_id'', get_or_none d ''role'', get_or_none d ''agent'', PStr s])
      | _ \<Rightarrow> None)"

definition audit_key :: "(pyval \<Rightarrow> pyval) \<Rightarrow> pyval \<Rightarrow> pyval list option" where
  "audit_key canon e =
     (case e of
        PDict d \<Rightarrow>
          tuple_key canon [get_or_none d ''ts'', get_or_none d ''session_id'', get_or_none d ''tool_use_id'', get_or d ''tool_name'' ''tool'',
            get_or_none d ''decision'']
      | _ \<Rightarrow> None)"

definition trace_key :: "(pyval \<Rightarrow> pyval) \<Rightarrow> pyval \<Rightarrow> pyval list option" where
  "trace_key canon e =
     (case e of
        PDict d \<Rightarrow>
          tuple_key canon [get_or_none d ''ts'', get_or_none d ''session_id'', get_or_none d ''event_type'', get_or d ''id'' ''tool_use_id'']
      | _ \<Rightarrow> None)"

fun merge_new :: "(pyval \<Rightarrow> pyval list option) \<Rightarrow> pyval list list \<Rightarrow> pyval list \<Rightarrow> pyval list option" where
  "merge_new key seen [] = Some []"
| "merge_new key seen (e # es) =
     (case key e of
        None \<Rightarrow> None
      | Some k \<Rightarrow> if k \<in> set seen then merge_new key seen es else map_option (\<lambda>r. e # r) (merge_new key (k # seen) es))"

text \<open>\<open>utc\<close> prints a number of seconds as a moment; \<^const>\<open>None\<close> when it is out of range.\<close>

definition ts_sort_key :: "(pyval \<Rightarrow> pystr option) \<Rightarrow> (pyval \<Rightarrow> pystr) \<Rightarrow> pyval \<Rightarrow> pystr" where
  "ts_sort_key utc show e =
     (case e of
        PDict d \<Rightarrow>
          (case dict_get d ''ts'' of
             None \<Rightarrow> []
           | Some PNone \<Rightarrow> []
           | Some (PStr s) \<Rightarrow> s
           | Some (PList xs) \<Rightarrow> show (PList xs)
           | Some (PDict f) \<Rightarrow> show (PDict f)
           | Some v \<Rightarrow> (case utc v of Some t \<Rightarrow> t | None \<Rightarrow> show v))
      | _ \<Rightarrow> [])"

definition ts_printed :: "(pyval \<Rightarrow> pystr) \<Rightarrow> pyval \<Rightarrow> pystr" where
  "ts_printed show e =
     (case e of PDict d \<Rightarrow> (case dict_get d ''ts'' of None \<Rightarrow> [] | Some (PStr s) \<Rightarrow> s | Some v \<Rightarrow> show v) | _ \<Rightarrow> [])"

definition merge_logs :: "(pyval \<Rightarrow> pyval list option) \<Rightarrow> (pyval \<Rightarrow> pystr) \<Rightarrow> int option \<Rightarrow> pyval list list \<Rightarrow> pyval list option" where
  "merge_logs key ts limit results =
     map_option (\<lambda>es. (case limit of None \<Rightarrow> sort_key ts es | Some n \<Rightarrow> slice_from (- n) (sort_key ts es))) (merge_new key [] (concat results))"

text \<open>The three merged logs, given how one log is fetched from every backend.\<close>

definition fetch_backend_conversations ::
  "int \<Rightarrow> (nat list \<Rightarrow> pystr) \<Rightarrow> (pystr \<Rightarrow> pyval option) \<Rightarrow> (pyval \<Rightarrow> pyval) \<Rightarrow> (pyval \<Rightarrow> pystr option) \<Rightarrow> (pyval \<Rightarrow> pystr) \<Rightarrow> fetcher
   \<Rightarrow> backend_config list \<Rightarrow> pystr option \<Rightarrow> pystr option \<Rightarrow> int option \<Rightarrow> pyval list option" where
  "fetch_backend_conversations cap decode loads canon utc show fetch backends token since limit =
     merge_logs (conversation_key canon) (ts_sort_key utc show) limit
       (map (fetch_one cap decode loads fetch ''/conversations'' (proxy_params since limit []) (proxy_headers token)) backends)"

definition fetch_backend_trace ::
  "int \<Rightarrow> (nat list \<Rightarrow> pystr) \<Rightarrow> (pystr \<Rightarrow> pyval option) \<Rightarrow> (pyval \<Rightarrow> pyval) \<Rightarrow> (pyval \<Rightarrow> pystr option) \<Rightarrow> (pyval \<Rightarrow> pystr) \<Rightarrow> fetcher
   \<Rightarrow> backend_config list \<Rightarrow> pystr option \<Rightarrow> pystr option \<Rightarrow> int option \<Rightarrow> pyval list option" where
  "fetch_backend_trace cap decode loads canon utc show fetch backends token since limit =
     merge_logs (trace_key canon) (ts_sort_key utc show) limit
       (map (fetch_one cap decode loads fetch ''/trace'' (proxy_params since limit []) (proxy_headers token)) backends)"

definition fetch_backend_tool_audit ::
  "int \<Rightarrow> (nat list \<Rightarrow> pystr) \<Rightarrow> (pystr \<Rightarrow> pyval option) \<Rightarrow> (pyval \<Rightarrow> pyval) \<Rightarrow> (pyval \<Rightarrow> pystr) \<Rightarrow> fetcher \<Rightarrow> backend_config list
   \<Rightarrow> pystr option \<Rightarrow> pystr option \<Rightarrow> int option \<Rightarrow> pystr option \<Rightarrow> pystr option \<Rightarrow> pystr option \<Rightarrow> pyval list option" where
  "fetch_backend_tool_audit cap decode loads canon show fetch backends token since limit decision tool session =
     merge_logs (audit_key canon) (ts_printed show) limit
       (map (fetch_one cap decode loads fetch ''/tool-audit''
               (proxy_params since limit [(''decision'', decision), (''tool'', tool), (''session'', session)]) (proxy_headers token)) backends)"

text \<open>The routes of the harness over them; again \<open>/conversations\<close> and \<open>/trace\<close> agree.\<close>

definition proxy_conversations_handler ::
  "(pystr \<Rightarrow> stamp option) \<Rightarrow> (pystr \<rightharpoonup> pystr) \<Rightarrow> pystr \<Rightarrow> (pystr option \<Rightarrow> int option \<Rightarrow> pyval list option) \<Rightarrow> log_query \<Rightarrow> log_reply" where
  "proxy_conversations_handler fromiso env token fetch_fn q =
     (case log_auth env token (lq_header q) of
        Some r \<Rightarrow> r
      | None \<Rightarrow> (case query_checks fromiso q of Inl r \<Rightarrow> r | Inr (_, limit) \<Rightarrow> entries_reply (fetch_fn (Some (lq_since q)) limit)))"

definition proxy_tool_audit_handler ::
  "(pystr \<Rightarrow> stamp option) \<Rightarrow> (pystr \<rightharpoonup> pystr) \<Rightarrow> pystr
   \<Rightarrow> (pystr option \<Rightarrow> int option \<Rightarrow> pystr option \<Rightarrow> pystr option \<Rightarrow> pystr option \<Rightarrow> pyval list option) \<Rightarrow> log_query \<Rightarrow> log_reply" where
  "proxy_tool_audit_handler fromiso env token fetch_fn q =
     (case log_auth env token (lq_header q) of
        Some r \<Rightarrow> r
      | None \<Rightarrow>
          (case query_checks fromiso q of
             Inl r \<Rightarrow> r
           | Inr (_, limit) \<Rightarrow>
               if \<not> decision_ok q then Refuse 400 ''invalid decision''
               else entries_reply (fetch_fn (Some (lq_since q)) limit (Some (lq_decision q)) (Some (lq_tool q)) (Some (lq_session q)))))"

section \<open>The cache does not show\<close>

datatype log_read = LogRead "stamp option" "int option" log_file | AuditRead row_filter "int option" log_file

primrec read_file :: "log_read \<Rightarrow> log_file" where
  "read_file (LogRead s n f) = f"
| "read_file (AuditRead rf n f) = f"

text \<open>What the clock library and the printer give, as one bundle.\<close>

record log_env =
  le_cap :: int
  le_loads :: "pystr \<Rightarrow> pyval option"
  le_iso :: "pystr \<Rightarrow> stamp option"
  le_epoch :: "pyval \<Rightarrow> int option"
  le_show :: "pyval \<Rightarrow> pystr"

primrec read_log :: "log_env \<Rightarrow> log_read \<Rightarrow> tail_cache \<Rightarrow> pyval list option \<times> tail_cache" where
  "read_log le (LogRead since limit f) c = read_jsonl (le_cap le) (le_loads le) (le_iso le) since limit f c"
| "read_log le (AuditRead rf limit f) c =
     read_tool_audit_jsonl (le_cap le) (le_loads le) (row_passes (le_iso le) (le_epoch le) (le_show le) rf) limit f c"

fun read_logs :: "log_env \<Rightarrow> log_read list \<Rightarrow> tail_cache \<Rightarrow> pyval list option list" where
  "read_logs le [] c = []"
| "read_logs le (r # rs) c = (case read_log le r c of (x, c') \<Rightarrow> x # read_logs le rs c')"

text \<open>The identity of a file tells its text.\<close>

definition texts_identified :: "log_file set \<Rightarrow> bool" where
  "texts_identified fs =
     (\<forall>f\<in>fs. \<forall>g\<in>fs. lf_path f = lf_path g \<and> lf_stat f = lf_stat g \<and> lf_stat f \<noteq> None \<longrightarrow> lf_text f = lf_text g)"

text \<open>What the cache holds was read from one of the files.\<close>

definition cache_from :: "log_env \<Rightarrow> log_file set \<Rightarrow> tail_cache \<Rightarrow> bool" where
  "cache_from le fs c =
     (\<forall>p st es. dict_get c p = Some (st, es) \<longrightarrow>
        (\<exists>f\<in>fs. lf_path f = p \<and> lf_stat f = Some st \<and> (\<exists>s. lf_text f = Some s \<and> es = trim_entries (le_cap le) (parse_jsonl (le_loads le) s))))"

lemma read_entries_cached:
  assumes "texts_identified fs" "cache_from le fs c" "f \<in> fs"
  shows "fst (read_entries (le_cap le) (le_loads le) f c) = fst (read_entries (le_cap le) (le_loads le) f [])"
    and "cache_from le fs (snd (read_entries (le_cap le) (le_loads le) f c))"
proof -
  show "cache_from le fs (snd (read_entries (le_cap le) (le_loads le) f c))"
    using assms(2,3) by (auto simp: read_entries_def cache_from_def Let_def split: option.split)
  show "fst (read_entries (le_cap le) (le_loads le) f c) = fst (read_entries (le_cap le) (le_loads le) f [])"
  proof (cases "lf_stat f")
    case (Some st)
    show ?thesis
    proof (cases "dict_get c (lf_path f)")
      case (Some e)
      obtain st' es where e: "e = (st', es)" by (cases e)
      obtain g s where g: "g \<in> fs" "lf_path g = lf_path f" "lf_stat g = Some st'" "lf_text g = Some s"
        "es = trim_entries (le_cap le) (parse_jsonl (le_loads le) s)"
        using assms(2) Some e unfolding cache_from_def by blast
      have "lf_stat f = lf_stat g \<Longrightarrow> lf_text f = lf_text g"
        using assms(1,3) g(1,2) option.discI [OF g(3)] unfolding texts_identified_def by metis
      then have "st' = st \<Longrightarrow> lf_text f = Some s" using g(3,4) \<open>lf_stat f = Some st\<close> by simp
      then show ?thesis using Some e g(5) \<open>lf_stat f = Some st\<close> by (auto simp: read_entries_def Let_def split: option.split)
    qed (auto simp: read_entries_def Let_def split: option.split)
  qed (simp add: read_entries_def)
qed

lemma read_log_cached:
  assumes "texts_identified fs" "cache_from le fs c" "read_file r \<in> fs"
  shows "fst (read_log le r c) = fst (read_log le r [])" "cache_from le fs (snd (read_log le r c))"
proof -
  note cached = read_entries_cached [OF assms]
  show "fst (read_log le r c) = fst (read_log le r [])"
    using cached(1) by (cases r) (auto simp: read_jsonl_def read_tool_audit_jsonl_def split: prod.splits option.splits)
  show "cache_from le fs (snd (read_log le r c))"
    using cached(2) by (cases r) (auto simp: read_jsonl_def read_tool_audit_jsonl_def split: prod.splits option.splits)
qed

text \<open>C39: Whatever logs are read in whatever order, every reader gets what reading the file anew would give, as long as the
  inode, size and time of a file tell its text.\<close>

theorem log_cache_transparent:
  assumes "texts_identified (read_file ` set reads)"
  shows "read_logs le reads [] = map (\<lambda>r. fst (read_log le r [])) reads"
proof -
  have "set rs \<subseteq> set reads \<Longrightarrow> cache_from le (read_file ` set reads) c \<Longrightarrow> read_logs le rs c = map (\<lambda>r. fst (read_log le r [])) rs" for rs c
  proof (induction rs arbitrary: c)
    case (Cons r rs)
    have r: "read_file r \<in> read_file ` set reads" using Cons.prems(1) by simp
    note cached = read_log_cached [OF assms Cons.prems(2) r]
    obtain x c' where xc: "read_log le r c = (x, c')" by (cases "read_log le r c")
    have "cache_from le (read_file ` set reads) c'" using cached(2) xc by simp
    then show ?case using Cons.IH [of c'] Cons.prems(1) cached(1) xc by simp
  qed simp
  then show ?thesis by (simp add: cache_from_def)
qed

definition demo_reads :: "log_read list" where
  "demo_reads =
     [LogRead None None \<lparr>lf_path = ''l'', lf_stat = Some (1, 2, 3), lf_text = Some ''a''\<rparr>,
      LogRead None (Some 1) \<lparr>lf_path = ''l'', lf_stat = Some (1, 2, 3), lf_text = Some ''a''\<rparr>,
      LogRead None None \<lparr>lf_path = ''l'', lf_stat = Some (1, 4, 5), lf_text = Some [CHR ''a'', CHR 0x0A, CHR ''b'', CHR 0x0A, CHR ''c'']\<rparr>,
      LogRead None (Some 1) \<lparr>lf_path = ''l'', lf_stat = Some (1, 4, 5), lf_text = Some [CHR ''a'', CHR 0x0A, CHR ''b'', CHR 0x0A, CHR ''c'']\<rparr>]"

definition demo_log_env :: log_env where
  "demo_log_env = \<lparr>le_cap = 5000, le_loads = (\<lambda>s. Some (PStr s)), le_iso = (\<lambda>_. None), le_epoch = (\<lambda>_. None), le_show = (\<lambda>_. [])\<rparr>"

theorem log_cache_transparent_witness:
  "read_logs demo_log_env demo_reads [] = [Some [], Some [], Some [PStr ''a'', PStr ''b''], Some [PStr ''b'']]"
proof -
  have "texts_identified (read_file ` set demo_reads)" by (auto simp: texts_identified_def demo_reads_def)
  note eq = log_cache_transparent [OF this, of demo_log_env]
  have "map (\<lambda>r. fst (read_log demo_log_env r [])) demo_reads = [Some [], Some [], Some [PStr ''a'', PStr ''b''], Some [PStr ''b'']]"
    by code_simp
  then show ?thesis using eq by simp
qed

section \<open>What was logged is read back\<close>

lemma universal_plain: "CHR 0x0D \<notin> set s \<Longrightarrow> universal s = s"
  by (induction s rule: universal.induct) auto

lemma complete_lines_written:
  assumes "\<forall>l\<in>set ls. CHR 0x0A \<notin> set l \<and> CHR 0x0D \<notin> set l" "CHR 0x0A \<notin> set t" "CHR 0x0D \<notin> set t"
  shows "complete_lines (concat (map (\<lambda>l. l @ [CHR 0x0A]) ls) @ t) = ls"
proof -
  have split: "split_char CHR 0x0A (concat (map (\<lambda>l. l @ [CHR 0x0A]) ls) @ t) = ls @ [t]"
    using assms by (induction ls) (simp_all add: split_char_no split_char_append)
  have "CHR 0x0D \<notin> set (concat (map (\<lambda>l. l @ [CHR 0x0A]) ls) @ t)" using assms by auto
  from universal_plain [OF this] show ?thesis unfolding complete_lines_def by (simp only: split butlast_snoc)
qed

text \<open>C40: A log is read back as it was written: of entries appended one to a line, and a last one perhaps cut short, a reader
  gets all whole ones, as far as the cap and its limit reach. What is asked of JSON is that a printed entry has no line
  break or surrounding space and is read as itself.\<close>

theorem log_read_back:
  assumes "\<forall>e\<in>set es. dumps e \<noteq> [] \<and> CHR 0x0A \<notin> set (dumps e) \<and> CHR 0x0D \<notin> set (dumps e) \<and> strip (dumps e) = dumps e \<and> loads (dumps e) = Some e"
    and "CHR 0x0A \<notin> set torn" "CHR 0x0D \<notin> set torn"
    and "lf_stat f = Some st" "lf_text f = Some (concat (map (\<lambda>e. dumps e @ [CHR 0x0A]) es) @ torn)"
  shows "fst (read_jsonl cap loads fromiso None limit f []) = last_entries limit (trim_entries cap es)"
proof -
  have "complete_lines (concat (map (\<lambda>l. l @ [CHR 0x0A]) (map dumps es)) @ torn) = map dumps es"
    using assms(1-3) by (intro complete_lines_written) auto
  moreover have "concat (map (\<lambda>l. l @ [CHR 0x0A]) (map dumps es)) = concat (map (\<lambda>e. dumps e @ [CHR 0x0A]) es)"
    by (simp add: comp_def)
  moreover have "concat (map (line_entry loads) (map dumps es)) = es"
    using assms(1) by (induction es) (simp_all add: line_entry_def)
  ultimately have "parse_jsonl loads (concat (map (\<lambda>e. dumps e @ [CHR 0x0A]) es) @ torn) = es" by (simp add: parse_jsonl_def)
  moreover have "since_keeps fromiso None = (\<lambda>_. True)" by (simp add: fun_eq_iff since_keeps_def)
  ultimately show ?thesis using assms(4,5) by (simp add: read_jsonl_def read_entries_def filter_and_limit_def Let_def)
qed

definition demo_dumps :: "pyval \<Rightarrow> pystr" where
  "demo_dumps e = (case e of PStr s \<Rightarrow> s | _ \<Rightarrow> [])"

theorem log_read_back_witness:
  "fst (read_jsonl 2 (\<lambda>s. Some (PStr s)) (\<lambda>_. None) None None
     \<lparr>lf_path = ''l'', lf_stat = Some (1, 2, 3), lf_text = Some ([CHR ''a'', CHR 0x0A, CHR ''b'', CHR 0x0A, CHR ''c'', CHR 0x0A] @ ''d'')\<rparr> []) =
   Some [PStr ''b'', PStr ''c'']"
proof -
  let ?f = "\<lparr>lf_path = ''l'', lf_stat = Some (1, 2, 3), lf_text = Some ([CHR ''a'', CHR 0x0A, CHR ''b'', CHR 0x0A, CHR ''c'', CHR 0x0A] @ ''d'')\<rparr>"
  have "strip [c] = [c]" if "c \<in> set ''abc''" for c using that by (auto simp: strip_plain py_isspace_def)
  then have 1: "\<forall>e\<in>set [PStr ''a'', PStr ''b'', PStr ''c'']. demo_dumps e \<noteq> [] \<and> CHR 0x0A \<notin> set (demo_dumps e) \<and> CHR 0x0D \<notin> set (demo_dumps e) \<and>
      strip (demo_dumps e) = demo_dumps e \<and> (\<lambda>s. Some (PStr s)) (demo_dumps e) = Some e"
    by (simp add: demo_dumps_def)
  have "fst (read_jsonl 2 (\<lambda>s. Some (PStr s)) (\<lambda>_. None) None None ?f []) = last_entries None (trim_entries 2 [PStr ''a'', PStr ''b'', PStr ''c''])"
    by (rule log_read_back [OF 1, where torn = "''d''" and st = "(1, 2, 3)"]) (simp_all add: demo_dumps_def)
  then show ?thesis by (simp add: last_entries_def trim_entries_def slice_from_def)
qed

section \<open>Who reads the logs\<close>

definition may_read :: "(pystr \<rightharpoonup> pystr) \<Rightarrow> pystr \<Rightarrow> log_query \<Rightarrow> bool" where
  "may_read env token q =
     (if token = [] then str_in (lower (strip (env_get env ''CONVERSATIONS_AUTH_DISABLED''))) [''1'', ''true'', ''yes'', ''on'']
      else lq_header q = ''Bearer '' @ token)"

lemma log_auth_passes: "log_auth env token header = None \<longleftrightarrow>
    (if token = [] then str_in (lower (strip (env_get env ''CONVERSATIONS_AUTH_DISABLED''))) [''1'', ''true'', ''yes'', ''on'']
     else compare_digest (''Bearer '' @ token) header = Some True)"
  by (auto simp: log_auth_def split: option.split)

text \<open>The entries of a log are served, by a backend and by the harness, only to a caller with the configured token, or when no
  token is configured and the operator switched the check off; any other caller is answered before a file is touched
  or a backend asked.\<close>

theorem logs_need_token:
  assumes "\<not> may_read env token q"
  shows "\<exists>r. log_auth env token (lq_header q) = Some r \<and> r \<in> {Refuse 503 ''auth not configured'', Refuse 401 ''unauthorized'', Raised} \<and>
    conversations_handler cap loads fromiso env token q f cache = (r, cache) \<and>
    tool_audit_handler cap loads fromiso epoch show env token q f cache = (r, cache) \<and>
    proxy_conversations_handler fromiso env token fetch q = r \<and> proxy_tool_audit_handler fromiso env token fetch2 q = r"
proof -
  have "log_auth env token (lq_header q) \<noteq> None"
    using assms unfolding log_auth_passes may_read_def compare_digest_def by (auto split: if_splits)
  then obtain r where r: "log_auth env token (lq_header q) = Some r" by blast
  then have "r \<in> {Refuse 503 ''auth not configured'', Refuse 401 ''unauthorized'', Raised}"
    unfolding log_auth_def by (auto split: if_splits option.splits)
  then show ?thesis using r
    by (simp add: conversations_handler_def tool_audit_handler_def proxy_conversations_handler_def proxy_tool_audit_handler_def)
qed

definition demo_query :: log_query where
  "demo_query = \<lparr>lq_header = ''Bearer x'', lq_since = [], lq_limit = [], lq_decision = [], lq_tool = [], lq_session = []\<rparr>"

theorem logs_need_token_witness:
  "proxy_conversations_handler (\<lambda>_. None) (\<lambda>_. None) ''t'' (\<lambda>_ _. Some []) demo_query = Refuse 401 ''unauthorized''"
proof -
  have "\<not> may_read (\<lambda>_. None) ''t'' demo_query" "log_auth (\<lambda>_. None) ''t'' (lq_header demo_query) = Some (Refuse 401 ''unauthorized'')"
    by code_simp+
  then show ?thesis
    using logs_need_token [of "\<lambda>_. None" "''t''" demo_query 0 "\<lambda>_. None" "\<lambda>_. None" undefined "[]" "\<lambda>_. None" "\<lambda>_. []" "\<lambda>_ _. Some []" "\<lambda>_ _ _ _ _. None"]
    by auto
qed

section \<open>The merged log\<close>

lemma merge_new_spec:
  "merge_new key seen es = Some out \<Longrightarrow>
     set out \<subseteq> set es \<and> distinct (map key out) \<and> key ` set out \<inter> Some ` set seen = {} \<and> None \<notin> key ` set es \<and>
     key ` set es \<subseteq> key ` set out \<union> Some ` set seen"
proof (induction key seen es arbitrary: out rule: merge_new.induct)
  case (2 key seen e es)
  obtain k where k: "key e = Some k" using "2.prems" by (auto split: option.splits)
  show ?case
  proof (cases "k \<in> set seen")
    case True
    then have "merge_new key seen es = Some out" using "2.prems" k by simp
    then show ?thesis using "2.IH"(1) [OF k True] k True by auto
  next
    case False
    then obtain r where r: "merge_new key (k # seen) es = Some r" "out = e # r" using "2.prems" k by auto
    then show ?thesis using "2.IH"(2) [OF k False r(1)] k False by (auto simp: image_iff)
  qed
qed simp

lemma merge_logs_spec:
  assumes "merge_logs key ts limit results = Some out"
  shows "\<exists>all. set all \<subseteq> set (concat results) \<and> key ` set all = key ` set (concat results) \<and> distinct (map key all) \<and> sorted (map ts all) \<and>
    out = (case limit of None \<Rightarrow> all | Some n \<Rightarrow> slice_from (- n) all) \<and> None \<notin> key ` set (concat results)"
proof -
  obtain es where es: "merge_new key [] (concat results) = Some es" "out = (case limit of None \<Rightarrow> sort_key ts es | Some n \<Rightarrow> slice_from (- n) (sort_key ts es))"
    using assms by (auto simp: merge_logs_def)
  have "distinct (map key (sort_key ts es))" using merge_new_spec [OF es(1)] by (simp add: distinct_map)
  then show ?thesis using merge_new_spec [OF es(1)] es(2) by (intro exI [of _ "sort_key ts es"]) auto
qed

text \<open>What counts as the answer of a backend: a list, in a response of status 200 whose body is within the cap.\<close>

definition answered_list ::
  "int \<Rightarrow> (nat list \<Rightarrow> pystr) \<Rightarrow> (pystr \<Rightarrow> pyval option) \<Rightarrow> fetcher \<Rightarrow> pystr \<Rightarrow> (pystr \<times> pystr) list \<Rightarrow> (pystr \<times> pystr) list
   \<Rightarrow> backend_config \<Rightarrow> pyval list \<Rightarrow> bool" where
  "answered_list cap decode loads fetch path params headers b es =
     (\<exists>u chunks. bc_url b = Some (PStr u) \<and> u \<noteq> [] \<and>
        fetch (rstrip_by (\<lambda>x. x = CHR ''/'') u @ path) params headers = Got 200 chunks \<and>
        (cap \<le> 0 \<or> int (length (concat chunks)) \<le> cap) \<and> loads (decode (concat chunks)) = Some (PList es))"

lemma read_response_capped:
  "read_response cap got acc chunks =
     (if cap \<le> 0 \<or> chunks = [] \<or> got + int (length (concat chunks)) \<le> cap then Some (acc @ concat chunks) else None)"
proof (induction chunks arbitrary: got acc)
  case (Cons c chunks)
  have "int (length (concat (c # chunks))) = int (length c) + int (length (concat chunks))" "int (length (concat chunks)) \<ge> 0" by simp_all
  then show ?case using Cons.IH [of "got + int (length c)" "acc @ c"] by auto
qed simp

lemma fetch_one_answered:
  "e \<in> set (fetch_one cap decode loads fetch path params headers b) \<longleftrightarrow>
     (\<exists>es. answered_list cap decode loads fetch path params headers b es \<and> e \<in> set es)"
proof -
  have body: "read_response cap 0 [] chunks = (if cap \<le> 0 \<or> int (length (concat chunks)) \<le> cap then Some (concat chunks) else None)" for chunks
    unfolding read_response_capped by (cases chunks) auto
  show ?thesis
  proof
    assume e: "e \<in> set (fetch_one cap decode loads fetch path params headers b)"
    then obtain u where u: "bc_url b = Some (PStr u)" "u \<noteq> []"
      by (cases "bc_url b") (auto simp: fetch_one_def split: pyval.splits list.splits)
    then obtain status chunks where f: "fetch (rstrip_by (\<lambda>x. x = CHR ''/'') u @ path) params headers = Got status chunks"
      using e by (cases u; cases "fetch (rstrip_by (\<lambda>x. x = CHR ''/'') u @ path) params headers"; simp add: fetch_one_def)
    then obtain es where es: "capped_get_json cap decode loads status chunks = (200, Some (PList es))" "e \<in> set es"
      using e u f by (cases u) (auto simp: fetch_one_def split: prod.splits option.splits pyval.splits if_splits, metis)
    have "status = 200" "cap \<le> 0 \<or> int (length (concat chunks)) \<le> cap" "loads (decode (concat chunks)) = Some (PList es)"
      using es(1) by (auto simp: capped_get_json_def body split: if_splits)
    then have "answered_list cap decode loads fetch path params headers b es" using u f unfolding answered_list_def by blast
    then show "\<exists>es. answered_list cap decode loads fetch path params headers b es \<and> e \<in> set es" using es(2) by blast
  next
    assume "\<exists>es. answered_list cap decode loads fetch path params headers b es \<and> e \<in> set es"
    then obtain es u chunks where e: "e \<in> set es" "bc_url b = Some (PStr u)" "u \<noteq> []"
        "fetch (rstrip_by (\<lambda>x. x = CHR ''/'') u @ path) params headers = Got 200 chunks"
        "cap \<le> 0 \<or> int (length (concat chunks)) \<le> cap" "loads (decode (concat chunks)) = Some (PList es)"
      unfolding answered_list_def by blast
    have "capped_get_json cap decode loads 200 chunks = (200, Some (PList es))" using e(5,6) by (simp add: capped_get_json_def body)
    then show "e \<in> set (fetch_one cap decode loads fetch path params headers b)"
      using e(1-4) by (cases u) (simp_all add: fetch_one_def)
  qed
qed

text \<open>The identity of an entry: its stamp, session, role, agent and the first 64 characters of its text.\<close>

definition entry_field :: "pyval \<Rightarrow> pystr \<Rightarrow> pyval" where
  "entry_field e k = (case e of PDict d \<Rightarrow> (case dict_get d k of Some v \<Rightarrow> v | None \<Rightarrow> PNone) | _ \<Rightarrow> PNone)"

definition entry_identity :: "(pyval \<Rightarrow> pyval) \<Rightarrow> pyval \<Rightarrow> pyval list" where
  "entry_identity canon e =
     map canon [entry_field e ''ts'', entry_field e ''session_id'', entry_field e ''role'', entry_field e ''agent'',
       PStr (case entry_field e ''text'' of PStr s \<Rightarrow> take 64 s | _ \<Rightarrow> [])]"

lemma text_start:
  assumes "(case truthy_field d ''text'' of None \<Rightarrow> Some [] | Some (PStr s) \<Rightarrow> Some (take 64 s) | Some _ \<Rightarrow> None) = Some t"
  shows "t = (case get_or_none d ''text'' of PStr s \<Rightarrow> take 64 s | _ \<Rightarrow> [])"
proof (cases "dict_get d ''text''")
  case (Some v)
  then show ?thesis using assms by (cases v) (auto simp: truthy_field_def truthy_def get_or_none_def split: if_splits)
qed (use assms in \<open>simp add: truthy_field_def truthy_def get_or_none_def\<close>)

lemma conversation_key_identity:
  assumes "conversation_key canon e = Some k"
  shows "k = entry_identity canon e"
proof (cases e)
  case (PDict d)
  have f: "entry_field e = get_or_none d" by (simp add: fun_eq_iff PDict entry_field_def get_or_none_def)
  obtain t where t: "(case truthy_field d ''text'' of None \<Rightarrow> Some [] | Some (PStr s) \<Rightarrow> Some (take 64 s) | Some _ \<Rightarrow> None) = Some t"
    using assms PDict by (cases "(case truthy_field d ''text'' of None \<Rightarrow> Some [] | Some (PStr s) \<Rightarrow> Some (take 64 s) | Some _ \<Rightarrow> None)")
      (simp_all add: conversation_key_def)
  show ?thesis using assms unfolding PDict conversation_key_def pyval.case t option.case tuple_key_def
    by (simp add: entry_identity_def f [unfolded PDict] text_start [OF t, symmetric] split: if_splits)
qed (use assms in \<open>simp_all add: conversation_key_def\<close>)

text \<open>The stamps an order can be stated of: strings, and numbers that \<open>datetime\<close> prints.\<close>

definition stamp_shown :: "(pyval \<Rightarrow> pystr option) \<Rightarrow> pyval \<Rightarrow> pystr option" where
  "stamp_shown utc e =
     (case entry_field e ''ts'' of PStr s \<Rightarrow> Some s | PInt n \<Rightarrow> utc (PInt n) | PFloat x \<Rightarrow> utc (PFloat x) | _ \<Rightarrow> None)"

lemma ts_sort_key_shown: "stamp_shown utc e = Some t \<Longrightarrow> ts_sort_key utc show e = t"
  by (auto simp: stamp_shown_def ts_sort_key_def entry_field_def split: pyval.splits option.splits)


definition demo_entry :: "pystr \<Rightarrow> pyval" where
  "demo_entry ts = PDict [(''ts'', PStr ts), (''text'', PStr ''hi'')]"

definition demo_fetch :: fetcher where
  "demo_fetch url params headers = (if url = ''http://b/conversations'' then Got 200 [[2, 1]] else if url = ''http://c/conversations'' then Got 200 [[1]] else Got 500 [])"

definition demo_backends :: "backend_config list" where
  "demo_backends = map (\<lambda>u. \<lparr>bc_id = PStr u, bc_model = None, bc_auth_env = None, bc_url = Some (PStr u), bc_extra = []\<rparr>) [''http://b/'', ''http://c'', ''http://d'']"

definition demo_decode :: "nat list \<Rightarrow> pystr" where
  "demo_decode bs = concat (map str_of_nat bs)"

definition demo_loads :: "pystr \<Rightarrow> pyval option" where
  "demo_loads s = Some (PList (map (\<lambda>c. demo_entry [c]) s))"


section \<open>Corner cases\<close>

text \<open>A negative limit is not refused with the other malformed ones; it raises once the file is there.\<close>

lemma negative_limit_raises:
  "conversations_handler 10 (\<lambda>_. None) (\<lambda>_. None) (\<lambda>_. None) ''x'' (demo_query\<lparr>lq_limit := ''-1''\<rparr>)
     \<lparr>lf_path = ''l'', lf_stat = Some (1, 0, 0), lf_text = Some []\<rparr> [] = (Raised, [(''l'', ((1, 0, 0), []))])"
  by code_simp

text \<open>One entry that is not an object, from one backend, fails the whole merged log.\<close>

lemma one_bad_entry_fails_all:
  assumes "e \<in> set (concat results)" "conversation_key canon e = None"
  shows "merge_logs (conversation_key canon) ts limit results = None"
proof (cases "merge_new (conversation_key canon) [] (concat results)")
  case (Some out)
  have "None \<in> conversation_key canon ` set (concat results)" using assms by (metis imageI)
  then show ?thesis using merge_new_spec [OF Some] by (elim conjE) (rule notE)
qed (simp add: merge_logs_def)

text \<open>The merged tool audit orders by the printed form of the time, so that a row with a number of seconds comes before one with
  a date however late it is, and a limit drops the later row.\<close>

lemma audit_epoch_sorts_first:
  "merge_logs (audit_key (\<lambda>v. v)) (ts_printed (\<lambda>v. case v of PFloat x \<Rightarrow> x | _ \<Rightarrow> [])) (Some 1)
     [[PDict [(''ts'', PFloat ''1790000000.5'')]], [PDict [(''ts'', PStr ''2026-01-01T00:00:00Z'')]]] =
   Some [PDict [(''ts'', PStr ''2026-01-01T00:00:00Z'')]]"
  by code_simp

text \<open>Stamps of two formats are not in the order of time: with the letter for the zone, a stamp with a fraction comes before the
  full second it follows, and a limit drops the later entry.\<close>

lemma fraction_sorts_first:
  "merge_logs (conversation_key (\<lambda>v. v)) (ts_sort_key (\<lambda>_. None) (\<lambda>_. [])) (Some 1)
     [[demo_entry ''2026-01-01T00:00:00Z''], [demo_entry ''2026-01-01T00:00:00.5Z'']] = Some [demo_entry ''2026-01-01T00:00:00Z'']"
  by code_simp

text \<open>A \<open>since\<close> without a zone empties the conversations, whose times have one, and raises on the tool audit. Rows with a number
  of seconds pass the filter of the audit alone.\<close>

lemma naive_since:
  assumes "fromiso (zulu s) = Some (Aware t)"
  shows "\<not> since_keeps fromiso (Some (Naive t0)) (PDict [(''ts'', PStr s)])"
    and "row_passes fromiso epoch show \<lparr>rf_since = Some (Naive t0), rf_decision = [], rf_tool = [], rf_session = []\<rparr> (PDict [(''ts'', PStr s)]) = None"
  using assms by (simp_all add: since_keeps_def row_passes_def row_since_def)

lemma epoch_rows_dropped:
  assumes "epoch (PInt 9) = Some 9"
  shows "\<not> since_keeps fromiso (Some (Aware 1)) (PDict [(''ts'', PInt 9)])"
    and "row_passes fromiso epoch show \<lparr>rf_since = Some (Aware 1), rf_decision = [], rf_tool = [], rf_session = []\<rparr> (PDict [(''ts'', PInt 9)]) = Some True"
  using assms by (simp_all add: since_keeps_def row_passes_def row_since_def truthy_def split: option.split)

end
