(* ===== verification/Input_Checks.thy ===== *)
theory Input_Checks
  imports Webhooks
begin

text \<open>
  Model of \<open>shared/env.py\<close>, the parsers of configuration variables, and of \<open>shared/validation.py\<close>, the checks of a token
  budget and of the label under which a model is counted.
\<close>

section \<open>Variables\<close>

definition TRUTHY :: "pystr list" where "TRUTHY = [''1'', ''true'', ''yes'', ''on'', ''y'', ''t'']"

definition FALSY :: "pystr list" where "FALSY = [''0'', ''false'', ''no'', ''off'', ''n'', ''f'', []]"

text \<open>\<^const>\<open>None\<close> is the \<open>ValueError\<close>.\<close>

definition parse_bool_env :: "(pystr \<rightharpoonup> pystr) \<Rightarrow> pystr \<Rightarrow> bool \<Rightarrow> bool option" where
  "parse_bool_env env name dflt =
     (case env name of
        None \<Rightarrow> Some dflt
      | Some raw \<Rightarrow>
          (let v = lower (strip raw) in if str_in v TRUTHY then Some True else if str_in v FALSY then Some False else None))"

definition parse_int_env :: "(pystr \<rightharpoonup> pystr) \<Rightarrow> pystr \<Rightarrow> int \<Rightarrow> int option" where
  "parse_int_env env name dflt =
     (case env name of None \<Rightarrow> Some dflt | Some raw \<Rightarrow> if strip raw = [] then Some dflt else int_of_str (strip raw))"

definition parse_float_env :: "(pystr \<Rightarrow> 'f option) \<Rightarrow> (pystr \<rightharpoonup> pystr) \<Rightarrow> pystr \<Rightarrow> 'f \<Rightarrow> 'f option" where
  "parse_float_env float env name dflt =
     (case env name of None \<Rightarrow> Some dflt | Some raw \<Rightarrow> if strip raw = [] then Some dflt else float (strip raw))"

section \<open>Labels and budgets\<close>

definition label_char :: "char \<Rightarrow> bool" where
  "label_char c =
     (let n = (of_char c :: nat)
      in (97 \<le> n \<and> n \<le> 122) \<or> (65 \<le> n \<and> n \<le> 90) \<or> (48 \<le> n \<and> n \<le> 57) \<or> c = CHR ''.'' \<or> c = CHR ''_'' \<or> c = CHR ''-'')"

text \<open>The dollar of the pattern also matches before a line feed at the end.\<close>

definition model_label_re :: "pystr \<Rightarrow> bool" where
  "model_label_re s =
     (let t = (if s \<noteq> [] \<and> last s = CHR 0x0A then butlast s else s) in 1 \<le> length t \<and> length t \<le> 64 \<and> list_all label_char t)"

definition sanitize_model_label :: "pystr option \<Rightarrow> pystr" where
  "sanitize_model_label value = (case or_none value of None \<Rightarrow> ''unknown'' | Some v \<Rightarrow> if model_label_re v then v else ''unknown'')"

text \<open>\<^const>\<open>None\<close> is the \<open>OverflowError\<close>, which is not caught.\<close>

definition parse_max_tokens :: "(pystr \<Rightarrow> int_result) \<Rightarrow> pyval \<Rightarrow> int option option" where
  "parse_max_tokens float_int raw =
     (if raw = PNone then Some None
      else (case py_int float_int raw of
              IntOk n \<Rightarrow> Some (if n \<le> 0 then None else Some n)
            | IntOverflow \<Rightarrow> None
            | _ \<Rightarrow> Some None))"

section \<open>What they give\<close>

text \<open>A typing error in a flag never flips it: the value is given in one of the two vocabularies, or the parser raises.\<close>

lemma parse_bool_env_strict:
  "parse_bool_env env name True = Some False \<longleftrightarrow> (\<exists>raw. env name = Some raw \<and> lower (strip raw) \<in> set FALSY)"
  "parse_bool_env env name False = Some True \<longleftrightarrow> (\<exists>raw. env name = Some raw \<and> lower (strip raw) \<in> set TRUTHY)"
proof -
  have "x \<notin> set TRUTHY \<or> x \<notin> set FALSY" for x by (auto simp: TRUTHY_def FALSY_def)
  then show "parse_bool_env env name True = Some False \<longleftrightarrow> (\<exists>raw. env name = Some raw \<and> lower (strip raw) \<in> set FALSY)"
    "parse_bool_env env name False = Some True \<longleftrightarrow> (\<exists>raw. env name = Some raw \<and> lower (strip raw) \<in> set TRUTHY)"
    by (auto simp: parse_bool_env_def Let_def split: option.split)
qed

text \<open>A number in the environment is read as written, surrounding space aside.\<close>

lemma parse_int_env_str:
  "env name = Some (str_of_nat n) \<Longrightarrow> parse_int_env env name dflt = Some (int n)"
  by (simp add: parse_int_env_def strip_str_of_nat int_of_str_of_nat)

text \<open>A label is bounded, but a line feed at its end comes through.\<close>

lemma model_label_bounded: "length (sanitize_model_label v) \<le> 65 \<and> list_all label_char (butlast (sanitize_model_label v))"
proof -
  have "list_all label_char (butlast s) \<and> length s \<le> 65" if "model_label_re s" for s
    using that by (auto simp: model_label_re_def list_all_iff dest: in_set_butlastD split: if_splits)
  then show ?thesis by (auto simp: sanitize_model_label_def label_char_def split: option.split)
qed

lemma model_label_line_feed: "sanitize_model_label (Some (''m'' @ [CHR 0x0A])) = ''m'' @ [CHR 0x0A]"
  by code_simp

text \<open>A budget that is returned is positive; an infinite one, which JSON admits, raises.\<close>

lemma parse_max_tokens_positive: "parse_max_tokens float_int raw = Some (Some n) \<Longrightarrow> n > 0"
  by (auto simp: parse_max_tokens_def split: if_splits int_result.splits)

lemma infinite_budget_raises: "float_int ''inf'' = IntOverflow \<Longrightarrow> parse_max_tokens float_int (PFloat ''inf'') = None"
  by (simp add: parse_max_tokens_def py_int_def)

end
