(* ===== verification/Spec2Isabelle.thy ===== *)
theory Spec2Isabelle
  imports Session_Stream Session_Binding Hooks_Engine Mcp_Allowlist Prompt_Env Message_Bus
    Harness_Utils Continuations Webhook_Runner Tasks Heartbeat Triggers Executor A2A_Backend Hook_Events Mcp_Auth Redact Conversations Input_Checks
begin

text \<open>
  A verification development for the Python core of witwave, a platform that runs language-model agents
  as containers: a \<^emph>\<open>harness\<close> per agent schedules prompts, routes them to \<^emph>\<open>backends\<close> over a message bus,
  and reports what happens to dashboards and webhooks; code under \<open>shared/\<close> is used by the harness and the
  backends alike.

  \<^bold>\<open>The parts and how they interact.\<close> Prompts enter the harness from the schedulers (\<open>harness/jobs.py\<close>,
  \<open>tasks.py\<close>, \<open>heartbeat.py\<close>) and continuations as messages on the bus (\<open>harness/bus.py\<close>), which one worker (\<open>bus_worker\<close>
  in \<open>harness/main.py\<close>) hands to the executor (\<open>harness/executor.py\<close>), and from HTTP as requests of the A2A protocol and
  of triggers (\<open>harness/triggers.py\<close>). The executor picks the backend and the model from \<open>backend.yaml\<close>
  (\<open>harness/backends/config.py\<close>), or asks several backends and puts their answers to the vote. A finished prompt
  notifies the continuations (\<open>harness/continuations.py\<close>), which may put
  further messages on the bus, and fires the webhooks (\<open>harness/webhooks.py\<close>). Before a backend runs a tool it
  asks the policy engine (\<open>shared/hooks_engine.py\<close>); the decision travels over a side channel of the bus to the
  webhooks and to the event stream (\<open>harness/events.py\<close>), whose envelopes are validated against the event
  contract (\<open>shared/event_schema.py\<close>). A backend streams a conversation through the session streams
  (\<open>shared/session_stream.py\<close>); the id of the session is bound to its caller (\<open>shared/session_binding.py\<close>). The backends
  post their own events to the harness (\<open>shared/hook_events.py\<close>); the tool servers check a token (\<open>shared/mcp_auth.py\<close>).
  The runners keep their registries in step with directories of markdown files (\<open>run_awatch_loop\<close> in
  \<open>harness/utils.py\<close>).

  \<^bold>\<open>Theories, in the order of their imports.\<close>

  \<^item> \<open>Prelude\<close>: strings as char lists, dictionaries as association lists with Python's order, the Python
    values of JSON and YAML (\<open>pyval\<close>), the development's collections of simplification rules.

  \<^item> \<open>Event_Schema\<close> (\<open>shared/event_schema.py\<close>): \<open>validate_envelope\<close>, the payload validator of each event type
    and their tables. Accepted envelopes conform to the published JSON schema; fields outside the contract
    never matter; exactly which values make the validator raise.

  \<^item> \<open>Async_Queue\<close>, \<open>Broadcast\<close>: bounded queues of \<open>asyncio\<close>; envelopes, subscribers and what both streams
    share of fan-out and draining, as locales that the two streams interpret.

  \<^item> \<open>Event_Stream\<close> (\<open>harness/events.py\<close>): the record \<open>event_stream\<close> is the object's state, \<open>publish\<close>,
    \<open>subscribe\<close>, \<open>consume\<close>, \<open>replay_from\<close>, \<open>evict_slow\<close> and the publish endpoint its operations. Bounded queues
    and ring, unique ids under every interleaving of publishers, delivery, replay, and the end of an evicted
    subscriber.

  \<^item> \<open>Session_Stream\<close> (\<open>shared/session_stream.py\<close>): one broadcaster per session, the process-wide registry with
    its cap and idle sweep, and the admission part of the streaming route.

  \<^item> \<open>Py_Text\<close>, \<open>Prompt_Env\<close>, \<open>Harness_Utils\<close>: the string methods, \<open>shlex\<close> and UTF-8 of Python as far as the
    sources use them; \<open>shared/prompt_env.py\<close>; durations, consensus entries, front matter, and the bounded file
    cache of \<open>harness/utils.py\<close>.

  \<^item> \<open>Session_Binding\<close>, \<open>Hooks_Engine\<close>, \<open>Mcp_Allowlist\<close>: the shared modules of these names. Which tool calls
    the baseline policy denies, that extensions cannot undo it, and the gaps it has.

  \<^item> \<open>Message_Bus\<close> (\<open>harness/bus.py\<close>): \<open>send\<close> is cut into one definition per suspension point, so that a run is
    a sequence of steps; single flight per kind, and the hook-decision channel with its dispatcher.

  \<^item> \<open>Task_Pool\<close>, \<open>Dir_Watcher\<close>: the interfaces the runners share, as locales: tracking of background tasks,
    and the watch loop over a directory with the operations of a runner as parameters.

  \<^item> \<open>Continuations\<close> (\<open>harness/continuations.py\<close>): files, registry, fan-in with its time-to-live, the two caps,
    the message and the event of a fire.

  \<^item> \<open>Url_Guard\<close>, \<open>Webhooks\<close>, \<open>Webhook_Runner\<close> (\<open>harness/webhooks.py\<close>): the check of a URL; subscriptions and one
    delivery with its retries as the list of actions it performs; the runner with its caps, its retry budget
    and its registry as a transition system (\<open>wh_run\<close>).

  \<^item> \<open>Scheduler\<close>, \<open>Jobs\<close>, \<open>Py_Date\<close>, \<open>Tasks\<close>, \<open>Heartbeat\<close> (\<open>harness/jobs.py\<close>, \<open>tasks.py\<close>, \<open>heartbeat.py\<close> and the ad-hoc
    handlers of \<open>main.py\<close>): what the job and the task runner share, with the items as a type parameter, as a
    transition system (\<open>sched_run\<close>): the concurrency limit, the \<open>running\<close> flags, one live coroutine per path; the
    ticks of a cron loop; then the files, messages and events of each kind of item, the windows of tasks on
    Python's calendar, and the heartbeat's single flight on the bus.

  \<^item> \<open>Triggers\<close> (\<open>harness/triggers.py\<close> and \<open>trigger_handler\<close> of \<open>main.py\<close>): files and endpoints; the handler in two
    steps, before and after the body is read. What a firing request has proved about itself, and who holds the slot of
    an endpoint in every interleaving (\<open>trig_run\<close>), the slots lost to an exception included.

  \<^item> \<open>Backend_Config\<close>, \<open>Consensus\<close>, \<open>Executor\<close> (\<open>harness/backends/config.py\<close>, \<open>harness/executor.py\<close>): the configuration in force
    after any history of reloads, with every route valid; one prompt to one backend, and the vote over several; the
    executor as a transition system (\<open>exec_run\<close>) with the pool of background tasks: every completion is accounted for,
    messages reach the backend of their kind, A2A requests end for their caller.

  \<^item> \<open>Tracing\<close>, \<open>A2A_Backend\<close> (\<open>harness/tracing.py\<close>, \<open>harness/backends/a2a.py\<close>): the W3C trace context and its passage through
    a chain of services; the client of one backend, with its retries as the list of actions of a request and its
    circuit breaker under interleaved queries (\<open>a2a_reach\<close>): what is sent again, when queries are refused.

  \<^item> \<open>Hook_Events\<close> (\<open>shared/hook_events.py\<close>): how a backend posts its events to the harness, as a transition system
    (\<open>hook_run\<close>): caps, breaker, that a scheduled event is accepted by the publish endpoint of \<open>Event_Stream\<close>, and the
    threads around the lock of the module (\<open>cf_step\<close>) with the deadlock they can reach.

  \<^item> \<open>Mcp_Auth\<close> (\<open>shared/mcp_auth.py\<close>, \<open>mcp_body_cap.py\<close>, \<open>mcp_audit.py\<close>): who reaches a tool server, the warnings about a closed
    one, the capped body and the redaction of audited arguments.

  \<^item> \<open>Redact\<close> (\<open>shared/redact.py\<close>): the patterns of credentials as data for a matcher of the regular expressions they use; that
    every match is met by a masked span, that identifiers survive, and the credentials that are not masked.

  \<^item> \<open>Conversations\<close> (\<open>shared/conversations.py\<close>, \<open>harness/conversations_proxy.py\<close>): reading logs through the shared cache, the routes
    over them, and the merge of the logs of all backends: the cache does not show, what was logged is read back, only
    callers with the token read, the merged log is the union in order of time.

  \<^item> \<open>Input_Checks\<close> (\<open>shared/env.py\<close>, \<open>shared/validation.py\<close>): configuration variables, token budgets and model labels.

  \<^bold>\<open>How state and effects are modelled.\<close> An object is a record and a method a function from record to record,
  or to a pair when it returns something; exceptions and early returns are constructors of a result type. A
  coroutine is cut at its awaits; runs are inductive predicates over the steps, and invariants are proved by
  rule induction over them. Clocks, hash functions, DNS answers, YAML, \<open>croniter\<close>, the zone database, \<open>fnmatch\<close>, regular expressions supplied
  by an operator, HTTP answers and the environment are arguments of the definitions. Prometheus metrics, spans
  and log lines are left out. No definition uses fuel: loops are structural recursion over the data they walk, and the ones
  that are not, such as the retry chain \<open>retry_deliver\<close> and the nested-shell search \<open>rm_rf_command\<close>, have
  termination proofs; the day search of a task has the bound the code computes for it. The one loop without a bound of its
  own, the search for a non-zero random identifier, is a partial function, and that it returns is proved under the
  assumption that some later draw is not zero. Characters are the 256 of HOL; the byte counts of texts assume UTF-8 of these. Python's limit on
  the digits of \<open>int()\<close> and its recursion limit are not modelled.

  \<^bold>\<open>What is not modelled.\<close> Of the shared modules, telemetry (\<open>otel.py\<close>, the metrics) and the appending and rotating of log
  files. Of the executor, cancellation, the restart loop \<open>_guarded\<close>, the conversation log and the phases of shutdown are left
  out. The HTTP applications, the SQLite task store and the client objects are I/O around the modelled parts; the
  backends adapt vendor libraries; the MCP servers wrap external tools; the operator, the command-line client, the
  dashboard and the charts are not Python.
\<close>

end
